(* ===== verification/Prelude.thy ===== *)
theory Prelude
  imports Main "HOL-Library.Monad_Syntax"
begin

text \<open>
  Shared base of the development: the theorem collections the component proofs draw on, a left
  fold in the option monad (the loops of the program run over a container and call code that may
  not return within the fuel it is given), and a small calculus for statements of the form
  ``whenever this computation returns, its result is related to the state it started from''.
\<close>

named_theorems wp \<open>rules that take a computation of the model apart, one constructor at a time\<close>
named_theorems frame_simps \<open>fields an update of the state leaves alone\<close>

section \<open>Lists\<close>

lemma butlast_Cons_ne [simp]: "xs \<noteq> [] \<Longrightarrow> butlast (x # xs) = x # butlast xs"
  by simp

lemma set_butlast_last: "xs \<noteq> [] \<Longrightarrow> set xs = insert (last xs) (set (butlast xs))"
  by (induction xs) auto

lemma set_tl_subset: "set (tl xs) \<subseteq> set xs"
  by (cases xs) auto

lemma length_filter_upd:
  "distinct xs \<Longrightarrow> x \<in> set xs \<Longrightarrow> P x \<Longrightarrow> \<not> Q x \<Longrightarrow> (\<And>y. y \<noteq> x \<Longrightarrow> Q y = P y) \<Longrightarrow>
     Suc (length (filter Q xs)) = length (filter P xs)"
proof (induction xs)
  case Nil
  then show ?case by simp
next
  case (Cons a xs)
  show ?case
  proof (cases "a = x")
    case True
    with Cons.prems have "filter Q xs = filter P xs"
      by (metis distinct.simps(2) filter_cong)
    with True Cons.prems show ?thesis by simp
  next
    case False
    with Cons show ?thesis by auto
  qed
qed

lemma length_filter_cong: "(\<And>y. y \<in> set xs \<Longrightarrow> Q y = P y) \<Longrightarrow> length (filter Q xs) = length (filter P xs)"
  by (metis filter_cong)

section \<open>Characters\<close>

text \<open>\<^verbatim>\<open>isspace\<close> in the classic locale.\<close>

definition c_isspace :: "char \<Rightarrow> bool" where
  "c_isspace c \<longleftrightarrow> c \<in> {CHR 0x20, CHR 0x09, CHR 0x0A, CHR 0x0B, CHR 0x0C, CHR 0x0D}"

definition char_code :: "char \<Rightarrow> nat" where
  "char_code c = of_char c"

section \<open>Loops that call code which may not return\<close>

primrec fold_opt :: "('a \<Rightarrow> 's \<Rightarrow> 's option) \<Rightarrow> 'a list \<Rightarrow> 's \<Rightarrow> 's option" where
  "fold_opt f [] s = Some s"
| "fold_opt f (x # xs) s = Option.bind (f x s) (fold_opt f xs)"

lemma fold_opt_Some: "fold_opt (\<lambda>x s. Some (f x s)) xs s = Some (fold f xs s)"
  by (induction xs arbitrary: s) auto

lemma fold_opt_total:
  assumes "\<And>x s. x \<in> set xs \<Longrightarrow> P s \<Longrightarrow> \<exists>s'. f x s = Some s' \<and> P s'" and "P s"
  shows "\<exists>s'. fold_opt f xs s = Some s' \<and> P s'"
  using assms
proof (induction xs arbitrary: s)
  case Nil
  then show ?case by simp
next
  case (Cons x xs)
  then obtain s1 where "f x s = Some s1" "P s1" by (metis list.set_intros(1))
  with Cons show ?case by simp
qed

section \<open>Computations that return only related states\<close>

text \<open>
  \<^term>\<open>yields Q m\<close>: if the computation \<open>m\<close> returns, its result satisfies \<open>Q\<close>. The rules
  below follow the constructors the operations are written with.
\<close>

definition yields :: "('a \<Rightarrow> bool) \<Rightarrow> 'a option \<Rightarrow> bool" where
  "yields Q m \<longleftrightarrow> (\<forall>r. m = Some r \<longrightarrow> Q r)"

lemma yieldsD: "yields Q m \<Longrightarrow> m = Some r \<Longrightarrow> Q r"
  by (simp add: yields_def)

lemma yieldsI: "(\<And>r. m = Some r \<Longrightarrow> Q r) \<Longrightarrow> yields Q m"
  by (simp add: yields_def)

lemma yields_None [wp, simp]: "yields Q None"
  by (simp add: yields_def)

lemma yields_Some [wp]: "Q r \<Longrightarrow> yields Q (Some r)"
  by (simp add: yields_def)

lemma yields_bind [wp]: "yields (\<lambda>r. yields Q (f r)) m \<Longrightarrow> yields Q (Option.bind m f)"
  by (cases m) (simp_all add: yields_def)

lemma yields_if [wp]: "(b \<Longrightarrow> yields Q m) \<Longrightarrow> (\<not> b \<Longrightarrow> yields Q n) \<Longrightarrow> yields Q (if b then m else n)"
  by simp

lemma yields_let [wp]: "(\<And>y. y = x \<Longrightarrow> yields Q (f y)) \<Longrightarrow> yields Q (let y = x in f y)"
  by simp

lemma yields_prod [wp]: "(\<And>a b. x = (a, b) \<Longrightarrow> yields Q (f a b)) \<Longrightarrow> yields Q (case x of (a, b) \<Rightarrow> f a b)"
  by (cases x) simp

lemma yields_option [wp]:
  "(x = None \<Longrightarrow> yields Q m) \<Longrightarrow> (\<And>a. x = Some a \<Longrightarrow> yields Q (f a)) \<Longrightarrow>
     yields Q (case x of None \<Rightarrow> m | Some a \<Rightarrow> f a)"
  by (cases x) simp_all

lemma yields_weaken: "yields P m \<Longrightarrow> (\<And>r. P r \<Longrightarrow> Q r) \<Longrightarrow> yields Q m"
  by (simp add: yields_def)

lemma yields_fold_opt:
  assumes "\<And>x s. x \<in> set xs \<Longrightarrow> P s \<Longrightarrow> yields P (f x s)" and "P s"
  shows "yields P (fold_opt f xs s)"
  using assms
proof (induction xs arbitrary: s)
  case Nil
  then show ?case by (simp add: yields_def)
next
  case (Cons x xs)
  have "yields (\<lambda>r. yields P (fold_opt f xs r)) (f x s)"
    by (rule yields_weaken [OF Cons.prems(1)]) (use Cons in auto)
  then show ?case by (simp add: yields_bind)
qed

section \<open>Computations that return\<close>

definition returns :: "'a option \<Rightarrow> bool" where
  "returns m \<longleftrightarrow> m \<noteq> None"

lemma returnsD: "returns m \<Longrightarrow> \<exists>r. m = Some r"
  by (simp add: returns_def)

lemma returns_Some [simp, intro]: "returns (Some r)"
  by (simp add: returns_def)

lemma returns_if: "(b \<Longrightarrow> returns m) \<Longrightarrow> (\<not> b \<Longrightarrow> returns n) \<Longrightarrow> returns (if b then m else n)"
  by simp

lemma returns_let: "P t \<Longrightarrow> (\<And>y. P y \<Longrightarrow> returns (f y)) \<Longrightarrow> returns (let y = t in f y)"
  by simp

lemma returns_let_val: "(\<And>y. returns (f y)) \<Longrightarrow> returns (let y = t in f y)"
  by simp

lemma returns_let_prod:
  "P (snd t) \<Longrightarrow> (\<And>v y. P y \<Longrightarrow> returns (f v y)) \<Longrightarrow> returns (let (v, y) = t in f v y)"
  by (cases t) simp

lemma returns_bind_prod: "returns m \<Longrightarrow> (\<And>v y. returns (f v y)) \<Longrightarrow> returns (Option.bind m (\<lambda>(v, y). f v y))"
  by (cases m) (auto simp: returns_def)

lemma returns_bind: "returns m \<Longrightarrow> (\<And>r. m = Some r \<Longrightarrow> returns (f r)) \<Longrightarrow> returns (Option.bind m f)"
  by (cases m) (simp_all add: returns_def)

lemma returns_fold_opt:
  assumes "\<And>x s. x \<in> set xs \<Longrightarrow> P s \<Longrightarrow> returns (f x s) \<and> yields P (f x s)" and "P s"
  shows "returns (fold_opt f xs s)"
  using assms
proof (induction xs arbitrary: s)
  case (Cons x xs)
  then obtain s1 where "f x s = Some s1" "P s1"
    by (metis list.set_intros(1) returnsD yieldsD)
  with Cons show ?case by simp
qed simp

end
