(* ===== verification/Intrusive_Lists.thy ===== *)
theory Intrusive_Lists
  imports Prelude
begin

text \<open>
  The intrusive lists of \<^verbatim>\<open>dinit-ll.h\<close>: a singly linked list whose nodes are
  embedded in the elements (the propagation and transition queues of a service set) and a circular
  doubly linked one (the console queue). The link fields are heaps indexed by the element; the
  two abstraction relations connect them with plain lists, and the interfaces the service set
  relies on are stated as locales and interpreted on the pointer code.
\<close>

section \<open>Singly linked lists\<close>

record 'a slist =
  sl_first :: "'a option"
  sl_next :: "'a \<Rightarrow> 'a option"

definition slist_new :: "'a slist" where
  "slist_new = \<lparr>sl_first = None, sl_next = (\<lambda>_. None)\<rparr>"

definition slist_is_queued :: "'a \<Rightarrow> 'a slist \<Rightarrow> bool" where
  "slist_is_queued e l \<longleftrightarrow> sl_next l e \<noteq> None \<or> sl_first l = Some e"

definition slist_insert :: "'a \<Rightarrow> 'a slist \<Rightarrow> 'a slist" where
  "slist_insert e l = l\<lparr>sl_next := (sl_next l)(e := sl_first l), sl_first := Some e\<rparr>"

definition slist_is_empty :: "'a slist \<Rightarrow> bool" where
  "slist_is_empty l \<longleftrightarrow> sl_first l = None"

text \<open>Popping an empty list dereferences a null pointer; the model returns \<open>None\<close> there.\<close>

definition slist_pop_front :: "'a slist \<Rightarrow> ('a \<times> 'a slist) option" where
  "slist_pop_front l =
     (case sl_first l of
        None \<Rightarrow> None
      | Some r \<Rightarrow> Some (r, l\<lparr>sl_first := sl_next l r, sl_next := (sl_next l)(r := None)\<rparr>))"


section \<open>What the singly linked list represents\<close>

text \<open>
  Viewed as a list, the queue is a sequence \<open>q\<close>; an element counts as queued when it is linked
  to a successor or is the only one. The last element of a longer queue is therefore not
  recognised, and may be put on the queue a second time: the links then run in a circle until its
  first copy is popped. The abstraction relation allows this one repetition, of the last element.
\<close>

fun links :: "('a \<Rightarrow> 'a option) \<Rightarrow> 'a list \<Rightarrow> bool" where
  "links nx (a # b # q) \<longleftrightarrow> nx a = Some b \<and> links nx (b # q)"
| "links nx q \<longleftrightarrow> True"

definition slist_rel :: "'a slist \<Rightarrow> 'a list \<Rightarrow> bool" where
  "slist_rel l q \<longleftrightarrow>
     sl_first l = (case q of [] \<Rightarrow> None | a # _ \<Rightarrow> Some a) \<and>
     links (sl_next l) q \<and> distinct (butlast q) \<and>
     (\<forall>x. x \<notin> set (butlast q) \<longrightarrow> sl_next l x = None)"

definition wq_queued :: "'a \<Rightarrow> 'a list \<Rightarrow> bool" where
  "wq_queued e q \<longleftrightarrow> e \<in> set (butlast q) \<or> q = [e]"

definition wq_add :: "'a \<Rightarrow> 'a list \<Rightarrow> 'a list" where
  "wq_add e q = (if wq_queued e q then q else e # q)"

lemma links_next: "links nx q \<Longrightarrow> x \<in> set (butlast q) \<Longrightarrow> nx x \<noteq> None"
  by (induction nx q rule: links.induct) (auto split: if_splits)

lemma links_upd: "e \<notin> set (butlast q) \<Longrightarrow> links (nx(e := v)) q = links nx q"
  by (induction nx q rule: links.induct) (auto split: if_splits)

lemma links_tl: "links nx (a # q) \<Longrightarrow> links nx q"
  by (cases q) auto

lemma links_hd: "links nx (a # q) \<Longrightarrow> q \<noteq> [] \<Longrightarrow> nx a = Some (hd q)"
  by (cases q) auto

text \<open>The interface the service set relies on for its two work queues.\<close>

locale work_queue =
  fixes rel :: "'q \<Rightarrow> 'a list \<Rightarrow> bool"
    and emp :: 'q
    and queued :: "'a \<Rightarrow> 'q \<Rightarrow> bool"
    and ins :: "'a \<Rightarrow> 'q \<Rightarrow> 'q"
    and isemp :: "'q \<Rightarrow> bool"
    and pop :: "'q \<Rightarrow> ('a \<times> 'q) option"
  assumes rel_emp: "rel emp []"
    and rel_queued: "rel l q \<Longrightarrow> queued e l \<longleftrightarrow> wq_queued e q"
    and rel_ins: "rel l q \<Longrightarrow> \<not> queued e l \<Longrightarrow> rel (ins e l) (e # q)"
    and rel_isemp: "rel l q \<Longrightarrow> isemp l \<longleftrightarrow> q = []"
    and rel_pop_Nil: "rel l [] \<Longrightarrow> pop l = None"
    and rel_pop_Cons: "rel l (a # q) \<Longrightarrow> \<exists>l'. pop l = Some (a, l') \<and> rel l' q"
begin

lemma rel_add: "rel l q \<Longrightarrow> rel (if queued e l then l else ins e l) (wq_add e q)"
  by (simp add: wq_add_def rel_queued rel_ins)

lemma rel_pop: "rel l q \<Longrightarrow> pop l = Some (a, l') \<Longrightarrow> q = a # tl q \<and> rel l' (tl q)"
  by (cases q) (auto simp: rel_pop_Nil dest: rel_pop_Cons)

lemma pop_total: "rel l q \<Longrightarrow> \<not> isemp l \<Longrightarrow> \<exists>a l'. pop l = Some (a, l')"
  by (cases q) (auto simp: rel_isemp dest: rel_pop_Cons)

end

interpretation sl: work_queue slist_rel slist_new slist_is_queued slist_insert slist_is_empty
  slist_pop_front
proof unfold_locales
  show "slist_rel slist_new []"
    by (simp add: slist_rel_def slist_new_def)
next
  fix l :: "'a slist" and q e
  assume r: "slist_rel l q"
  then show "slist_is_queued e l \<longleftrightarrow> wq_queued e q"
    by (cases q) (auto simp: slist_rel_def slist_is_queued_def wq_queued_def
        dest: links_next split: if_splits)
next
  fix l :: "'a slist" and q e
  assume r: "slist_rel l q" and n: "\<not> slist_is_queued e l"
  from r n have e: "e \<notin> set (butlast q)" "sl_next l e = None"
    by (auto simp: slist_rel_def slist_is_queued_def dest: links_next)
  show "slist_rel (slist_insert e l) (e # q)"
  proof (cases q)
    case Nil
    with r e show ?thesis by (simp add: slist_rel_def slist_insert_def)
  next
    case (Cons a q')
    with r e show ?thesis by (simp add: slist_rel_def slist_insert_def links_upd)
  qed
next
  fix l :: "'a slist" and q
  assume "slist_rel l q"
  then show "slist_is_empty l \<longleftrightarrow> q = []"
    by (cases q) (auto simp: slist_rel_def slist_is_empty_def)
next
  fix l :: "'a slist"
  assume "slist_rel l []"
  then show "slist_pop_front l = None"
    by (simp add: slist_rel_def slist_pop_front_def)
next
  fix l :: "'a slist" and a q
  assume r: "slist_rel l (a # q)"
  show "\<exists>l'. slist_pop_front l = Some (a, l') \<and> slist_rel l' q"
  proof (cases q)
    case Nil
    with r show ?thesis by (simp add: slist_rel_def slist_pop_front_def)
  next
    case (Cons b q')
    with r have "a \<notin> set (butlast q)" by (auto simp: slist_rel_def)
    with r Cons show ?thesis
      by (auto simp: slist_rel_def slist_pop_front_def links_upd dest: links_hd)
  qed
qed

text \<open>
  A queue is emptied by popping as many times as it is long, front first: what
  \<^verbatim>\<open>process_queues\<close> sees of it.
\<close>

fun slist_drain :: "nat \<Rightarrow> 'a slist \<Rightarrow> 'a list" where
  "slist_drain 0 l = []"
| "slist_drain (Suc n) l = (case slist_pop_front l of None \<Rightarrow> [] | Some (a, l') \<Rightarrow> a # slist_drain n l')"

lemma slist_drain_rel: "slist_rel l q \<Longrightarrow> slist_drain (length q) l = q"
proof (induction q arbitrary: l)
  case Nil
  then show ?case by simp
next
  case (Cons a q)
  obtain l' where "slist_pop_front l = Some (a, l')" "slist_rel l' q"
    using sl.rel_pop_Cons [OF Cons.prems] by blast
  with Cons.IH show ?case by simp
qed


section \<open>Circular doubly linked lists\<close>

record 'a dlist =
  dl_first :: "'a option"
  dl_next :: "'a \<Rightarrow> 'a option"
  dl_prev :: "'a \<Rightarrow> 'a option"

definition dlist_new :: "'a dlist" where
  "dlist_new = \<lparr>dl_first = None, dl_next = (\<lambda>_. None), dl_prev = (\<lambda>_. None)\<rparr>"

definition dlist_is_queued :: "'a \<Rightarrow> 'a dlist \<Rightarrow> bool" where
  "dlist_is_queued e l \<longleftrightarrow> dl_next l e \<noteq> None"

text \<open>In the three operations below \<open>None\<close> stands for the dereference of a null pointer.\<close>

definition dlist_append :: "'a \<Rightarrow> 'a dlist \<Rightarrow> 'a dlist option" where
  "dlist_append e l =
     (case dl_first l of
        None \<Rightarrow> Some (l\<lparr>dl_first := Some e, dl_next := (dl_next l)(e := Some e),
                          dl_prev := (dl_prev l)(e := Some e)\<rparr>)
      | Some f \<Rightarrow>
          (let nx = (dl_next l)(e := Some f); pv = (dl_prev l)(e := dl_prev l f)
           in case pv f of
                None \<Rightarrow> None
              | Some p \<Rightarrow> Some (l\<lparr>dl_next := nx(p := Some e), dl_prev := pv(f := Some e)\<rparr>)))"

definition dlist_tail :: "'a dlist \<Rightarrow> 'a option" where
  "dlist_tail l = (case dl_first l of None \<Rightarrow> None | Some f \<Rightarrow> dl_prev l f)"

definition dlist_is_empty :: "'a dlist \<Rightarrow> bool" where
  "dlist_is_empty l \<longleftrightarrow> dl_first l = None"

definition dlist_pop_front :: "'a dlist \<Rightarrow> ('a \<times> 'a dlist) option" where
  "dlist_pop_front l =
     do {
       f \<leftarrow> dl_first l;
       if dl_next l f = Some f then
         Some (f, l\<lparr>dl_next := (dl_next l)(f := None), dl_prev := (dl_prev l)(f := None),
                    dl_first := None\<rparr>)
       else do {
         s \<leftarrow> dl_next l f;
         let pv = (dl_prev l)(s := dl_prev l f);
         p \<leftarrow> pv s;
         let nx = (dl_next l)(p := Some s);
         Some (f, l\<lparr>dl_first := Some s, dl_next := nx(f := None), dl_prev := pv(f := None)\<rparr>)
       }
     }"

definition dlist_unlink :: "'a \<Rightarrow> 'a dlist \<Rightarrow> 'a dlist option" where
  "dlist_unlink r l =
     (let f = (if dl_first l = Some r
               then (if dl_next l r = Some r then None else dl_next l r)
               else dl_first l)
      in do {
        s \<leftarrow> dl_next l r;
        let pv = (dl_prev l)(s := dl_prev l r);
        p \<leftarrow> pv r;
        let nx = (dl_next l)(p := dl_next l r);
        Some (l\<lparr>dl_first := f, dl_next := nx(r := None), dl_prev := pv(r := None)\<rparr>)
      })"

fun dlinks :: "('a \<Rightarrow> 'a option) \<Rightarrow> ('a \<Rightarrow> 'a option) \<Rightarrow> 'a list \<Rightarrow> bool" where
  "dlinks nx pv (a # b # q) \<longleftrightarrow> nx a = Some b \<and> pv b = Some a \<and> dlinks nx pv (b # q)"
| "dlinks nx pv q \<longleftrightarrow> True"

definition dlist_rel :: "'a dlist \<Rightarrow> 'a list \<Rightarrow> bool" where
  "dlist_rel l q \<longleftrightarrow>
     dl_first l = (case q of [] \<Rightarrow> None | a # _ \<Rightarrow> Some a) \<and> distinct q \<and>
     (q \<noteq> [] \<longrightarrow> dlinks (dl_next l) (dl_prev l) (q @ [hd q])) \<and>
     (\<forall>x. x \<notin> set q \<longrightarrow> dl_next l x = None \<and> dl_prev l x = None)"

lemma dlinks_app: "dlinks nx pv (xs @ a # ys) \<longleftrightarrow> dlinks nx pv (xs @ [a]) \<and> dlinks nx pv (a # ys)"
  by (induction nx pv xs rule: dlinks.induct) auto

lemma dlinks_app2 [simp]:
  "dlinks nx pv (xs @ a # b # ys) \<longleftrightarrow>
     dlinks nx pv (xs @ [a]) \<and> nx a = Some b \<and> pv b = Some a \<and> dlinks nx pv (b # ys)"
  by (subst dlinks_app) simp

lemma dlinks_upd_next [simp]: "e \<notin> set (butlast q) \<Longrightarrow> dlinks (nx(e := v)) pv q = dlinks nx pv q"
  by (induction nx pv q rule: dlinks.induct) (auto split: if_splits)

lemma dlinks_upd_prev [simp]: "e \<notin> set (tl q) \<Longrightarrow> dlinks nx (pv(e := v)) q = dlinks nx pv q"
  by (induction nx pv q rule: dlinks.induct) auto

lemma dlinks_next: "dlinks nx pv q \<Longrightarrow> x \<in> set (butlast q) \<Longrightarrow> nx x \<noteq> None"
  by (induction nx pv q rule: dlinks.induct) (auto split: if_splits)

lemma dlist_rel_Cons:
  "dlist_rel l (a # q) \<longleftrightarrow>
     dl_first l = Some a \<and> distinct (a # q) \<and> dlinks (dl_next l) (dl_prev l) (a # q @ [a]) \<and>
     (\<forall>x. x \<notin> set (a # q) \<longrightarrow> dl_next l x = None \<and> dl_prev l x = None)"
  by (simp add: dlist_rel_def)

lemma dlist_rel_queued: "dlist_rel l q \<Longrightarrow> dlist_is_queued e l \<longleftrightarrow> e \<in> set q"
  by (cases q) (auto simp: dlist_rel_def dlist_is_queued_def butlast_append dest: dlinks_next)

lemma dlist_rel_append:
  assumes r: "dlist_rel l q" and e: "e \<notin> set q"
  shows "\<exists>l'. dlist_append e l = Some l' \<and> dlist_rel l' (q @ [e])"
proof (cases q rule: rev_cases)
  case Nil
  with r show ?thesis by (simp add: dlist_rel_def dlist_append_def)
next
  case (snoc qs p)
  define a where "a = hd q"
  from snoc have q: "q = a # tl q" by (simp add: a_def)
  from r have d: "distinct q" and f: "dl_first l = Some a"
    and lk: "dlinks (dl_next l) (dl_prev l) (qs @ [p, a])"
    and out: "\<And>x. x \<notin> set q \<Longrightarrow> dl_next l x = None \<and> dl_prev l x = None"
    using snoc q by (auto simp: dlist_rel_def a_def split: list.splits)
  have ea: "e \<noteq> a" "e \<noteq> p" and at: "a \<notin> set (tl q)"
    using e d q snoc by (metis list.set_intros(1), simp, metis distinct.simps(2))
  from lk have pv: "dl_prev l a = Some p" by simp
  define l' where "l' = l\<lparr>dl_next := (dl_next l)(e := Some a, p := Some e),
                         dl_prev := (dl_prev l)(e := Some p, a := Some e)\<rparr>"
  have app: "dlist_append e l = Some l'"
    using f pv ea by (simp add: dlist_append_def Let_def l'_def fun_upd_twist)
  have h: "a \<notin> set (tl (qs @ [p]))" "e \<notin> set (tl (qs @ [p]))" "e \<notin> set qs" "p \<notin> set qs"
    using at e d snoc set_tl_subset [of q] by auto
  have "dlinks (dl_next l') (dl_prev l') (qs @ [p, e, a])"
    using lk h ea by (simp add: l'_def butlast_append)
  then have lk': "dlinks (dl_next l') (dl_prev l') ((q @ [e]) @ [a])" by (simp add: snoc)
  have qe: "q @ [e] = a # (tl q @ [e])" using q by (metis append_Cons)
  have "p \<in> set q" "a \<in> set q" using snoc q by (simp, metis list.set_intros(1))
  then have "dl_next l' x = None \<and> dl_prev l' x = None" if "x \<notin> set (q @ [e])" for x
    using that out [of x] by (auto simp: l'_def)
  moreover have "dl_first l' = Some a" "distinct (q @ [e])" using f d e by (simp_all add: l'_def)
  ultimately have "dlist_rel l' (q @ [e])"
    using lk' unfolding qe dlist_rel_Cons by simp
  with app show ?thesis by blast
qed


text \<open>Unlinking the front element, with at least one more behind it.\<close>

lemma dlist_rel_unlink_front:
  assumes r: "dlist_rel l (e # q)" and q: "q \<noteq> []"
  shows "\<exists>s p. dl_first l = Some e \<and> s \<noteq> e \<and> dl_next l e = Some s \<and> dl_prev l e = Some p \<and>
     dlist_rel (l\<lparr>dl_first := Some s, dl_next := (dl_next l)(p := Some s, e := None),
                  dl_prev := (dl_prev l)(s := Some p, e := None)\<rparr>) q"
proof -
  obtain s q' where s: "q = s # q'" using q by (cases q) auto
  obtain u p where u: "q = u @ [p]" using q by (cases q rule: rev_cases) auto
  have sq: "set q = insert s (set q')" "set q = insert p (set u)"
    by (simp add: s, simp add: u)
  from r have d: "distinct (e # q)"
    and lk: "dlinks (dl_next l) (dl_prev l) (e # q @ [e])"
    and out: "\<And>x. x \<notin> set (e # q) \<Longrightarrow> dl_next l x = None \<and> dl_prev l x = None"
    and f: "dl_first l = Some e"
    by (auto simp: dlist_rel_Cons)
  from lk s have es: "dl_next l e = Some s" "dl_prev l s = Some e" by simp_all
  from lk have lk2: "dlinks (dl_next l) (dl_prev l) (q @ [e])" by (cases q) auto
  then have pe: "dl_next l p = Some e" "dl_prev l e = Some p"
    and lku: "dlinks (dl_next l) (dl_prev l) (u @ [p])"
    by (simp_all add: u)
  have st: "s \<notin> set (tl (u @ [p]))" using d s u by (metis distinct.simps(2) list.sel(3))
  have ne: "e \<notin> set (tl (u @ [p]))" "e \<notin> set u" "p \<notin> set u" "e \<noteq> p" "e \<noteq> s"
    using d u set_tl_subset [of q] arg_cong [OF s, of set] by auto
  define l' where "l' = l\<lparr>dl_first := Some s, dl_next := (dl_next l)(p := Some s, e := None),
                  dl_prev := (dl_prev l)(s := Some p, e := None)\<rparr>"
  have "dlinks (dl_next l') (dl_prev l') (u @ [p, s])"
    using lku st ne by (simp add: l'_def butlast_append)
  then have "dlinks (dl_next l') (dl_prev l') (s # q' @ [s])" using s u by (metis append.assoc append_Cons append_Nil)
  moreover have "dl_next l' x = None \<and> dl_prev l' x = None" if "x \<notin> set (s # q')" for x
    using that out [of x] sq by (cases "x = e") (auto simp: l'_def)
  moreover have "p \<in> set q" using u by simp
  ultimately have "dlist_rel l' q"
    using d unfolding s dlist_rel_Cons by (simp add: l'_def)
  then show ?thesis using f es pe ne by (auto simp: l'_def)
qed

lemma dlist_rel_unlink_inner:
  assumes r: "dlist_rel l (xs @ e # ys)" and xs: "xs \<noteq> []"
  shows "\<exists>s p. dl_first l = Some (hd xs) \<and> hd xs \<noteq> e \<and> dl_next l e = Some s \<and> dl_prev l e = Some p \<and> s \<noteq> e \<and>
     dlist_rel (l\<lparr>dl_next := (dl_next l)(p := Some s, e := None),
                  dl_prev := (dl_prev l)(s := Some p, e := None)\<rparr>) (xs @ ys)"
proof -
  define a where "a = hd xs"
  obtain xs' where a: "xs = a # xs'" using xs by (cases xs) (auto simp: a_def)
  obtain u p where u: "xs = u @ [p]" using xs by (cases xs rule: rev_cases) auto
  define s where "s = hd (ys @ [a])"
  define v where "v = tl (ys @ [a])"
  have s: "ys @ [a] = s # v" by (simp add: s_def v_def)
  from r a have d: "distinct (xs @ e # ys)" and f: "dl_first l = Some a"
    and lk: "dlinks (dl_next l) (dl_prev l) (xs @ e # ys @ [a])"
    and out: "\<And>x. x \<notin> set (xs @ e # ys) \<Longrightarrow> dl_next l x = None \<and> dl_prev l x = None"
    by (auto simp: dlist_rel_Cons)
  from lk have lk1: "dlinks (dl_next l) (dl_prev l) (u @ [p])" and pe: "dl_next l p = Some e" "dl_prev l e = Some p"
    and es: "dl_next l e = Some s" "dl_prev l s = Some e" and lk2: "dlinks (dl_next l) (dl_prev l) (s # v)"
    by (simp_all add: u s)
  have sx: "set xs = insert a (set xs')" "set xs = insert p (set u)" by (simp add: a, simp add: u)
  have sy: "insert s (set v) = insert a (set ys)" using arg_cong [OF s, of set] by simp
  have bl: "butlast (s # v) = ys" by (metis s butlast_snoc)
  have pu: "p \<notin> set u" using d by (simp add: u)
  have ne: "e \<notin> set u" "e \<noteq> p" "p \<notin> set ys" "e \<notin> set v" "e \<noteq> s" "a \<noteq> e"
    using d sx sy by auto
  have tls: "s \<notin> set v" "s \<notin> set (tl (u @ [p]))"
  proof -
    have "distinct (ys @ [a])" using d a by simp
    then show "s \<notin> set v" using s by simp
    have "s \<in> insert a (set ys)" "tl (u @ [p]) = xs'" using sy u a by (blast, metis list.sel(3))
    then show "s \<notin> set (tl (u @ [p]))" using d a by auto
  qed
  define l' where "l' = l\<lparr>dl_next := (dl_next l)(p := Some s, e := None),
                  dl_prev := (dl_prev l)(s := Some p, e := None)\<rparr>"
  have "e \<notin> set (tl (u @ [p]))" using set_tl_subset [of "u @ [p]"] ne by auto
  then have "dlinks (dl_next l') (dl_prev l') (u @ p # s # v)"
    using lk1 lk2 ne pu tls bl d by (simp add: l'_def butlast_append u)
  then have "dlinks (dl_next l') (dl_prev l') (a # (xs' @ ys) @ [a])"
    by (metis a append.assoc append_Cons append_Nil s u)
  moreover have "dl_next l' x = None \<and> dl_prev l' x = None" if "x \<notin> set (xs @ ys)" for x
    using that out [of x] sx sy by (cases "x = e") (auto simp: l'_def)
  ultimately have "dlist_rel l' (xs @ ys)"
    using d f by (simp add: a dlist_rel_Cons l'_def)
  then show ?thesis using f es pe ne by (auto simp: l'_def a)
qed


lemma dlist_rel_pop_front:
  assumes r: "dlist_rel l (e # q)"
  shows "\<exists>l'. dlist_pop_front l = Some (e, l') \<and> dlist_rel l' q"
proof (cases "q = []")
  case True
  with r show ?thesis by (auto simp: dlist_rel_def dlist_pop_front_def)
next
  case False
  from dlist_rel_unlink_front [OF r False] obtain s p where
    "dl_first l = Some e" "s \<noteq> e" "dl_next l e = Some s" "dl_prev l e = Some p"
    and "dlist_rel (l\<lparr>dl_first := Some s, dl_next := (dl_next l)(p := Some s, e := None),
                  dl_prev := (dl_prev l)(s := Some p, e := None)\<rparr>) q" by blast
  then show ?thesis by (simp add: dlist_pop_front_def)
qed

lemma dlist_rel_unlink:
  assumes r: "dlist_rel l (xs @ e # ys)"
  shows "\<exists>l'. dlist_unlink e l = Some l' \<and> dlist_rel l' (xs @ ys)"
proof (cases "xs = []")
  case True
  show ?thesis
  proof (cases "ys = []")
    case True
    with r \<open>xs = []\<close> show ?thesis by (auto simp: dlist_rel_def dlist_unlink_def Let_def)
  next
    case False
    from r \<open>xs = []\<close> have "dlist_rel l (e # ys)" by simp
    from dlist_rel_unlink_front [OF this False] obtain s p where
      "dl_first l = Some e" "s \<noteq> e" "dl_next l e = Some s" "dl_prev l e = Some p"
      and "dlist_rel (l\<lparr>dl_first := Some s, dl_next := (dl_next l)(p := Some s, e := None),
                    dl_prev := (dl_prev l)(s := Some p, e := None)\<rparr>) ys" by blast
    with \<open>xs = []\<close> show ?thesis by (simp add: dlist_unlink_def Let_def)
  qed
next
  case False
  from dlist_rel_unlink_inner [OF r False] obtain s p where
    "dl_first l = Some (hd xs)" "hd xs \<noteq> e" "dl_next l e = Some s" "dl_prev l e = Some p" "s \<noteq> e"
    and rel: "dlist_rel (l\<lparr>dl_next := (dl_next l)(p := Some s, e := None),
                  dl_prev := (dl_prev l)(s := Some p, e := None)\<rparr>) (xs @ ys)" by blast
  moreover from calculation have "dlist_unlink e l =
      Some (l\<lparr>dl_next := (dl_next l)(p := Some s, e := None), dl_prev := (dl_prev l)(s := Some p, e := None)\<rparr>)"
    by (cases l) (simp add: dlist_unlink_def Let_def)
  ultimately show ?thesis by blast
qed

text \<open>
  The interface of the console queue: a first-come first-served list without repetition, from
  which any element may be withdrawn.
\<close>

locale wait_queue =
  fixes rel :: "'q \<Rightarrow> 'a list \<Rightarrow> bool"
    and emp :: 'q
    and queued :: "'a \<Rightarrow> 'q \<Rightarrow> bool"
    and app :: "'a \<Rightarrow> 'q \<Rightarrow> 'q option"
    and isemp :: "'q \<Rightarrow> bool"
    and pop :: "'q \<Rightarrow> ('a \<times> 'q) option"
    and unl :: "'a \<Rightarrow> 'q \<Rightarrow> 'q option"
  assumes rel_emp: "rel emp []"
    and rel_distinct: "rel l q \<Longrightarrow> distinct q"
    and rel_queued: "rel l q \<Longrightarrow> queued e l \<longleftrightarrow> e \<in> set q"
    and rel_app: "rel l q \<Longrightarrow> \<not> queued e l \<Longrightarrow> \<exists>l'. app e l = Some l' \<and> rel l' (q @ [e])"
    and rel_isemp: "rel l q \<Longrightarrow> isemp l \<longleftrightarrow> q = []"
    and rel_pop_Cons: "rel l (a # q) \<Longrightarrow> \<exists>l'. pop l = Some (a, l') \<and> rel l' q"
    and rel_unl: "rel l (xs @ e # ys) \<Longrightarrow> \<exists>l'. unl e l = Some l' \<and> rel l' (xs @ ys)"
begin

lemma rel_unlink_queued: "rel l q \<Longrightarrow> queued e l \<Longrightarrow> \<exists>l'. unl e l = Some l' \<and> rel l' (removeAll e q)"
proof -
  assume r: "rel l q" and e: "queued e l"
  then obtain xs ys where q: "q = xs @ e # ys" by (metis rel_queued split_list)
  then have "removeAll e q = xs @ ys" using rel_distinct [OF r] by simp
  with rel_unl r q show ?thesis by metis
qed

lemma first_come_first_served: "rel l [] \<Longrightarrow> a \<noteq> b \<Longrightarrow> \<exists>l1 l2 l3. app a l = Some l1 \<and> app b l1 = Some l2 \<and> pop l2 = Some (a, l3) \<and> rel l3 [b]"
proof -
  assume "rel l []" and ab: "a \<noteq> b"
  then obtain l1 where l1: "app a l = Some l1" "rel l1 [a]"
    using rel_app [of l "[]" a] rel_queued [of l "[]" a] by auto
  then obtain l2 where "app b l1 = Some l2" "rel l2 [a, b]"
    using rel_app [of l1 "[a]" b] rel_queued [of l1 "[a]" b] ab by auto
  with l1 show ?thesis using rel_pop_Cons by blast
qed

end

interpretation dl: wait_queue dlist_rel dlist_new dlist_is_queued dlist_append dlist_is_empty
  dlist_pop_front dlist_unlink
proof unfold_locales
  show "dlist_rel dlist_new []" by (simp add: dlist_rel_def dlist_new_def)
next
  fix l :: "'a dlist" and q
  assume r: "dlist_rel l q"
  then show "distinct q" by (simp add: dlist_rel_def)
  from r show "dlist_is_empty l \<longleftrightarrow> q = []"
    by (cases q) (auto simp: dlist_rel_def dlist_is_empty_def)
  fix e
  from r show q: "dlist_is_queued e l \<longleftrightarrow> e \<in> set q" by (rule dlist_rel_queued)
  assume "\<not> dlist_is_queued e l"
  with r q show "\<exists>l'. dlist_append e l = Some l' \<and> dlist_rel l' (q @ [e])"
    by (metis dlist_rel_append)
next
  fix l :: "'a dlist" and a q
  assume "dlist_rel l (a # q)"
  then show "\<exists>l'. dlist_pop_front l = Some (a, l') \<and> dlist_rel l' q" by (rule dlist_rel_pop_front)
next
  fix l :: "'a dlist" and xs e ys
  assume "dlist_rel l (xs @ e # ys)"
  then show "\<exists>l'. dlist_unlink e l = Some l' \<and> dlist_rel l' (xs @ ys)" by (rule dlist_rel_unlink)
qed

section \<open>Whole histories\<close>

text \<open>
  A history of uses of a work queue: \<^verbatim>\<open>add_prop_queue\<close> and \<^verbatim>\<open>add_transition_queue\<close> insert an
  element unless it is recognised as queued, \<^verbatim>\<open>process_queues\<close> pops while there is something. The
  result is the sequence of elements popped.
\<close>

datatype 'a queue_use = Add 'a | Take

fun slist_run :: "'a queue_use list \<Rightarrow> 'a slist \<Rightarrow> 'a list" where
  "slist_run [] l = []"
| "slist_run (Add e # us) l = slist_run us (if slist_is_queued e l then l else slist_insert e l)"
| "slist_run (Take # us) l =
     (if slist_is_empty l then slist_run us l
      else case slist_pop_front l of None \<Rightarrow> [] | Some (a, l') \<Rightarrow> a # slist_run us l')"

fun wq_run :: "'a queue_use list \<Rightarrow> 'a list \<Rightarrow> 'a list" where
  "wq_run [] q = []"
| "wq_run (Add e # us) q = wq_run us (wq_add e q)"
| "wq_run (Take # us) [] = wq_run us []"
| "wq_run (Take # us) (a # q) = a # wq_run us q"

lemma slist_run_rel: "slist_rel l q \<Longrightarrow> slist_run us l = wq_run us q"
proof (induction us q arbitrary: l rule: wq_run.induct)
  case (2 e us q)
  then show ?case using sl.rel_add [OF 2(2), of e] by simp
next
  case (3 us)
  then show ?case by (simp add: sl.rel_isemp)
next
  case (4 us a q)
  then show ?case using sl.rel_pop_Cons [OF 4(2)] sl.rel_isemp [OF 4(2)] by auto
qed simp

text \<open>
  C16. The singly linked list implements the queue of the specification: whatever the history of
  insertions and removals, the elements come out of the pointer structure exactly as they come out
  of the plain list, and no null pointer is followed.
\<close>

theorem slist_refines_queue: "slist_run us slist_new = wq_run us []"
  by (rule slist_run_rel) (rule sl.rel_emp)

text \<open>
  The last element of a queue of two or more is not recognised as queued: adding it again
  queues it a second time, in front, and it is processed twice.
\<close>

theorem slist_last_queued_twice:
  assumes "a \<noteq> b"
  shows "\<not> slist_is_queued b (slist_insert a (slist_insert b slist_new)) \<and>
    slist_run [Add b, Add a, Add b, Take, Take, Take] slist_new = [b, a, b]"
  using assms by (simp add: slist_run_rel [OF sl.rel_emp] wq_add_def wq_queued_def)
    (simp add: slist_is_queued_def slist_insert_def slist_new_def)

theorem slist_last_queued_twice_witness:
  "slist_run [Add (2 :: nat), Add 1, Add 2, Take, Take, Take] slist_new = [2, 1, 2]"
  using slist_last_queued_twice [of "1 :: nat" 2] by simp

text \<open>The console queue: a service waits once, may give up, and is served from the front.\<close>

datatype 'a wait_use = Wait 'a | Give_up 'a | Serve

fun dlist_run :: "'a wait_use list \<Rightarrow> 'a dlist \<Rightarrow> 'a list option" where
  "dlist_run [] l = Some []"
| "dlist_run (Wait e # us) l =
     (if dlist_is_queued e l then dlist_run us l else Option.bind (dlist_append e l) (dlist_run us))"
| "dlist_run (Give_up e # us) l =
     (if dlist_is_queued e l then Option.bind (dlist_unlink e l) (dlist_run us) else dlist_run us l)"
| "dlist_run (Serve # us) l =
     (if dlist_is_empty l then dlist_run us l
      else Option.bind (dlist_pop_front l) (\<lambda>(a, l'). map_option (Cons a) (dlist_run us l')))"

fun fifo_run :: "'a wait_use list \<Rightarrow> 'a list \<Rightarrow> 'a list" where
  "fifo_run [] q = []"
| "fifo_run (Wait e # us) q = fifo_run us (if e \<in> set q then q else q @ [e])"
| "fifo_run (Give_up e # us) q = fifo_run us (removeAll e q)"
| "fifo_run (Serve # us) [] = fifo_run us []"
| "fifo_run (Serve # us) (a # q) = a # fifo_run us q"

lemma dlist_run_rel: "dlist_rel l q \<Longrightarrow> dlist_run us l = Some (fifo_run us q)"
proof (induction us q arbitrary: l rule: fifo_run.induct)
  case (2 e us q)
  then show ?case
    using dl.rel_app [OF 2(2), of e] dl.rel_queued [OF 2(2), of e] by (cases "e \<in> set q") auto
next
  case (3 e us q)
  then show ?case
    using dl.rel_unlink_queued [OF 3(2), of e] dl.rel_queued [OF 3(2), of e] by (cases "e \<in> set q") auto
next
  case (4 us)
  then show ?case by (simp add: dl.rel_isemp)
next
  case (5 us a q)
  then show ?case using dl.rel_pop_Cons [OF 5(2)] dl.rel_isemp [OF 5(2)] by auto
qed simp

text \<open>
  C17. The circular doubly linked list implements a first-come first-served queue with withdrawal:
  over any history, no null pointer is followed and the elements are served in the order of the
  plain list.
\<close>

theorem dlist_refines_fifo: "dlist_run us dlist_new = Some (fifo_run us [])"
  by (rule dlist_run_rel) (rule dl.rel_emp)

end
