(* ===== verification/Time_Val.thy ===== *)
theory Time_Val
  imports Prelude
begin

text \<open>
  The time values of \<^verbatim>\<open>dasynq/timerbase.h\<close>: a number of seconds and of nanoseconds, with
  carry and borrow done by hand. The abstraction is the duration in nanoseconds.
\<close>

record time_val =
  seconds :: int
  nseconds :: int

definition tv :: "int \<Rightarrow> int \<Rightarrow> time_val" where
  "tv s ns = \<lparr>seconds = s, nseconds = ns\<rparr>"

definition tv_minus :: "time_val \<Rightarrow> time_val \<Rightarrow> time_val" where
  "tv_minus t1 t2 =
     (if nseconds t1 \<ge> nseconds t2
      then tv (seconds t1 - seconds t2) (nseconds t1 - nseconds t2)
      else tv (seconds t1 - seconds t2 - 1) (1000000000 - nseconds t2 + nseconds t1))"

definition tv_plus :: "time_val \<Rightarrow> time_val \<Rightarrow> time_val" where
  "tv_plus t1 t2 =
     (let ns = nseconds t1 + nseconds t2; s = seconds t1 + seconds t2
      in if ns \<ge> 1000000000 then tv (s + 1) (ns - 1000000000) else tv s ns)"

definition tv_less :: "time_val \<Rightarrow> time_val \<Rightarrow> bool" where
  "tv_less t1 t2 =
     (if seconds t1 < seconds t2 then True
      else if seconds t1 = seconds t2 \<and> nseconds t1 < nseconds t2 then True else False)"

definition tv_le :: "time_val \<Rightarrow> time_val \<Rightarrow> bool" where
  "tv_le t1 t2 =
     (if seconds t1 < seconds t2 then True
      else if seconds t1 = seconds t2 \<and> nseconds t1 \<le> nseconds t2 then True else False)"

definition tv_eq :: "time_val \<Rightarrow> time_val \<Rightarrow> bool" where
  "tv_eq t1 t2 \<longleftrightarrow> seconds t1 = seconds t2 \<and> nseconds t1 = nseconds t2"

definition normal_tv :: "time_val \<Rightarrow> bool" where
  "normal_tv t \<longleftrightarrow> 0 \<le> nseconds t \<and> nseconds t < 1000000000"

definition nanos :: "time_val \<Rightarrow> int" where
  "nanos t = 1000000000 * seconds t + nseconds t"

lemma tv_sel [simp]: "seconds (tv s ns) = s" "nseconds (tv s ns) = ns"
  by (simp_all add: tv_def)

lemma tv_minus_normal: "normal_tv a \<Longrightarrow> normal_tv b \<Longrightarrow> normal_tv (tv_minus a b)"
  by (auto simp: normal_tv_def tv_minus_def)

lemma nanos_minus: "nanos (tv_minus a b) = nanos a - nanos b"
  by (simp add: nanos_def tv_minus_def)

lemma tv_plus_normal: "normal_tv a \<Longrightarrow> normal_tv b \<Longrightarrow> normal_tv (tv_plus a b)"
  by (auto simp: normal_tv_def tv_plus_def Let_def)

lemma nanos_plus: "nanos (tv_plus a b) = nanos a + nanos b"
  by (simp add: nanos_def tv_plus_def Let_def)

lemma tv_less_nanos: "normal_tv a \<Longrightarrow> normal_tv b \<Longrightarrow> tv_less a b \<longleftrightarrow> nanos a < nanos b"
  by (auto simp: normal_tv_def tv_less_def nanos_def)

lemma tv_le_nanos: "normal_tv a \<Longrightarrow> normal_tv b \<Longrightarrow> tv_le a b \<longleftrightarrow> nanos a \<le> nanos b"
  by (auto simp: normal_tv_def tv_le_def nanos_def)

lemma tv_eq_nanos: "normal_tv a \<Longrightarrow> normal_tv b \<Longrightarrow> tv_eq a b \<longleftrightarrow> nanos a = nanos b"
  using tv_le_nanos [of a b] tv_le_nanos [of b a]
  by (auto simp: tv_le_def tv_eq_def nanos_def split: if_splits)

lemma tv_eq_eq [simp]: "tv_eq a b \<longleftrightarrow> a = (b :: time_val)"
  by (auto simp: tv_eq_def)

end
