(* ===== verification/Service_Types.thy ===== *)
theory Service_Types
  imports Intrusive_Lists Time_Val
begin

text \<open>
  The data of the service manager: the enumerations of \<^verbatim>\<open>service-constants.h\<close>, the dependency
  record and the service record of \<^verbatim>\<open>service.h\<close>, the fields that process-based services add in
  \<^verbatim>\<open>proc-service.h\<close>, and the state of a service set. Services and dependency records are reached
  through pointers in the program; here they live in two heaps indexed by \<^emph>\<open>service ids\<close> and
  \<^emph>\<open>dependency ids\<close>. What the operating system answers is a parameter, \<open>os_env\<close>.
\<close>

type_synonym sid = nat
type_synonym did = nat

section \<open>Enumerations\<close>

datatype service_state_t = STOPPED | STARTING | STARTED | STOPPING

datatype service_type_t = PLACEHOLDER | PROCESS | BGPROCESS | SCRIPTED | INTERNAL | TRIGGERED

datatype service_event_t = EV_STARTED | EV_STOPPED | EV_FAILEDSTART | EV_STARTCANCELLED | EV_STOPCANCELLED

datatype shutdown_type_t = SD_NONE | SD_REMAIN | SD_HALT | SD_POWEROFF | SD_REBOOT | SD_SOFTREBOOT | SD_KEXEC

datatype stopped_reason_t = NORMAL | DEPRESTART | DEPFAILED | FAILED | EXECFAILED | TIMEDOUT | TERMINATED

datatype dependency_type = REGULAR | SOFT | WAITS_FOR | MILESTONE | BEFORE | AFTER

datatype log_type_id = LOG_NONE | LOGFILE | LOG_BUFFER | LOG_PIPE

datatype auto_restart_mode = NEVER | ALWAYS | ON_FAILURE

definition did_finish :: "stopped_reason_t \<Rightarrow> bool" where
  "did_finish reason \<longleftrightarrow> reason = TERMINATED"

section \<open>Dependency records\<close>

record service_dep =
  dep_from :: sid
  dep_to :: sid
  waiting_on :: bool
  holding_acq :: bool
  dep_type :: dependency_type

definition is_hard :: "service_dep \<Rightarrow> bool" where
  "is_hard d \<longleftrightarrow> dep_type d = REGULAR \<or> (dep_type d = MILESTONE \<and> waiting_on d)"

definition is_only_ordering :: "service_dep \<Rightarrow> bool" where
  "is_only_ordering d \<longleftrightarrow> dep_type d = BEFORE \<or> dep_type d = AFTER"

definition new_dep :: "sid \<Rightarrow> sid \<Rightarrow> dependency_type \<Rightarrow> service_dep" where
  "new_dep from to ty =
     \<lparr>dep_from = from, dep_to = to, waiting_on = False, holding_acq = False, dep_type = ty\<rparr>"

section \<open>Service records\<close>

record service_flags_t =
  rw_ready :: bool
  log_ready :: bool
  runs_on_console :: bool
  starts_on_console :: bool
  shares_console :: bool
  unmask_intr :: bool
  pass_cs_fd :: bool
  start_interruptible :: bool
  skippable :: bool
  signal_process_only :: bool
  always_chain :: bool
  kill_all_on_stop :: bool
  no_new_privs :: bool

definition no_flags :: service_flags_t where
  "no_flags = \<lparr>rw_ready = False, log_ready = False, runs_on_console = False,
     starts_on_console = False, shares_console = False, unmask_intr = False, pass_cs_fd = False,
     start_interruptible = False, skippable = False, signal_process_only = False,
     always_chain = False, kill_all_on_stop = False, no_new_privs = False\<rparr>"

record service_record =
  service_name :: string
  record_type :: service_type_t
  service_state :: service_state_t
  desired_state :: service_state_t
  onstart_flags :: service_flags_t
  auto_restart :: auto_restart_mode
  smooth_recovery :: bool
  pinned_stopped :: bool
  pinned_started :: bool
  dept_pinned_started :: bool
  waiting_for_deps :: bool
  waiting_for_console :: bool
  have_console :: bool
  waiting_for_execstat :: bool
  start_explicit :: bool
  prop_require :: bool
  prop_release :: bool
  prop_failure :: bool
  prop_start :: bool
  prop_stop :: bool
  prop_pin_dpt :: bool
  start_failed :: bool
  start_skipped :: bool
  in_auto_restart :: bool
  in_user_restart :: bool
  is_loading :: bool
  required_by :: int
  depends_on :: "did list"
  dependents :: "did list"
  log_consumer :: "sid option"
  force_stop :: bool
  term_signal :: int
  socket_path :: string
  stop_reason :: stopped_reason_t
  start_on_completion :: string
  is_triggered :: bool

definition SIGHUP :: int where "SIGHUP = 1"
definition SIGINT :: int where "SIGINT = 2"
definition SIGKILL :: int where "SIGKILL = 9"
definition SIGUSR1 :: int where "SIGUSR1 = 10"
definition SIGUSR2 :: int where "SIGUSR2 = 12"
definition SIGTERM :: int where "SIGTERM = 15"

definition new_service_record :: "string \<Rightarrow> service_record" where
  "new_service_record name =
     \<lparr>service_name = name, record_type = PLACEHOLDER, service_state = STOPPED,
      desired_state = STOPPED, onstart_flags = no_flags, auto_restart = NEVER,
      smooth_recovery = False, pinned_stopped = False, pinned_started = False,
      dept_pinned_started = False, waiting_for_deps = False, waiting_for_console = False,
      have_console = False, waiting_for_execstat = False, start_explicit = False,
      prop_require = False, prop_release = False, prop_failure = False, prop_start = False,
      prop_stop = False, prop_pin_dpt = False, start_failed = False, start_skipped = False,
      in_auto_restart = False, in_user_restart = False, is_loading = False, required_by = 0,
      depends_on = [], dependents = [], log_consumer = None, force_stop = False,
      term_signal = SIGTERM, socket_path = [], stop_reason = NORMAL, start_on_completion = [],
      is_triggered = False\<rparr>"

definition is_start_pinned :: "service_record \<Rightarrow> bool" where
  "is_start_pinned s \<longleftrightarrow> pinned_started s \<or> dept_pinned_started s"

definition can_interrupt_stop :: "service_record \<Rightarrow> bool" where
  "can_interrupt_stop s \<longleftrightarrow> waiting_for_deps s \<and> \<not> force_stop s"

definition is_fundamentally_stopped :: "service_record \<Rightarrow> bool" where
  "is_fundamentally_stopped s \<longleftrightarrow>
     service_state s = STOPPED \<or> (service_state s = STARTING \<and> waiting_for_deps s)"

definition is_unrefd :: "service_record \<Rightarrow> bool" where
  "is_unrefd s \<longleftrightarrow> depends_on s = [] \<and> dependents s = [] \<and> log_consumer s = None"

section \<open>Process-based services\<close>

record proc_status =
  wait_si_code :: int
  wait_si_status :: int

definition CLD_EXITED :: int where "CLD_EXITED = 1"

definition did_exit :: "proc_status \<Rightarrow> bool" where
  "did_exit p \<longleftrightarrow> wait_si_code p = CLD_EXITED"

definition did_exit_clean :: "proc_status \<Rightarrow> bool" where
  "did_exit_clean p \<longleftrightarrow> wait_si_status p = 0"

definition was_signalled :: "proc_status \<Rightarrow> bool" where
  "was_signalled p \<longleftrightarrow> \<not> did_exit p"

record proc_fields =
  stop_command :: string
  log_type :: log_type_id
  log_buf_max :: nat
  log_buf_size :: nat
  log_buffer :: string
  log_buffer_cap :: nat
  last_start_time :: time_val
  restart_interval_time :: time_val
  restart_interval_count :: int
  restart_interval :: time_val
  max_restart_interval_count :: int
  restart_delay :: time_val
  stop_timeout :: time_val
  start_timeout :: time_val
  force_notification_fd :: int
  notification_var :: string
  pid :: int
  exit_status :: proc_status
  socket_fd :: int
  notification_fd :: int
  log_output_fd :: int
  log_input_fd :: int
  waiting_restart_timer :: bool
  waiting_stopstart_timer :: bool
  process_timer :: "time_val option"
  reserved_child_watch :: bool
  tracking_child :: bool
  reserved_stop_watch :: bool
  stop_issued :: bool
  stop_pid :: int
  stop_status :: proc_status
  doing_smooth_recovery :: bool
  consumer_for :: "sid option"
  pid_file :: string
  interrupting_start :: bool

definition new_proc_fields :: proc_fields where
  "new_proc_fields =
     \<lparr>stop_command = [], log_type = LOG_NONE, log_buf_max = 0, log_buf_size = 0, log_buffer = [],
      log_buffer_cap = 0, last_start_time = tv 0 0, restart_interval_time = tv 0 0,
      restart_interval_count = 0, restart_interval = tv 10 0, max_restart_interval_count = 3,
      restart_delay = tv 0 0, stop_timeout = tv 10 0, start_timeout = tv 60 0,
      force_notification_fd = -1, notification_var = [], pid = -1,
      exit_status = \<lparr>wait_si_code = 0, wait_si_status = 0\<rparr>, socket_fd = -1, notification_fd = -1,
      log_output_fd = -1, log_input_fd = -1, waiting_restart_timer = False,
      waiting_stopstart_timer = False, process_timer = None, reserved_child_watch = False,
      tracking_child = False, reserved_stop_watch = False, stop_issued = False, stop_pid = -1,
      stop_status = \<lparr>wait_si_code = 0, wait_si_status = 0\<rparr>, doing_smooth_recovery = False,
      consumer_for = None, pid_file = [], interrupting_start = False\<rparr>"

section \<open>The operating system, as the program sees it\<close>

text \<open>
  Every question to the operating system (and to the event loop, whose registration calls can
  throw) is answered by the environment; the argument is the number of questions asked so far, so
  that the answers may vary freely from call to call. \<open>None\<close> and \<open>False\<close> are failures.
\<close>

datatype stat_reply = Stat_ok bool | Stat_ENOENT | Stat_error

datatype waitid_reply = Waitid_ECHILD | Waitid_running | Waitid_exited proc_status | Waitid_error

record os_env =
  os_time :: "nat \<Rightarrow> time_val"
  os_pipe2 :: "nat \<Rightarrow> (int \<times> int) option"
  os_socketpair :: "nat \<Rightarrow> (int \<times> int) option"
  os_fork :: "nat \<Rightarrow> int option"
  os_add_watch :: "nat \<Rightarrow> bool"
  os_alloc :: "nat \<Rightarrow> bool"
  os_getpgid :: "nat \<Rightarrow> int"
  os_stat :: "nat \<Rightarrow> stat_reply"
  os_socket :: "nat \<Rightarrow> int option"
  os_bind :: "nat \<Rightarrow> bool"
  os_chown :: "nat \<Rightarrow> bool"
  os_chmod :: "nat \<Rightarrow> bool"
  os_listen :: "nat \<Rightarrow> bool"
  os_read_file :: "nat \<Rightarrow> string option"
  os_waitid :: "nat \<Rightarrow> waitid_reply"
  os_process_exists :: "nat \<Rightarrow> bool"

text \<open>What the program does to the outside, in the order in which it does it (newest first).\<close>

datatype effect =
    Notify sid service_event_t
  | Log_started string | Log_stopped string | Log_failed string bool
  | Console_log_enable bool | Console_log_discard | Take_terminal
  | Rootfs_is_rw | Setup_external_log
  | Kill int int | Kill_all int
  | Forked sid int bool | Forked_stop sid int
  | Opened int | Closed int | Unlinked string

section \<open>Service sets\<close>

record sset =
  svcs :: "sid \<Rightarrow> service_record"
  procs :: "sid \<Rightarrow> proc_fields"
  deps :: "did \<Rightarrow> service_dep"
  records :: "sid list"
  active_services :: int
  restart_enabled :: bool
  shutdown_type :: shutdown_type_t
  console_queue :: "sid list"
  prop_queue :: "sid list"
  stop_queue :: "sid list"
  os_calls :: nat
  effects :: "effect list"

definition new_service_set :: sset where
  "new_service_set =
     \<lparr>svcs = (\<lambda>_. new_service_record []), procs = (\<lambda>_. new_proc_fields),
      deps = (\<lambda>_. new_dep 0 0 REGULAR), records = [], active_services = 0,
      restart_enabled = True, shutdown_type = SD_NONE, console_queue = [], prop_queue = [],
      stop_queue = [], os_calls = 0, effects = []\<rparr>"

section \<open>Primitive state changes\<close>

definition upd_svc :: "sid \<Rightarrow> (service_record \<Rightarrow> service_record) \<Rightarrow> sset \<Rightarrow> sset" where
  "upd_svc x f st = st\<lparr>svcs := (svcs st)(x := f (svcs st x))\<rparr>"

definition upd_proc :: "sid \<Rightarrow> (proc_fields \<Rightarrow> proc_fields) \<Rightarrow> sset \<Rightarrow> sset" where
  "upd_proc x f st = st\<lparr>procs := (procs st)(x := f (procs st x))\<rparr>"

definition upd_dep :: "did \<Rightarrow> (service_dep \<Rightarrow> service_dep) \<Rightarrow> sset \<Rightarrow> sset" where
  "upd_dep d f st = st\<lparr>deps := (deps st)(d := f (deps st d))\<rparr>"

definition emit :: "effect \<Rightarrow> sset \<Rightarrow> sset" where
  "emit e st = st\<lparr>effects := e # effects st\<rparr>"

definition ask :: "(nat \<Rightarrow> 'a) \<Rightarrow> sset \<Rightarrow> 'a \<times> sset" where
  "ask q st = (q (os_calls st), st\<lparr>os_calls := Suc (os_calls st)\<rparr>)"

definition notify_listeners :: "sid \<Rightarrow> service_event_t \<Rightarrow> sset \<Rightarrow> sset" where
  "notify_listeners x ev = emit (Notify x ev)"

lemma svcs_upd [simp]:
  "svcs (upd_svc x f st) = (svcs st)(x := f (svcs st x))"
  "svcs (upd_proc x g st) = svcs st" "svcs (upd_dep d h st) = svcs st" "svcs (emit e st) = svcs st"
  "svcs (notify_listeners x ev st) = svcs st" "svcs (snd (ask q st)) = svcs st"
  by (simp_all add: upd_svc_def upd_proc_def upd_dep_def emit_def notify_listeners_def ask_def)

lemma deps_upd [simp]:
  "deps (upd_svc x f st) = deps st" "deps (upd_proc x g st) = deps st"
  "deps (upd_dep d h st) = (deps st)(d := h (deps st d))" "deps (emit e st) = deps st"
  "deps (notify_listeners x ev st) = deps st" "deps (snd (ask q st)) = deps st"
  by (simp_all add: upd_svc_def upd_proc_def upd_dep_def emit_def notify_listeners_def ask_def)

lemma procs_upd [simp]:
  "procs (upd_svc x f st) = procs st" "procs (upd_proc x g st) = (procs st)(x := g (procs st x))"
  "procs (upd_dep d h st) = procs st" "procs (emit e st) = procs st"
  "procs (notify_listeners x ev st) = procs st" "procs (snd (ask q st)) = procs st"
  by (simp_all add: upd_svc_def upd_proc_def upd_dep_def emit_def notify_listeners_def ask_def)

end
