(* ===== verification/Service_Core.thy ===== *)
theory Service_Core
  imports Service_Types
begin

text \<open>
  The part of \<^verbatim>\<open>service.cc\<close> that decides: acquisition and release, the propagation flags, starting
  and stopping up to the point where a process would have to be launched or ended. Virtual methods
  that \<^verbatim>\<open>do_stop\<close> calls on process-based services (\<^verbatim>\<open>can_interrupt_start\<close>, \<^verbatim>\<open>interrupt_start\<close>,
  \<^verbatim>\<open>check_restart\<close>, \<^verbatim>\<open>get_exit_status\<close>) are dispatched on the record type.
\<close>

section \<open>Queues\<close>

definition add_prop_queue :: "sid \<Rightarrow> sset \<Rightarrow> sset" where
  "add_prop_queue x st = st\<lparr>prop_queue := wq_add x (prop_queue st)\<rparr>"

definition add_transition_queue :: "sid \<Rightarrow> sset \<Rightarrow> sset" where
  "add_transition_queue x st = st\<lparr>stop_queue := wq_add x (stop_queue st)\<rparr>"

definition append_console_queue :: "sid \<Rightarrow> sset \<Rightarrow> sset" where
  "append_console_queue x st =
     (let was_empty = (console_queue st = []);
          st = st\<lparr>console_queue := console_queue st @ [x]\<rparr>
      in if was_empty then emit (Console_log_enable False) st else st)"

definition unqueue_console :: "sid \<Rightarrow> sset \<Rightarrow> sset" where
  "unqueue_console x st =
     (if x \<in> set (console_queue st) then st\<lparr>console_queue := removeAll x (console_queue st)\<rparr> else st)"

definition queue_for_console :: "sid \<Rightarrow> sset \<Rightarrow> sset" where
  "queue_for_console x st = append_console_queue x (upd_svc x (\<lambda>s. s\<lparr>waiting_for_console := True\<rparr>) st)"

definition service_active :: "sid \<Rightarrow> sset \<Rightarrow> sset" where
  "service_active x st = st\<lparr>active_services := active_services st + 1\<rparr>"

definition service_inactive :: "sid \<Rightarrow> sset \<Rightarrow> sset" where
  "service_inactive x st = st\<lparr>active_services := active_services st - 1\<rparr>"

section \<open>Finding services\<close>

definition find_service_rec :: "sset \<Rightarrow> string \<Rightarrow> sid option" where
  "find_service_rec st name = List.find (\<lambda>x. service_name (svcs st x) = name) (records st)"

definition find_service :: "sset \<Rightarrow> string \<Rightarrow> bool \<Rightarrow> sid option" where
  "find_service st name find_placeholders =
     (case find_service_rec st name of
        None \<Rightarrow> None
      | Some x \<Rightarrow> if \<not> find_placeholders \<and> record_type (svcs st x) = PLACEHOLDER then None else Some x)"

text \<open>\<^verbatim>\<open>service_set::load_service\<close>; \<open>None\<close> is the exception \<^verbatim>\<open>service_not_found\<close>.\<close>

definition load_service :: "sset \<Rightarrow> string \<Rightarrow> sid option" where
  "load_service st name = find_service st name False"

section \<open>Virtual methods of process services that stopping relies on\<close>

definition is_process_based :: "service_type_t \<Rightarrow> bool" where
  "is_process_based ty \<longleftrightarrow> ty = PROCESS \<or> ty = BGPROCESS \<or> ty = SCRIPTED"

definition get_exit_status :: "sset \<Rightarrow> sid \<Rightarrow> proc_status" where
  "get_exit_status st x =
     (if is_process_based (record_type (svcs st x)) then exit_status (procs st x)
      else \<lparr>wait_si_code = 0, wait_si_status = 0\<rparr>)"

definition arm_timer_rel :: "sid \<Rightarrow> time_val \<Rightarrow> sset \<Rightarrow> sset" where
  "arm_timer_rel x t = upd_proc x (\<lambda>p. p\<lparr>process_timer := Some t\<rparr>)"

definition stop_timer :: "sid \<Rightarrow> sset \<Rightarrow> sset" where
  "stop_timer x = upd_proc x (\<lambda>p. p\<lparr>process_timer := None\<rparr>)"

definition kill_pg :: "os_env \<Rightarrow> sid \<Rightarrow> int \<Rightarrow> sset \<Rightarrow> sset" where
  "kill_pg E x signo st =
     (if signal_process_only (onstart_flags (svcs st x)) then emit (Kill (pid (procs st x)) signo) st
      else let (pgid, st) = ask (os_getpgid E) st;
               pgid = (if pgid = -1 then pid (procs st x) else pgid)
           in emit (Kill (- pgid) signo) st)"

definition base_can_interrupt_start :: "service_record \<Rightarrow> bool" where
  "base_can_interrupt_start s \<longleftrightarrow> waiting_for_deps s"

definition can_interrupt_start :: "sset \<Rightarrow> sid \<Rightarrow> bool" where
  "can_interrupt_start st x =
     (let s = svcs st x
      in case record_type s of
           TRIGGERED \<Rightarrow> True
         | PROCESS \<Rightarrow> waiting_restart_timer (procs st x) \<or> start_interruptible (onstart_flags s) \<or> base_can_interrupt_start s
         | BGPROCESS \<Rightarrow> waiting_restart_timer (procs st x) \<or> start_interruptible (onstart_flags s) \<or> base_can_interrupt_start s
         | SCRIPTED \<Rightarrow> waiting_restart_timer (procs st x) \<or> start_interruptible (onstart_flags s) \<or> base_can_interrupt_start s
         | _ \<Rightarrow> base_can_interrupt_start s)"

definition process_interrupt_start :: "os_env \<Rightarrow> sid \<Rightarrow> sset \<Rightarrow> bool \<times> sset" where
  "process_interrupt_start E x st =
     (if waiting_restart_timer (procs st x) then
        (True, upd_proc x (\<lambda>p. p\<lparr>waiting_restart_timer := False\<rparr>) (stop_timer x st))
      else
        (let st = kill_pg E x SIGINT st;
             p = procs st x;
             st = (if stop_timeout p \<noteq> tv 0 0 then
                     upd_proc x (\<lambda>p. p\<lparr>waiting_stopstart_timer := True\<rparr>) (arm_timer_rel x (stop_timeout p) st)
                   else if waiting_stopstart_timer p then
                     upd_proc x (\<lambda>p. p\<lparr>waiting_stopstart_timer := False\<rparr>) (stop_timer x st)
                   else st)
         in (False, upd_svc x (\<lambda>s. s\<lparr>service_state := STOPPING\<rparr>) st)))"

definition scripted_interrupt_start :: "os_env \<Rightarrow> sid \<Rightarrow> sset \<Rightarrow> bool \<times> sset" where
  "scripted_interrupt_start E x st =
     (let (r, st) = process_interrupt_start E x st
      in (r, upd_proc x (\<lambda>p. p\<lparr>interrupting_start := \<not> r\<rparr>) st))"

definition interrupt_start :: "os_env \<Rightarrow> sid \<Rightarrow> sset \<Rightarrow> bool \<times> sset" where
  "interrupt_start E x st =
     (case record_type (svcs st x) of
        PROCESS \<Rightarrow> process_interrupt_start E x st
      | BGPROCESS \<Rightarrow> process_interrupt_start E x st
      | SCRIPTED \<Rightarrow> scripted_interrupt_start E x st
      | _ \<Rightarrow> (True, st))"

text \<open>
  \<^verbatim>\<open>process_service::check_restart\<close>: at most \<open>max_restart_interval_count\<close> automatic restarts
  within a restart interval (0 removes the limit).
\<close>

definition process_check_restart :: "os_env \<Rightarrow> sid \<Rightarrow> sset \<Rightarrow> bool \<times> sset" where
  "process_check_restart E x st =
     (if max_restart_interval_count (procs st x) \<noteq> 0 then
        (let (current_time, st) = ask (os_time E) st;
             p = procs st x;
             int_diff = tv_minus current_time (restart_interval_time p)
         in if tv_less int_diff (restart_interval p) then
              (if restart_interval_count p \<ge> max_restart_interval_count p then
                 (False, upd_svc x (\<lambda>s. s\<lparr>desired_state := STOPPED\<rparr>) st)
               else (True, upd_proc x (\<lambda>p. p\<lparr>restart_interval_count := restart_interval_count p + 1\<rparr>) st))
            else (True, upd_proc x (\<lambda>p. p\<lparr>restart_interval_time := current_time, restart_interval_count := 1\<rparr>) st))
      else (True, st))"

definition check_restart :: "os_env \<Rightarrow> sid \<Rightarrow> sset \<Rightarrow> bool \<times> sset" where
  "check_restart E x st =
     (case record_type (svcs st x) of
        PROCESS \<Rightarrow> process_check_restart E x st
      | BGPROCESS \<Rightarrow> process_check_restart E x st
      | _ \<Rightarrow> (True, st))"

section \<open>Acquisition and release\<close>

definition require :: "sid \<Rightarrow> sset \<Rightarrow> sset" where
  "require x st =
     (let was = required_by (svcs st x);
          st = upd_svc x (\<lambda>s. s\<lparr>required_by := required_by s + 1\<rparr>) st
      in if was = 0 \<and> service_state (svcs st x) \<noteq> STARTING \<and> service_state (svcs st x) \<noteq> STARTED
         then add_prop_queue x (upd_svc x (\<lambda>s. s\<lparr>prop_start := True\<rparr>) st)
         else st)"

text \<open>
  \<^verbatim>\<open>release(issue_stop)\<close> up to the point where it issues a stop; \<open>release_issues_stop\<close> says when it
  does so. With \<^verbatim>\<open>issue_stop = false\<close> the former is all there is.
\<close>

definition release_count :: "sid \<Rightarrow> sset \<Rightarrow> sset" where
  "release_count x st =
     (let st = upd_svc x (\<lambda>s. s\<lparr>required_by := required_by s - 1\<rparr>) st
      in if required_by (svcs st x) = 0 then
           (let st = (if service_state (svcs st x) = STOPPING \<and> desired_state (svcs st x) = STARTED \<and>
                         \<not> is_start_pinned (svcs st x)
                      then notify_listeners x EV_STARTCANCELLED st else st);
                st = upd_svc x (\<lambda>s. s\<lparr>desired_state := STOPPED\<rparr>) st
            in if is_start_pinned (svcs st x) then st
               else (let st = upd_svc x (\<lambda>s. s\<lparr>prop_release := \<not> prop_require s, prop_require := False\<rparr>) st
                     in if prop_release (svcs st x) then add_prop_queue x st else st))
         else st)"

definition release_issues_stop :: "sid \<Rightarrow> sset \<Rightarrow> bool" where
  "release_issues_stop x st \<longleftrightarrow>
     required_by (svcs st x) - 1 = 0 \<and> \<not> is_start_pinned (svcs st x) \<and>
     service_state (svcs st x) \<noteq> STOPPED \<and> service_state (svcs st x) \<noteq> STOPPING"

definition release_with :: "(sid \<Rightarrow> bool \<Rightarrow> sset \<Rightarrow> sset option) \<Rightarrow> sid \<Rightarrow> bool \<Rightarrow> sset \<Rightarrow> sset option" where
  "release_with do_stop x issue_stop st =
     (if issue_stop \<and> release_issues_stop x st
      then do_stop x False (upd_svc x (\<lambda>s. s\<lparr>stop_reason := NORMAL\<rparr>) (release_count x st))
      else Some (release_count x st))"

section \<open>Notifications between services\<close>

definition dependency_started :: "sid \<Rightarrow> sset \<Rightarrow> sset" where
  "dependency_started x st =
     (if (service_state (svcs st x) = STARTING \<or> service_state (svcs st x) = STARTED) \<and> waiting_for_deps (svcs st x)
      then add_transition_queue x st else st)"

definition dependent_stopped :: "sid \<Rightarrow> sset \<Rightarrow> sset" where
  "dependent_stopped x st =
     (if service_state (svcs st x) = STOPPING \<and> waiting_for_deps (svcs st x)
      then add_transition_queue x st else st)"

definition forced_stop :: "sid \<Rightarrow> sset \<Rightarrow> sset" where
  "forced_stop x st =
     (if service_state (svcs st x) \<noteq> STOPPED then
        (let st = upd_svc x (\<lambda>s. s\<lparr>force_stop := True\<rparr>) st
         in if \<not> is_start_pinned (svcs st x)
            then add_prop_queue x (upd_svc x (\<lambda>s. s\<lparr>prop_stop := True\<rparr>) st) else st)
      else st)"

definition unrecoverable_stop :: "sid \<Rightarrow> sset \<Rightarrow> sset" where
  "unrecoverable_stop x st = forced_stop x (upd_svc x (\<lambda>s. s\<lparr>desired_state := STOPPED\<rparr>) st)"

text \<open>Break the soft link \<open>d\<close> to the stopped (or stopping) service \<open>x\<close>.\<close>

definition break_soft_link :: "sid \<Rightarrow> did \<Rightarrow> sset \<Rightarrow> sset" where
  "break_soft_link x d st =
     (let st = (if waiting_on (deps st d)
                then dependency_started (dep_from (deps st d)) (upd_dep d (\<lambda>l. l\<lparr>waiting_on := False\<rparr>) st)
                else st)
      in if holding_acq (deps st d)
         then release_count x (upd_dep d (\<lambda>l. l\<lparr>holding_acq := False\<rparr>) st) else st)"

section \<open>Starting\<close>

definition check_dep_start :: "did \<Rightarrow> bool \<times> sset \<Rightarrow> bool \<times> sset" where
  "check_dep_start d r =
     (let (all_started, st) = r; to = svcs st (dep_to (deps st d))
      in if is_only_ordering (deps st d) \<and> service_state to \<noteq> STARTING then (all_started, st)
         else if service_state to \<noteq> STARTED
              then (False, upd_dep d (\<lambda>l. l\<lparr>waiting_on := True\<rparr>) st)
              else (all_started, st))"

definition check_ordering_dept :: "did \<Rightarrow> sset \<Rightarrow> sset" where
  "check_ordering_dept d st =
     (if \<not> waiting_on (deps st d) \<and> is_only_ordering (deps st d) \<and>
         service_state (svcs st (dep_from (deps st d))) = STARTING
      then upd_dep d (\<lambda>l. l\<lparr>waiting_on := True\<rparr>) st else st)"

definition start_check_dependencies :: "sid \<Rightarrow> sset \<Rightarrow> bool \<times> sset" where
  "start_check_dependencies x st =
     (let (all_started, st) = fold check_dep_start (depends_on (svcs st x)) (True, st)
      in (all_started, fold check_ordering_dept (dependents (svcs st x)) st))"

definition check_deps_started :: "sset \<Rightarrow> sid \<Rightarrow> bool" where
  "check_deps_started st x \<longleftrightarrow> list_all (\<lambda>d. \<not> waiting_on (deps st d)) (depends_on (svcs st x))"

definition initiate_start :: "sid \<Rightarrow> sset \<Rightarrow> sset" where
  "initiate_start x st =
     (let st = upd_svc x (\<lambda>s. s\<lparr>start_failed := False, start_skipped := False, service_state := STARTING,
                               waiting_for_deps := True\<rparr>) st;
          (ok, st) = start_check_dependencies x st
      in if ok then add_transition_queue x st else st)"

text \<open>\<^verbatim>\<open>failed_to_start\<close> without the final call of \<^verbatim>\<open>stopped\<close>.\<close>

definition cancel_dependent_start :: "sid \<Rightarrow> did \<Rightarrow> sset \<Rightarrow> sset" where
  "cancel_dependent_start x d st =
     (let st = (case dep_type (deps st d) of
                  REGULAR \<Rightarrow>
                    (if service_state (svcs st (dep_from (deps st d))) = STARTING
                     then add_prop_queue (dep_from (deps st d))
                            (upd_svc (dep_from (deps st d)) (\<lambda>s. s\<lparr>prop_failure := True\<rparr>) st)
                     else st)
                | MILESTONE \<Rightarrow>
                    (if service_state (svcs st (dep_from (deps st d))) = STARTING
                     then add_prop_queue (dep_from (deps st d))
                            (upd_svc (dep_from (deps st d)) (\<lambda>s. s\<lparr>prop_failure := True\<rparr>) st)
                     else st)
                | _ \<Rightarrow>
                    (if waiting_on (deps st d)
                     then dependency_started (dep_from (deps st d)) (upd_dep d (\<lambda>l. l\<lparr>waiting_on := False\<rparr>) st)
                     else st))
      in if holding_acq (deps st d)
         then release_count x (upd_dep d (\<lambda>l. l\<lparr>holding_acq := False\<rparr>) st) else st)"

definition mark_failed_to_start :: "bool \<Rightarrow> sid \<Rightarrow> sset \<Rightarrow> sset" where
  "mark_failed_to_start depfailed x st =
     (let st = upd_svc x (\<lambda>s. s\<lparr>desired_state := STOPPED\<rparr>) st;
          st = (if waiting_for_console (svcs st x)
                then upd_svc x (\<lambda>s. s\<lparr>waiting_for_console := False\<rparr>) (unqueue_console x st) else st);
          st = (if start_explicit (svcs st x)
                then release_count x (upd_svc x (\<lambda>s. s\<lparr>start_explicit := False\<rparr>) st) else st);
          st = fold (cancel_dependent_start x) (dependents (svcs st x)) st;
          st = upd_svc x (\<lambda>s. s\<lparr>start_failed := True\<rparr>) st;
          st = emit (Log_failed (service_name (svcs st x)) depfailed) st;
          st = notify_listeners x EV_FAILEDSTART st
      in upd_svc x (\<lambda>s. s\<lparr>pinned_started := False\<rparr>) st)"

definition reattach_soft_dept :: "sid \<Rightarrow> did \<Rightarrow> sset \<Rightarrow> sset" where
  "reattach_soft_dept x d st =
     (if \<not> is_hard (deps st d) then
        (let dept_state = service_state (svcs st (dep_from (deps st d)))
         in if \<not> holding_acq (deps st d) \<and> (dept_state = STARTED \<or> dept_state = STARTING)
            then upd_svc x (\<lambda>s. s\<lparr>required_by := required_by s + 1\<rparr>) (upd_dep d (\<lambda>l. l\<lparr>holding_acq := True\<rparr>) st)
            else st)
      else st)"

definition do_start :: "sid \<Rightarrow> sset \<Rightarrow> sset" where
  "do_start x st =
     (let was_active = service_state (svcs st x) \<noteq> STOPPED;
          st = upd_svc x (\<lambda>s. s\<lparr>desired_state := STARTED\<rparr>) st
      in if pinned_stopped (svcs st x) then
           (if \<not> was_active then mark_failed_to_start False x st else st)
         else
           (let st = (if \<not> was_active then fold (reattach_soft_dept x) (dependents (svcs st x)) st else st)
            in if was_active then
                 (if service_state (svcs st x) \<noteq> STOPPING then st
                  else if \<not> can_interrupt_stop (svcs st x) then st
                  else initiate_start x (notify_listeners x EV_STOPCANCELLED st))
               else
                 (let st = service_active x st;
                      st = upd_svc x (\<lambda>s. s\<lparr>prop_require := \<not> prop_release s, prop_release := False\<rparr>) st;
                      st = (if prop_require (svcs st x) then add_prop_queue x st else st)
                  in initiate_start x st)))"

definition start :: "sid \<Rightarrow> sset \<Rightarrow> sset" where
  "start x st =
     (if pinned_stopped (svcs st x) then st
      else let st = (if \<not> start_explicit (svcs st x)
                     then upd_svc x (\<lambda>s. s\<lparr>required_by := required_by s + 1, start_explicit := True\<rparr>) st
                     else st)
           in do_start x st)"

section \<open>Stopping\<close>

definition auto_restart_wanted :: "sset \<Rightarrow> sid \<Rightarrow> bool" where
  "auto_restart_wanted st x =
     (case auto_restart (svcs st x) of
        ALWAYS \<Rightarrow> True
      | ON_FAILURE \<Rightarrow>
          (record_type (svcs st x) = PROCESS \<or> record_type (svcs st x) = BGPROCESS) \<and>
          (let es = get_exit_status st x
           in if was_signalled es
              then wait_si_status es \<notin> {SIGHUP, SIGINT, SIGUSR1, SIGUSR2, SIGTERM}
              else wait_si_status es \<noteq> 0)
      | NEVER \<Rightarrow> False)"

definition stop_dependent ::
  "(sid \<Rightarrow> sset \<Rightarrow> sset option) \<Rightarrow> sid \<Rightarrow> bool \<Rightarrow> bool \<Rightarrow> did \<Rightarrow> bool \<times> sset \<Rightarrow> (bool \<times> sset) option" where
  "stop_dependent release x for_restart restart_deps d r =
     (let (all_stopped, st) = r
      in if is_hard (deps st d) then
           (let from = dep_from (deps st d);
                all_stopped = (if \<not> is_fundamentally_stopped (svcs st from) then False else all_stopped);
                st = (if force_stop (svcs st x) then
                        (if desired_state (svcs st x) = STOPPED
                         then unrecoverable_stop from (upd_svc from (\<lambda>s. s\<lparr>stop_reason := DEPFAILED\<rparr>) st)
                         else forced_stop from st)
                      else st)
            in if service_state (svcs st from) \<noteq> STOPPED then
                 (if desired_state (svcs st x) = STOPPED then
                    (if desired_state (svcs st from) \<noteq> STOPPED then
                       (let st = upd_svc from (\<lambda>s. s\<lparr>desired_state := STOPPED\<rparr>) st
                        in do {
                             st \<leftarrow> (if start_explicit (svcs st from)
                                   then release from (upd_svc from (\<lambda>s. s\<lparr>start_explicit := False\<rparr>) st)
                                   else Some st);
                             Some (all_stopped, add_prop_queue from (upd_svc from (\<lambda>s. s\<lparr>prop_stop := True\<rparr>) st))
                           })
                     else Some (all_stopped, st))
                  else if restart_deps \<and> service_state (svcs st from) \<noteq> STOPPING then
                    Some (all_stopped,
                      add_prop_queue from
                        (upd_svc from (\<lambda>s. s\<lparr>stop_reason := DEPRESTART, in_user_restart := True, prop_stop := True\<rparr>) st))
                  else Some (all_stopped, st))
               else Some (all_stopped, st))
         else if \<not> for_restart then Some (all_stopped, break_soft_link x d st)
         else Some (all_stopped, st))"

definition stop_dependents ::
  "(sid \<Rightarrow> sset \<Rightarrow> sset option) \<Rightarrow> sid \<Rightarrow> bool \<Rightarrow> bool \<Rightarrow> sset \<Rightarrow> (bool \<times> sset) option" where
  "stop_dependents release x for_restart restart_deps st =
     fold_opt (stop_dependent release x for_restart restart_deps) (dependents (svcs st x)) (True, st)"

text \<open>The end of \<^verbatim>\<open>do_stop\<close>: interrupt a start that is under way, or begin to stop.\<close>

definition begin_stopping :: "sid \<Rightarrow> bool \<Rightarrow> sset \<Rightarrow> sset" where
  "begin_stopping x all_deps_stopped st =
     (let st = upd_svc x (\<lambda>s. s\<lparr>service_state := STOPPING, waiting_for_deps := \<not> all_deps_stopped\<rparr>) st
      in if all_deps_stopped then add_transition_queue x st else st)"

definition do_stop_finish :: "os_env \<Rightarrow> sid \<Rightarrow> bool \<Rightarrow> sset \<Rightarrow> sset" where
  "do_stop_finish E x all_deps_stopped st =
     (let s = svcs st x
      in if service_state s \<noteq> STARTED then
           (if service_state s = STARTING then
              (if \<not> waiting_for_deps s \<and> \<not> waiting_for_console s then
                 (if \<not> can_interrupt_start st x then st
                  else let (fully, st) = interrupt_start E x st;
                           st = notify_listeners x EV_STARTCANCELLED st
                       in if \<not> fully then st else begin_stopping x all_deps_stopped st)
               else let st = (if waiting_for_console s
                              then upd_svc x (\<lambda>s. s\<lparr>waiting_for_console := False\<rparr>) (unqueue_console x st) else st);
                        st = notify_listeners x EV_STARTCANCELLED st
                    in begin_stopping x all_deps_stopped st)
            else st)
         else begin_stopping x all_deps_stopped st)"

definition do_stop_body :: "os_env \<Rightarrow> (sid \<Rightarrow> sset \<Rightarrow> sset option) \<Rightarrow> sid \<Rightarrow> bool \<Rightarrow> sset \<Rightarrow> sset option" where
  "do_stop_body E release x with_restart st =
     (if is_start_pinned (svcs st x) then Some st
      else
        (let st = upd_svc x (\<lambda>s. s\<lparr>in_auto_restart := False, in_user_restart := False\<rparr>) st;
             for_restart = (with_restart \<or> (auto_restart_wanted st x \<and> desired_state (svcs st x) = STARTED));
             (for_restart, st) =
               (if \<not> with_restart \<and> for_restart then
                  (let (r, st) = check_restart E x st
                   in (r, upd_svc x (\<lambda>s. s\<lparr>in_auto_restart := r\<rparr>) st))
                else (for_restart, st));
             st = (if \<not> for_restart \<and> start_explicit (svcs st x)
                   then release_count x (upd_svc x (\<lambda>s. s\<lparr>start_explicit := False\<rparr>) st) else st)
         in do {
              (all_deps_stopped, st) \<leftarrow> stop_dependents release x for_restart with_restart st;
              Some (do_stop_finish E x all_deps_stopped st)
            }))"

text \<open>
  \<^verbatim>\<open>do_stop\<close> and \<^verbatim>\<open>release\<close> call each other down the chain of dependents; the first argument bounds
  the depth of that recursion.
\<close>

primrec do_stop :: "nat \<Rightarrow> os_env \<Rightarrow> sid \<Rightarrow> bool \<Rightarrow> sset \<Rightarrow> sset option" where
  "do_stop 0 = (\<lambda>E x with_restart st. None)"
| "do_stop (Suc n) = (\<lambda>E x with_restart st.
     do_stop_body E (\<lambda>y. release_with (do_stop n E) y True) x with_restart st)"

definition release :: "nat \<Rightarrow> os_env \<Rightarrow> sid \<Rightarrow> bool \<Rightarrow> sset \<Rightarrow> sset option" where
  "release n E = release_with (do_stop n E)"

definition release_dep :: "nat \<Rightarrow> os_env \<Rightarrow> did \<Rightarrow> sset \<Rightarrow> sset option" where
  "release_dep n E d st =
     (if holding_acq (deps st d)
      then release n E (dep_to (deps st d)) True (upd_dep d (\<lambda>l. l\<lparr>holding_acq := False\<rparr>) st)
      else Some st)"

definition release_dependencies :: "nat \<Rightarrow> os_env \<Rightarrow> sid \<Rightarrow> sset \<Rightarrow> sset option" where
  "release_dependencies n E x st = fold_opt (release_dep n E) (depends_on (svcs st x)) st"

definition stop :: "nat \<Rightarrow> os_env \<Rightarrow> sid \<Rightarrow> bool \<Rightarrow> sset \<Rightarrow> sset option" where
  "stop n E x bring_down st =
     (let st = (if start_explicit (svcs st x)
                then upd_svc x (\<lambda>s. s\<lparr>start_explicit := False, required_by := required_by s - 1\<rparr>) st else st);
          st = (if bring_down \<or> required_by (svcs st x) = 0
                then upd_svc x (\<lambda>s. s\<lparr>desired_state := STOPPED\<rparr>) st else st)
      in if is_start_pinned (svcs st x) then Some st
         else
           (let zero = (required_by (svcs st x) = 0);
                bring_down = (bring_down \<or> zero);
                st = (if zero then
                        (let st = upd_svc x (\<lambda>s. s\<lparr>prop_release := \<not> prop_require s\<rparr>) st
                         in if prop_release (svcs st x) then add_prop_queue x st else st)
                      else st)
            in if bring_down \<and> service_state (svcs st x) \<noteq> STOPPED
               then do_stop n E x False (upd_svc x (\<lambda>s. s\<lparr>stop_reason := NORMAL\<rparr>) st)
               else Some st))"

definition restart :: "nat \<Rightarrow> os_env \<Rightarrow> sid \<Rightarrow> sset \<Rightarrow> (bool \<times> sset) option" where
  "restart n E x st =
     (if service_state (svcs st x) = STARTED then
        do {
          st \<leftarrow> do_stop n E x True (upd_svc x (\<lambda>s. s\<lparr>stop_reason := NORMAL, force_stop := True\<rparr>) st);
          Some (True, st)
        }
      else Some (False, st))"

definition dependent_holds :: "sset \<Rightarrow> did \<Rightarrow> bool" where
  "dependent_holds st d \<longleftrightarrow> is_hard (deps st d) \<and> holding_acq (deps st d) \<and> \<not> waiting_on (deps st d)"

definition stop_check_dependents :: "sset \<Rightarrow> sid \<Rightarrow> bool" where
  "stop_check_dependents st x \<longleftrightarrow> \<not> list_ex (dependent_holds st) (dependents (svcs st x))"

section \<open>Pins\<close>

definition pin_start :: "sid \<Rightarrow> sset \<Rightarrow> sset" where
  "pin_start x st =
     (if \<not> pinned_started (svcs st x) then
        (let st = (if \<not> dept_pinned_started (svcs st x) then
                     fold (\<lambda>d st. if is_hard (deps st d) \<and> \<not> dept_pinned_started (svcs st (dep_to (deps st d)))
                                  then add_prop_queue (dep_to (deps st d))
                                         (upd_svc (dep_to (deps st d)) (\<lambda>s. s\<lparr>prop_pin_dpt := True\<rparr>) st)
                                  else st) (depends_on (svcs st x)) st
                   else st)
         in upd_svc x (\<lambda>s. s\<lparr>pinned_started := True\<rparr>) st)
      else st)"

definition pin_stop :: "sid \<Rightarrow> sset \<Rightarrow> sset" where
  "pin_stop x = upd_svc x (\<lambda>s. s\<lparr>pinned_stopped := True\<rparr>)"

end
