(* ===== verification/Process_Launch.thy ===== *)
theory Process_Launch
  imports Service_Core
begin

text \<open>
  Launching processes (\<^verbatim>\<open>baseproc-service.cc\<close>, \<^verbatim>\<open>proc-service.cc\<close>): the log buffer, the activation
  socket, \<^verbatim>\<open>start_ps_process\<close> with its chain of cleanup labels, the stop command, and the pid file
  of self-backgrounding services. The file descriptors a call obtains and closes are recorded among
  the effects.
\<close>

section \<open>File descriptors\<close>

definition close_fd :: "int \<Rightarrow> sset \<Rightarrow> sset" where
  "close_fd fd = emit (Closed fd)"

text \<open>\<^verbatim>\<open>pipe2\<close> and \<^verbatim>\<open>socketpair\<close>: both descriptors, or a failure.\<close>

definition open_pair :: "(nat \<Rightarrow> (int \<times> int) option) \<Rightarrow> sset \<Rightarrow> (int \<times> int) option \<times> sset" where
  "open_pair q st =
     (case ask q st of
        (None, st) \<Rightarrow> (None, st)
      | (Some (r, w), st) \<Rightarrow> (Some (r, w), emit (Opened w) (emit (Opened r) st)))"

section \<open>The log buffer\<close>

text \<open>
  \<^verbatim>\<open>ensure_log_buffer_backing\<close>: grow the backing vector, doubling its capacity but never beyond
  the configured maximum. Bytes that \<^verbatim>\<open>resize\<close> adds are unspecified; the model writes zeros.
  (Sizes are bounded by half the range of \<^verbatim>\<open>unsigned\<close>, so that the doubling does not wrap.)
\<close>

definition ensure_log_buffer_backing :: "os_env \<Rightarrow> sid \<Rightarrow> nat \<Rightarrow> sset \<Rightarrow> bool \<times> sset" where
  "ensure_log_buffer_backing E x new_size st =
     (let p = procs st x
      in if length (log_buffer p) < new_size then
           (if log_buffer_cap p < new_size then
              (let new_capacity = min (max (log_buffer_cap p * 2) new_size) (log_buf_max p);
                   (ok, st) = ask (os_alloc E) st
               in if ok then
                    (True, upd_proc x (\<lambda>p. p\<lparr>log_buffer_cap := max (log_buffer_cap p) new_capacity,
                        log_buffer := take new_capacity (log_buffer p) @
                          replicate (new_capacity - length (log_buffer p)) (CHR 0x00)\<rparr>) st)
                  else (False, st))
            else
              (True, upd_proc x (\<lambda>p. p\<lparr>log_buffer := log_buffer p @
                  replicate (new_size - length (log_buffer p)) (CHR 0x00)\<rparr>) st))
         else (True, st))"

definition restarting_msg :: string where
  "restarting_msg = CHR 0x0A # ''(dinit: note: service restarted)'' @ [CHR 0x0A]"

text \<open>The bytes \<open>s\<close> stored at position \<open>i\<close>: \<^verbatim>\<open>memcpy(buf + i, s, n)\<close>.\<close>

definition store_at :: "string \<Rightarrow> nat \<Rightarrow> string \<Rightarrow> string" where
  "store_at buf i s = take i buf @ s @ drop (i + length s) buf"

text \<open>The part of \<^verbatim>\<open>start_ps_process\<close> that marks a restart in a non-empty log buffer.\<close>

definition append_restart_note :: "os_env \<Rightarrow> sid \<Rightarrow> sset \<Rightarrow> sset" where
  "append_restart_note E x st =
     (let p = procs st x
      in if log_type p = LOG_BUFFER \<and> log_buf_size p > 0 then
           (let msg = (if log_buffer p ! (log_buf_size p - 1) = CHR 0x0A then tl restarting_msg else restarting_msg)
            in if log_buf_size p + length msg \<ge> log_buf_max p then st
               else (case ensure_log_buffer_backing E x (log_buf_size p + length msg) st of
                       (False, st) \<Rightarrow> st
                     | (True, st) \<Rightarrow>
                         upd_proc x (\<lambda>p. p\<lparr>log_buffer := store_at (log_buffer p) (log_buf_size p) msg,
                                           log_buf_size := log_buf_size p + length msg\<rparr>) st))
         else st)"

section \<open>Output pipes\<close>

definition get_output_pipe_fd :: "os_env \<Rightarrow> sid \<Rightarrow> sset \<Rightarrow> int \<times> sset" where
  "get_output_pipe_fd E x st =
     (if record_type (svcs st x) = INTERNAL \<or> record_type (svcs st x) = TRIGGERED then (-1, st)
      else if log_input_fd (procs st x) \<noteq> -1 then (log_input_fd (procs st x), st)
      else (case open_pair (os_pipe2 E) st of
              (None, st) \<Rightarrow> (-1, st)
            | (Some (r, w), st) \<Rightarrow> (r, upd_proc x (\<lambda>p. p\<lparr>log_input_fd := r, log_output_fd := w\<rparr>) st)))"

definition transfer_output_pipe :: "sid \<Rightarrow> sset \<Rightarrow> (int \<times> int) \<times> sset" where
  "transfer_output_pipe x st =
     (if record_type (svcs st x) = INTERNAL \<or> record_type (svcs st x) = TRIGGERED then ((-1, -1), st)
      else ((log_input_fd (procs st x), log_output_fd (procs st x)),
            upd_proc x (\<lambda>p. p\<lparr>log_input_fd := -1, log_output_fd := -1\<rparr>) st))"

text \<open>\<open>None\<close>: the input could not be set up.\<close>

definition get_input_fd :: "os_env \<Rightarrow> sid \<Rightarrow> sset \<Rightarrow> int option \<times> sset" where
  "get_input_fd E x st =
     (if record_type (svcs st x) = PROCESS \<or> record_type (svcs st x) = BGPROCESS then
        (case consumer_for (procs st x) of
           None \<Rightarrow> (Some (-1), st)
         | Some c \<Rightarrow> let (fd, st) = get_output_pipe_fd E c st in (if fd = -1 then None else Some fd, st))
      else (Some (-1), st))"

section \<open>The activation socket\<close>

definition open_socket :: "os_env \<Rightarrow> sid \<Rightarrow> sset \<Rightarrow> bool \<times> sset" where
  "open_socket E x st =
     (if socket_path (svcs st x) = [] \<or> socket_fd (procs st x) \<noteq> -1 then (True, st)
      else
        (let (sr, st) = ask (os_stat E) st
         in if sr = Stat_ok False \<or> sr = Stat_error then (False, st)
            else
              (let st = emit (Unlinked (socket_path (svcs st x))) st;
                   (mem, st) = ask (os_alloc E) st
               in if \<not> mem then (False, st)
                  else case ask (os_socket E) st of
                    (None, st) \<Rightarrow> (False, st)
                  | (Some fd, st) \<Rightarrow>
                      (let st = emit (Opened fd) st;
                           (bind_ok, st) = ask (os_bind E) st
                       in if \<not> bind_ok then (False, close_fd fd st)
                          else let (chown_ok, st) = ask (os_chown E) st
                          in if \<not> chown_ok then (False, close_fd fd st)
                             else let (chmod_ok, st) = ask (os_chmod E) st
                             in if \<not> chmod_ok then (False, close_fd fd st)
                                else let (listen_ok, st) = ask (os_listen E) st
                                in if \<not> listen_ok then (False, close_fd fd st)
                                   else (True, upd_proc x (\<lambda>p. p\<lparr>socket_fd := fd\<rparr>) st)))))"

definition becoming_inactive :: "sid \<Rightarrow> sset \<Rightarrow> sset" where
  "becoming_inactive x st =
     (if is_process_based (record_type (svcs st x)) \<and> socket_fd (procs st x) \<noteq> -1
      then upd_proc x (\<lambda>p. p\<lparr>socket_fd := -1\<rparr>) (close_fd (socket_fd (procs st x)) st)
      else st)"

section \<open>Starting a process\<close>

text \<open>The cleanup labels of \<^verbatim>\<open>start_ps_process\<close>, innermost last.\<close>

definition out_p :: "int \<times> int \<Rightarrow> sset \<Rightarrow> bool \<times> sset" where
  "out_p pipefd st = (False, close_fd (snd pipefd) (close_fd (fst pipefd) st))"

definition out_lfd :: "sid \<Rightarrow> int \<times> int \<Rightarrow> sset \<Rightarrow> bool \<times> sset" where
  "out_lfd x pipefd st =
     (let p = procs st x;
          st = (if log_input_fd p \<noteq> -1
                then upd_proc x (\<lambda>p. p\<lparr>log_input_fd := -1, log_output_fd := -1\<rparr>)
                       (close_fd (log_output_fd p) (close_fd (log_input_fd p) st))
                else st)
      in out_p pipefd st)"

definition out_cs :: "sid \<Rightarrow> int \<times> int \<Rightarrow> int \<times> int \<Rightarrow> sset \<Rightarrow> bool \<times> sset" where
  "out_cs x pipefd control_socket st =
     out_lfd x pipefd (close_fd (snd control_socket) (close_fd (fst control_socket) st))"

definition out_cs_h :: "sid \<Rightarrow> int \<times> int \<Rightarrow> (int \<times> int) option \<Rightarrow> (int \<times> int) option \<Rightarrow> sset \<Rightarrow> bool \<times> sset" where
  "out_cs_h x pipefd control_socket notify_pipe st =
     (let st = (case notify_pipe of None \<Rightarrow> st | Some (r, w) \<Rightarrow> close_fd w (close_fd r st))
      in case control_socket of
           None \<Rightarrow> out_lfd x pipefd st
         | Some cs \<Rightarrow> out_cs x pipefd cs (close_fd (fst cs) st))"

definition fork_process ::
  "os_env \<Rightarrow> sid \<Rightarrow> bool \<Rightarrow> int \<times> int \<Rightarrow> (int \<times> int) option \<Rightarrow> (int \<times> int) option \<Rightarrow> sset \<Rightarrow> bool \<times> sset" where
  "fork_process E x on_console pipefd control_socket notify_pipe st =
     (let (watch_ok, st) = ask (os_add_watch E) st
      in if \<not> watch_ok then out_cs_h x pipefd control_socket notify_pipe st
         else case ask (os_fork E) st of
           (None, st) \<Rightarrow> out_cs_h x pipefd control_socket notify_pipe st
         | (Some forkpid, st) \<Rightarrow>
             (let st = emit (Forked x forkpid on_console) st;
                  st = upd_proc x (\<lambda>p. p\<lparr>reserved_child_watch := True, pid := forkpid\<rparr>) st;
                  st = close_fd (snd pipefd) st;
                  st = (case control_socket of None \<Rightarrow> st | Some (_, w) \<Rightarrow> close_fd w st);
                  st = (case notify_pipe of None \<Rightarrow> st | Some (_, w) \<Rightarrow> close_fd w st);
                  st = upd_proc x (\<lambda>p. p\<lparr>notification_fd := (case notify_pipe of None \<Rightarrow> -1 | Some (r, _) \<Rightarrow> r)\<rparr>) st
              in (True, upd_svc x (\<lambda>s. s\<lparr>waiting_for_execstat := True\<rparr>) st)))"

definition open_notify_pipe ::
  "os_env \<Rightarrow> sid \<Rightarrow> bool \<Rightarrow> int \<times> int \<Rightarrow> (int \<times> int) option \<Rightarrow> sset \<Rightarrow> bool \<times> sset" where
  "open_notify_pipe E x on_console pipefd control_socket st =
     (if notification_var (procs st x) \<noteq> [] \<or> force_notification_fd (procs st x) \<noteq> -1 then
        (case open_pair (os_pipe2 E) st of
           (None, st) \<Rightarrow> out_cs_h x pipefd control_socket None st
         | (Some np, st) \<Rightarrow>
             (let (watch_ok, st) = ask (os_add_watch E) st
              in if \<not> watch_ok then out_cs_h x pipefd control_socket (Some np) st
                 else fork_process E x on_console pipefd control_socket (Some np) (append_restart_note E x st)))
      else fork_process E x on_console pipefd control_socket None (append_restart_note E x st))"

definition open_control_socket :: "os_env \<Rightarrow> sid \<Rightarrow> bool \<Rightarrow> int \<times> int \<Rightarrow> sset \<Rightarrow> bool \<times> sset" where
  "open_control_socket E x on_console pipefd st =
     (if pass_cs_fd (onstart_flags (svcs st x)) then
        (case open_pair (os_socketpair E) st of
           (None, st) \<Rightarrow> out_lfd x pipefd st
         | (Some cs, st) \<Rightarrow>
             (let (conn_ok, st) = ask (os_alloc E) st
              in if \<not> conn_ok then out_cs x pipefd cs st
                 else open_notify_pipe E x on_console pipefd (Some cs) st))
      else open_notify_pipe E x on_console pipefd None st)"

definition open_log_pipe :: "os_env \<Rightarrow> sid \<Rightarrow> bool \<Rightarrow> int \<times> int \<Rightarrow> sset \<Rightarrow> bool \<times> sset" where
  "open_log_pipe E x on_console pipefd st =
     (if (log_type (procs st x) = LOG_BUFFER \<or> log_type (procs st x) = LOG_PIPE) \<and> log_output_fd (procs st x) = -1 then
        (case open_pair (os_pipe2 E) st of
           (None, st) \<Rightarrow> out_p pipefd st
         | (Some (r, w), st) \<Rightarrow>
             (let st = upd_proc x (\<lambda>p. p\<lparr>log_input_fd := r, log_output_fd := w\<rparr>) st
              in if log_type (procs st x) = LOG_BUFFER then
                   (let (watch_ok, st) = ask (os_add_watch E) st
                    in if watch_ok then open_control_socket E x on_console pipefd st
                       else out_p pipefd (upd_proc x (\<lambda>p. p\<lparr>log_input_fd := -1, log_output_fd := -1\<rparr>)
                                            (close_fd w (close_fd r st))))
                 else open_control_socket E x on_console pipefd st))
      else open_control_socket E x on_console pipefd st)"

definition start_ps_process :: "os_env \<Rightarrow> sid \<Rightarrow> bool \<Rightarrow> sset \<Rightarrow> bool \<times> sset" where
  "start_ps_process E x on_console st =
     (let (now, st) = ask (os_time E) st;
          st = upd_proc x (\<lambda>p. p\<lparr>last_start_time := now\<rparr>) st
      in case open_pair (os_pipe2 E) st of
           (None, st) \<Rightarrow> (False, st)
         | (Some pipefd, st) \<Rightarrow>
             (case get_input_fd E x st of
                (None, st) \<Rightarrow> (False, st)
              | (Some input_fd, st) \<Rightarrow> open_log_pipe E x on_console pipefd st))"

text \<open>\<^verbatim>\<open>process_service::start_stop_process\<close>: run the stop command beside the service process.\<close>

definition start_stop_process :: "os_env \<Rightarrow> sid \<Rightarrow> sset \<Rightarrow> bool \<times> sset" where
  "start_stop_process E x st =
     (case open_pair (os_pipe2 E) st of
        (None, st) \<Rightarrow> (False, st)
      | (Some pipefd, st) \<Rightarrow>
          (let (watch_ok, st) = ask (os_add_watch E) st
           in if \<not> watch_ok then out_p pipefd st
              else case ask (os_fork E) st of
                (None, st) \<Rightarrow> out_p pipefd st
              | (Some forkpid, st) \<Rightarrow>
                  (let st = emit (Forked_stop x forkpid) st;
                       st = upd_proc x (\<lambda>p. p\<lparr>reserved_stop_watch := True, stop_pid := forkpid\<rparr>) st;
                       st = close_fd (snd pipefd) st
                   in (True, upd_svc x (\<lambda>s. s\<lparr>waiting_for_execstat := True\<rparr>) st))))"

end
