(* ===== verification/Service_Run.thy ===== *)
theory Service_Run
  imports Process_Launch
begin

text \<open>
  The execution phase of \<^verbatim>\<open>service.cc\<close>, \<^verbatim>\<open>baseproc-service.cc\<close> and \<^verbatim>\<open>proc-service.cc\<close>: services
  reach \<open>STARTED\<close> and \<open>STOPPED\<close>, processes are launched and signalled, the console is handed on,
  and the queues of the service set are worked off.

  The code re-enters itself in two places: releasing the console hands it to the next waiting
  service (\<^verbatim>\<open>acquired_console\<close>), and a failed relaunch works off the queues while they are already
  being worked off (\<^verbatim>\<open>process_queues\<close> from \<^verbatim>\<open>do_restart\<close>). A context carries these two entry points,
  the answers of the operating system and the recursion bound; the recursion is tied at the end of
  the theory.
\<close>

record ctx =
  cx_os :: os_env
  cx_fuel :: nat
  cx_acquired :: "sid \<Rightarrow> sset \<Rightarrow> sset option"
  cx_process :: "sset \<Rightarrow> sset option"

section \<open>Console\<close>

definition pull_console_queue :: "ctx \<Rightarrow> sset \<Rightarrow> sset option" where
  "pull_console_queue C st =
     (case console_queue st of
        [] \<Rightarrow> Some (emit (Console_log_enable True) (emit Console_log_discard st))
      | front # q \<Rightarrow> cx_acquired C front (st\<lparr>console_queue := q\<rparr>))"

definition release_console :: "ctx \<Rightarrow> sid \<Rightarrow> sset \<Rightarrow> sset option" where
  "release_console C x st = pull_console_queue C (upd_svc x (\<lambda>s. s\<lparr>have_console := False\<rparr>) st)"

section \<open>Stopped, started, failed\<close>

definition chain_start :: "sid \<Rightarrow> bool \<Rightarrow> sset \<Rightarrow> sset" where
  "chain_start x will_restart st =
     (let s = svcs st x
      in if (always_chain (onstart_flags s) \<or>
             (did_finish (stop_reason s) \<and> did_exit_clean (get_exit_status st x) \<and> \<not> will_restart)) \<and>
            start_on_completion s \<noteq> [] \<and> restart_enabled st
         then (case load_service st (start_on_completion s) of None \<Rightarrow> st | Some y \<Rightarrow> start y st)
         else st)"

definition stopped :: "ctx \<Rightarrow> sid \<Rightarrow> sset \<Rightarrow> sset option" where
  "stopped C x st =
     do {
       st \<leftarrow> (if have_console (svcs st x) then release_console C x (emit Take_terminal st) else Some st);
       let st = upd_svc x (\<lambda>s. s\<lparr>force_stop := False\<rparr>) st;
       let will_restart = (desired_state (svcs st x) = STARTED \<and> \<not> pinned_stopped (svcs st x));
       let st = (if \<not> will_restart
                 then fold (\<lambda>d st. if \<not> is_hard (deps st d) then break_soft_link x d st else st)
                        (dependents (svcs st x)) st
                 else st);
       let st = fold (\<lambda>d st. dependent_stopped (dep_to (deps st d)) st) (depends_on (svcs st x)) st;
       let st = upd_svc x (\<lambda>s. s\<lparr>service_state := STOPPED\<rparr>) st;
       let st = (if will_restart then initiate_start x st
                 else let st = becoming_inactive x st
                      in if start_explicit (svcs st x)
                         then release_count x (upd_svc x (\<lambda>s. s\<lparr>start_explicit := False\<rparr>) st)
                         else if required_by (svcs st x) = 0 then service_inactive x st else st);
       let st = (if \<not> start_failed (svcs st x)
                 then chain_start x will_restart (emit (Log_stopped (service_name (svcs st x))) st)
                 else st);
       Some (notify_listeners x EV_STOPPED st)
     }"

definition failed_to_start :: "ctx \<Rightarrow> bool \<Rightarrow> bool \<Rightarrow> sid \<Rightarrow> sset \<Rightarrow> sset option" where
  "failed_to_start C depfailed immediate_stop x st =
     (let st = mark_failed_to_start depfailed x st
      in if immediate_stop then stopped C x st else Some st)"

definition notify_waiting_dept :: "did \<Rightarrow> sset \<Rightarrow> sset" where
  "notify_waiting_dept d st =
     (if waiting_on (deps st d)
      then upd_dep d (\<lambda>l. l\<lparr>waiting_on := False\<rparr>) (dependency_started (dep_from (deps st d)) st) else st)"

definition started :: "ctx \<Rightarrow> sid \<Rightarrow> sset \<Rightarrow> sset option" where
  "started C x st =
     do {
       st \<leftarrow> (if have_console (svcs st x) \<and> \<not> runs_on_console (onstart_flags (svcs st x))
             then release_console C x (emit Take_terminal st) else Some st);
       let st = emit (Log_started (service_name (svcs st x))) st;
       let st = upd_svc x (\<lambda>s. s\<lparr>service_state := STARTED\<rparr>) st;
       let st = notify_listeners x EV_STARTED st;
       let st = (if rw_ready (onstart_flags (svcs st x)) then emit Rootfs_is_rw st else st);
       let st = (if log_ready (onstart_flags (svcs st x)) then emit Setup_external_log st else st);
       if force_stop (svcs st x) \<or> desired_state (svcs st x) = STOPPED
       then do_stop (cx_fuel C) (cx_os C) x False st
       else Some (fold notify_waiting_dept (dependents (svcs st x)) st)
     }"

section \<open>Bringing services up\<close>

definition do_restart :: "ctx \<Rightarrow> sid \<Rightarrow> sset \<Rightarrow> sset option" where
  "do_restart C x st =
     (let st = upd_proc x (\<lambda>p. p\<lparr>waiting_restart_timer := False\<rparr>) st;
          state = service_state (svcs st x);
          (ok, st) = start_ps_process (cx_os C) x
                       (have_console (svcs st x) \<or> shares_console (onstart_flags (svcs st x))) st
      in if \<not> ok then
           do {
             st \<leftarrow> (if state = STARTING then failed_to_start C False True x st
                   else Some (unrecoverable_stop x st));
             cx_process C st
           }
         else Some (if start_timeout (procs st x) \<noteq> tv 0 0
                    then upd_proc x (\<lambda>p. p\<lparr>waiting_stopstart_timer := True\<rparr>)
                           (arm_timer_rel x (start_timeout (procs st x)) st)
                    else st))"

definition restart_ps_process :: "ctx \<Rightarrow> sid \<Rightarrow> sset \<Rightarrow> sset option" where
  "restart_ps_process C x st =
     (let (current_time, st) = ask (os_time (cx_os C)) st;
          tdiff = tv_minus current_time (last_start_time (procs st x))
      in if tv_le (restart_delay (procs st x)) tdiff then do_restart C x st
         else Some (upd_proc x (\<lambda>p. p\<lparr>waiting_restart_timer := True\<rparr>)
                      (arm_timer_rel x (tv_minus (restart_delay (procs st x)) tdiff) st)))"

definition process_bring_up :: "ctx \<Rightarrow> sid \<Rightarrow> sset \<Rightarrow> (bool \<times> sset) option" where
  "process_bring_up C x st =
     (let (sock_ok, st) = open_socket (cx_os C) x st
      in if \<not> sock_ok then Some (False, st)
         else if in_auto_restart (svcs st x) then
           do { st \<leftarrow> restart_ps_process C x st; Some (True, st) }
         else
           (let st = upd_proc x (\<lambda>p. p\<lparr>restart_interval_count := 0\<rparr>) st;
                flags = onstart_flags (svcs st x);
                (ok, st) = start_ps_process (cx_os C) x (starts_on_console flags \<or> shares_console flags) st;
                st = upd_proc x (\<lambda>p. p\<lparr>restart_interval_time := last_start_time p\<rparr>) st;
                st = (if ok then
                        (if start_timeout (procs st x) \<noteq> tv 0 0
                         then upd_proc x (\<lambda>p. p\<lparr>waiting_stopstart_timer := True\<rparr>)
                                (arm_timer_rel x (start_timeout (procs st x)) st)
                         else if waiting_stopstart_timer (procs st x)
                         then upd_proc x (\<lambda>p. p\<lparr>waiting_stopstart_timer := False\<rparr>) (stop_timer x st)
                         else st)
                      else st)
            in Some (ok, st)))"

definition bring_up :: "ctx \<Rightarrow> sid \<Rightarrow> sset \<Rightarrow> (bool \<times> sset) option" where
  "bring_up C x st =
     (case record_type (svcs st x) of
        PROCESS \<Rightarrow> process_bring_up C x st
      | BGPROCESS \<Rightarrow> process_bring_up C x st
      | SCRIPTED \<Rightarrow> process_bring_up C x st
      | TRIGGERED \<Rightarrow> (if is_triggered (svcs st x) then do { st \<leftarrow> started C x st; Some (True, st) } else Some (True, st))
      | _ \<Rightarrow> do { st \<leftarrow> started C x st; Some (True, st) })"

definition all_deps_started :: "ctx \<Rightarrow> sid \<Rightarrow> sset \<Rightarrow> sset option" where
  "all_deps_started C x st =
     (if starts_on_console (onstart_flags (svcs st x)) \<and> \<not> have_console (svcs st x)
      then Some (queue_for_console x st)
      else do {
        (ok, st) \<leftarrow> bring_up C x (upd_svc x (\<lambda>s. s\<lparr>waiting_for_deps := False\<rparr>) st);
        if \<not> ok then failed_to_start C False True x (upd_svc x (\<lambda>s. s\<lparr>service_state := STOPPING\<rparr>) st)
        else Some st
      })"

definition acquired_console_body :: "ctx \<Rightarrow> sid \<Rightarrow> sset \<Rightarrow> sset option" where
  "acquired_console_body C x st =
     (let st = upd_svc x (\<lambda>s. s\<lparr>waiting_for_console := False, have_console := True\<rparr>) st
      in if service_state (svcs st x) \<noteq> STARTING then release_console C x st
         else if check_deps_started st x then all_deps_started C x st
         else release_console C x st)"

section \<open>Bringing services down\<close>

definition arm_stop_timer :: "sid \<Rightarrow> sset \<Rightarrow> sset" where
  "arm_stop_timer x st =
     (if stop_timeout (procs st x) \<noteq> tv 0 0
      then upd_proc x (\<lambda>p. p\<lparr>waiting_stopstart_timer := True\<rparr>) (arm_timer_rel x (stop_timeout (procs st x)) st)
      else st)"

definition process_bring_down :: "ctx \<Rightarrow> sid \<Rightarrow> sset \<Rightarrow> sset option" where
  "process_bring_down C x st =
     (let p = procs st x
      in if stop_pid p \<noteq> -1 \<or> stop_issued p then Some st
         else if waiting_for_execstat (svcs st x) then Some st
         else if pid p \<noteq> -1 then
           (let (via_command, st) =
                  (if stop_command p \<noteq> [] then
                     (case start_stop_process (cx_os C) x st of
                        (True, st) \<Rightarrow> (True, st)
                      | (False, st) \<Rightarrow>
                          (False, kill_pg (cx_os C) x
                             (if term_signal (svcs st x) \<noteq> 0 then term_signal (svcs st x) else SIGKILL) st))
                   else if term_signal (svcs st x) \<noteq> 0
                   then (False, kill_pg (cx_os C) x (term_signal (svcs st x)) st)
                   else (False, st))
            in if \<not> via_command \<and> stop_pid (procs st x) = -1 \<and> \<not> tracking_child (procs st x)
               then stopped C x st
               else Some (arm_stop_timer x (upd_proc x (\<lambda>p. p\<lparr>stop_issued := True\<rparr>) st)))
         else
           (let st = upd_proc x (\<lambda>p. p\<lparr>doing_smooth_recovery := False\<rparr>) st;
                st = (if waiting_restart_timer (procs st x)
                      then upd_proc x (\<lambda>p. p\<lparr>waiting_restart_timer := False\<rparr>) (stop_timer x st) else st)
            in stopped C x st))"

definition scripted_bring_down :: "ctx \<Rightarrow> sid \<Rightarrow> sset \<Rightarrow> sset option" where
  "scripted_bring_down C x st =
     (if pid (procs st x) \<noteq> -1 then Some st
      else if stop_command (procs st x) = [] then stopped C x st
      else case start_ps_process (cx_os C) x False st of
             (False, st) \<Rightarrow> stopped C x st
           | (True, st) \<Rightarrow> Some (arm_stop_timer x st))"

definition bring_down :: "ctx \<Rightarrow> sid \<Rightarrow> sset \<Rightarrow> sset option" where
  "bring_down C x st =
     (case record_type (svcs st x) of
        PROCESS \<Rightarrow> process_bring_down C x st
      | BGPROCESS \<Rightarrow> process_bring_down C x st
      | SCRIPTED \<Rightarrow> scripted_bring_down C x st
      | _ \<Rightarrow> stopped C x st)"

section \<open>Propagation and execution\<close>

definition require_dep :: "did \<Rightarrow> sset \<Rightarrow> sset" where
  "require_dep d st =
     (if \<not> is_only_ordering (deps st d)
      then upd_dep d (\<lambda>l. l\<lparr>holding_acq := True\<rparr>) (require (dep_to (deps st d)) st) else st)"

definition propagate_pin_to :: "bool \<Rightarrow> did \<Rightarrow> sset \<Rightarrow> sset" where
  "propagate_pin_to dept_pin d st =
     (if is_hard (deps st d) \<and> dept_pinned_started (svcs st (dep_to (deps st d))) \<noteq> dept_pin
      then add_prop_queue (dep_to (deps st d)) (upd_svc (dep_to (deps st d)) (\<lambda>s. s\<lparr>prop_pin_dpt := True\<rparr>) st)
      else st)"

definition propagate_pin :: "ctx \<Rightarrow> sid \<Rightarrow> sset \<Rightarrow> sset option" where
  "propagate_pin C x st =
     (let dept_pin = list_ex (\<lambda>d. is_hard (deps st d) \<and> is_start_pinned (svcs st (dep_from (deps st d))))
                       (dependents (svcs st x))
      in if dept_pin \<noteq> dept_pinned_started (svcs st x) then
           (let st = upd_svc x (\<lambda>s. s\<lparr>dept_pinned_started := dept_pin\<rparr>) st;
                st = fold (propagate_pin_to dept_pin) (depends_on (svcs st x)) st;
                s = svcs st x
            in if \<not> dept_pinned_started s \<and> \<not> pinned_started s \<and>
                  (desired_state s = STOPPED \<or> force_stop s) \<and> service_state s = STARTED
               then do_stop (cx_fuel C) (cx_os C) x False st
               else Some st)
         else Some st)"

definition do_propagation :: "ctx \<Rightarrow> sid \<Rightarrow> sset \<Rightarrow> sset option" where
  "do_propagation C x st =
     do {
       let st = (if prop_require (svcs st x)
                 then upd_svc x (\<lambda>s. s\<lparr>prop_require := False\<rparr>) (fold require_dep (depends_on (svcs st x)) st)
                 else st);
       st \<leftarrow> (if prop_release (svcs st x)
             then do { st \<leftarrow> release_dependencies (cx_fuel C) (cx_os C) x st;
                       Some (upd_svc x (\<lambda>s. s\<lparr>prop_release := False\<rparr>) st) }
             else Some st);
       st \<leftarrow> (if prop_failure (svcs st x)
             then failed_to_start C True True x
                    (upd_svc x (\<lambda>s. s\<lparr>prop_failure := False, stop_reason := DEPFAILED, service_state := STOPPED\<rparr>) st)
             else Some st);
       let st = (if prop_start (svcs st x) then do_start x (upd_svc x (\<lambda>s. s\<lparr>prop_start := False\<rparr>) st) else st);
       st \<leftarrow> (if prop_stop (svcs st x)
             then do_stop (cx_fuel C) (cx_os C) x (in_user_restart (svcs st x))
                    (upd_svc x (\<lambda>s. s\<lparr>prop_stop := False\<rparr>) st)
             else Some st);
       if prop_pin_dpt (svcs st x) then propagate_pin C x st else Some st
     }"

definition execute_transition :: "ctx \<Rightarrow> sid \<Rightarrow> sset \<Rightarrow> sset option" where
  "execute_transition C x st =
     (if service_state (svcs st x) = STARTING then
        (if check_deps_started st x
         then all_deps_started C x (upd_svc x (\<lambda>s. s\<lparr>waiting_for_deps := False\<rparr>) st) else Some st)
      else if service_state (svcs st x) = STOPPING then
        (if stop_check_dependents st x then
           (let st = upd_svc x (\<lambda>s. s\<lparr>waiting_for_deps := False\<rparr>) st;
                st = (if kill_all_on_stop (onstart_flags (svcs st x))
                      then emit (Kill_all SIGKILL) (emit (Kill_all SIGTERM) st) else st)
            in bring_down C x st)
         else Some st)
      else Some st)"

text \<open>One round of the loop of \<^verbatim>\<open>process_queues\<close>; the propagation queue always goes first.\<close>

definition process_queues_step :: "ctx \<Rightarrow> sset \<Rightarrow> sset option" where
  "process_queues_step C st =
     (case prop_queue st of
        x # q \<Rightarrow> do_propagation C x (st\<lparr>prop_queue := q\<rparr>)
      | [] \<Rightarrow> (case stop_queue st of
                x # q \<Rightarrow> execute_transition C x (st\<lparr>stop_queue := q\<rparr>)
              | [] \<Rightarrow> Some st))"

section \<open>Tying the recursion\<close>

fun acquired_console :: "os_env \<Rightarrow> nat \<Rightarrow> sid \<Rightarrow> sset \<Rightarrow> sset option"
  and process_queues :: "os_env \<Rightarrow> nat \<Rightarrow> sset \<Rightarrow> sset option" where
  "acquired_console E 0 x st = None"
| "acquired_console E (Suc n) x st =
     acquired_console_body
       \<lparr>cx_os = E, cx_fuel = n, cx_acquired = acquired_console E n, cx_process = process_queues E n\<rparr> x st"
| "process_queues E 0 st = None"
| "process_queues E (Suc n) st =
     (if stop_queue st = [] \<and> prop_queue st = [] then Some st
      else do {
        st \<leftarrow> process_queues_step
               \<lparr>cx_os = E, cx_fuel = n, cx_acquired = acquired_console E n, cx_process = process_queues E n\<rparr> st;
        process_queues E n st
      })"

definition run_ctx :: "os_env \<Rightarrow> nat \<Rightarrow> ctx" where
  "run_ctx E n =
     \<lparr>cx_os = E, cx_fuel = n, cx_acquired = acquired_console E n, cx_process = process_queues E n\<rparr>"

section \<open>Commands\<close>

definition unpin :: "ctx \<Rightarrow> sid \<Rightarrow> sset \<Rightarrow> sset option" where
  "unpin C x st =
     do {
       st \<leftarrow> (if pinned_started (svcs st x) then
               (let st = upd_svc x (\<lambda>s. s\<lparr>pinned_started := False\<rparr>) st
                in if dept_pinned_started (svcs st x) then Some (True, st)
                   else
                     (let st = fold (propagate_pin_to False) (depends_on (svcs st x)) st
                      in if service_state (svcs st x) = STARTED then
                           (let st = (if required_by (svcs st x) = 0
                                      then add_prop_queue x (upd_svc x (\<lambda>s. s\<lparr>prop_release := True\<rparr>) st) else st)
                            in if desired_state (svcs st x) = STOPPED \<or> force_stop (svcs st x) then
                                 do {
                                   st \<leftarrow> do_stop (cx_fuel C) (cx_os C) x False st;
                                   st \<leftarrow> cx_process C st;
                                   Some (False, st)
                                 }
                               else Some (False, st))
                         else Some (False, st)))
             else Some (False, st));
       let (returned, st) = st;
       Some (if \<not> returned \<and> pinned_stopped (svcs st x) then upd_svc x (\<lambda>s. s\<lparr>pinned_stopped := False\<rparr>) st else st)
     }"

definition start_service :: "ctx \<Rightarrow> sid \<Rightarrow> sset \<Rightarrow> sset option" where
  "start_service C x st = cx_process C (start x st)"

definition stop_service :: "ctx \<Rightarrow> sid \<Rightarrow> sset \<Rightarrow> sset option" where
  "stop_service C x st = do { st \<leftarrow> stop (cx_fuel C) (cx_os C) x True st; cx_process C st }"

definition stop_all_services :: "ctx \<Rightarrow> shutdown_type_t \<Rightarrow> sset \<Rightarrow> sset option" where
  "stop_all_services C type st =
     do {
       let st = st\<lparr>restart_enabled := False, shutdown_type := type\<rparr>;
       st \<leftarrow> fold_opt (\<lambda>x st. do { st \<leftarrow> stop (cx_fuel C) (cx_os C) x False st; unpin C x st }) (records st) st;
       cx_process C st
     }"

definition set_trigger :: "ctx \<Rightarrow> sid \<Rightarrow> bool \<Rightarrow> sset \<Rightarrow> sset option" where
  "set_trigger C x new_trigger st =
     (let st = upd_svc x (\<lambda>s. s\<lparr>is_triggered := new_trigger\<rparr>) st
      in if new_trigger \<and> service_state (svcs st x) = STARTING \<and> \<not> waiting_for_deps (svcs st x)
         then started C x st else Some st)"

end
