(* ===== verification/Numbers.thy ===== *)
theory Numbers
  imports Prelude
begin

text \<open>
  Numbers in text, as the C library reads them: \<^verbatim>\<open>strtoull\<close>, and \<^verbatim>\<open>stoull\<close>, \<^verbatim>\<open>stoll\<close> and \<^verbatim>\<open>stoi\<close> with
  their exceptions.
\<close>

text \<open>The value of a digit (letters in either case count from ten).\<close>

definition digit_val :: "char \<Rightarrow> nat option" where
  "digit_val c =
     (let k = char_code c
      in if 48 \<le> k \<and> k \<le> 57 then Some (k - 48)
         else if 97 \<le> k \<and> k \<le> 122 then Some (k - 87)
         else if 65 \<le> k \<and> k \<le> 90 then Some (k - 55)
         else None)"

definition is_digit_of :: "nat \<Rightarrow> char \<Rightarrow> bool" where
  "is_digit_of base c \<longleftrightarrow> (case digit_val c of None \<Rightarrow> False | Some v \<Rightarrow> v < base)"

definition digits_value :: "nat \<Rightarrow> string \<Rightarrow> nat" where
  "digits_value base ds = foldl (\<lambda>v c. v * base + the (digit_val c)) 0 ds"

text \<open>
  \<^verbatim>\<open>strtoull(s, &eptr, 0)\<close>: \<open>None\<close> if nothing is converted (\<^verbatim>\<open>eptr == s\<close>) or the value is out of
  range (\<^verbatim>\<open>errno == ERANGE\<close>); a minus sign negates in 64-bit arithmetic.
\<close>

definition strtoull_auto :: "string \<Rightarrow> nat option" where
  "strtoull_auto s =
     (let s = dropWhile c_isspace s;
          neg = (s \<noteq> [] \<and> hd s = CHR ''-'');
          s = (if s \<noteq> [] \<and> (hd s = CHR ''-'' \<or> hd s = CHR ''+'') then tl s else s);
          hex = (length s \<ge> 3 \<and> s ! 0 = CHR ''0'' \<and> (s ! 1 = CHR ''x'' \<or> s ! 1 = CHR ''X'') \<and> is_digit_of 16 (s ! 2));
          base = (if hex then 16 else if s \<noteq> [] \<and> hd s = CHR ''0'' then 8 else 10);
          ds = takeWhile (is_digit_of base) (if hex then drop 2 s else s)
      in if ds = [] \<or> digits_value base ds \<ge> 2 ^ 64 then None
         else Some (if neg then (2 ^ 64 - digits_value base ds) mod 2 ^ 64 else digits_value base ds))"

text \<open>
  The common part of the conversions: white space, a sign, a base prefix (if the given base is 0, or
  16), digits. \<open>None\<close>: there are no digits. Otherwise the sign, the value and the rest of the text.
\<close>

definition scan_number :: "nat \<Rightarrow> string \<Rightarrow> (bool \<times> nat \<times> string) option" where
  "scan_number base s =
     (let s = dropWhile c_isspace s;
          neg = (s \<noteq> [] \<and> hd s = CHR ''-'');
          s = (if s \<noteq> [] \<and> (hd s = CHR ''-'' \<or> hd s = CHR ''+'') then tl s else s);
          hex = ((base = 0 \<or> base = 16) \<and> length s \<ge> 3 \<and> s ! 0 = CHR ''0'' \<and> (s ! 1 = CHR ''x'' \<or> s ! 1 = CHR ''X'') \<and>
                 is_digit_of 16 (s ! 2));
          b = (if base \<noteq> 0 then base else if hex then 16 else if s \<noteq> [] \<and> hd s = CHR ''0'' then 8 else 10);
          s = (if hex then drop 2 s else s);
          ds = takeWhile (is_digit_of b) s
      in if ds = [] then None else Some (neg, digits_value b ds, dropWhile (is_digit_of b) s))"

datatype number_result = Invalid_argument | Out_of_range | Number int string

text \<open>\<^verbatim>\<open>stoull\<close>: a negative number wraps around; the text behind the number is the rest.\<close>

definition stoull :: "nat \<Rightarrow> string \<Rightarrow> number_result" where
  "stoull base s =
     (case scan_number base s of
        None \<Rightarrow> Invalid_argument
      | Some (neg, v, rest) \<Rightarrow>
          if v \<ge> 2 ^ 64 then Out_of_range
          else Number (if neg then (- int v) mod 2 ^ 64 else int v) rest)"

definition sto_signed :: "nat \<Rightarrow> nat \<Rightarrow> string \<Rightarrow> number_result" where
  "sto_signed bits base s =
     (case scan_number base s of
        None \<Rightarrow> Invalid_argument
      | Some (neg, v, rest) \<Rightarrow>
          let i = (if neg then - int v else int v)
          in if i < - (2 ^ (bits - 1)) \<or> i \<ge> 2 ^ (bits - 1) then Out_of_range else Number i rest)"

abbreviation stoll :: "nat \<Rightarrow> string \<Rightarrow> number_result" where
  "stoll \<equiv> sto_signed 64"

abbreviation stoi :: "nat \<Rightarrow> string \<Rightarrow> number_result" where
  "stoi \<equiv> sto_signed 32"

section \<open>Writing numbers\<close>

text \<open>\<^verbatim>\<open>to_dec_digits\<close>: the digits are computed in reverse, then reversed.\<close>

definition digit_char :: "nat \<Rightarrow> char" where
  "digit_char d = char_of (48 + d)"

fun rev_digits :: "nat \<Rightarrow> string" where
  "rev_digits n = (if n = 0 then [] else digit_char (n mod 10) # rev_digits (n div 10))"

declare rev_digits.simps [simp del]

definition to_dec_digits :: "int \<Rightarrow> string" where
  "to_dec_digits val =
     (if val < 0 then ''-'' else []) @ (if val = 0 then ''0'' else rev (rev_digits (nat \<bar>val\<bar>)))"

section \<open>Reading back what was written\<close>

lemma digit_val_digit_char: "d < 10 \<Longrightarrow> digit_val (digit_char d) = Some d"
  by (simp add: digit_val_def digit_char_def char_code_def)

lemma is_digit_of_digit_char: "d < 10 \<Longrightarrow> d < b \<Longrightarrow> is_digit_of b (digit_char d)"
  by (simp add: is_digit_of_def digit_val_digit_char)

lemma digits_value_append: "digits_value b (ds @ [c]) = digits_value b ds * b + the (digit_val c)"
  by (simp add: digits_value_def)

lemma rev_digits_value: "digits_value 10 (rev (rev_digits n)) = n"
proof (induction n rule: rev_digits.induct)
  case (1 n)
  show ?case
  proof (cases "n = 0")
    case False
    with 1 show ?thesis
      by (subst rev_digits.simps) (simp add: digits_value_append digit_val_digit_char)
  qed (simp add: rev_digits.simps digits_value_def)
qed

lemma rev_digits_all: "c \<in> set (rev_digits n) \<Longrightarrow> \<exists>d < 10. c = digit_char d"
proof (induction n rule: rev_digits.induct)
  case (1 n)
  then show ?case by (subst (asm) (2) rev_digits.simps) (auto split: if_splits intro: exI [of _ "n mod 10"])
qed

lemma rev_digits_last: "n > 0 \<Longrightarrow> \<exists>d. 0 < d \<and> d < 10 \<and> last (rev_digits n) = digit_char d \<and> rev_digits n \<noteq> []"
proof (induction n rule: rev_digits.induct)
  case (1 n)
  show ?case
  proof (cases "n < 10")
    case True
    with 1(2) show ?thesis by (auto simp: rev_digits.simps [of n] rev_digits.simps [of 0])
  next
    case False
    then obtain d where "0 < d" "d < 10" "last (rev_digits (n div 10)) = digit_char d" "rev_digits (n div 10) \<noteq> []"
      using 1 by (auto simp: div_greater_zero_iff)
    with False show ?thesis by (auto simp: rev_digits.simps [of n])
  qed
qed

lemma digit_char_inj: "d < 10 \<Longrightarrow> e < 10 \<Longrightarrow> digit_char d = digit_char e \<longleftrightarrow> d = e"
  by (metis digit_val_digit_char option.inject)

lemma digit_char_plain:
  assumes "d < 10"
  shows "\<not> c_isspace (digit_char d)" "digit_char d \<noteq> CHR ''-''" "digit_char d \<noteq> CHR ''+''"
    "digit_char d \<noteq> CHR ''x''" "digit_char d \<noteq> CHR ''X''" "digit_char d = CHR ''0'' \<longleftrightarrow> d = 0" "digit_char d \<noteq> CHR '':''" "digit_char d \<noteq> CHR 0x00"
proof -
  have code: "char_code (digit_char d) = 48 + d" using assms by (simp add: char_code_def digit_char_def)
  have other: "digit_char d \<noteq> c" if "char_code c < 48 \<or> 57 < char_code c" for c using code assms that by auto
  show "\<not> c_isspace (digit_char d)" unfolding c_isspace_def using other by (auto simp: char_code_def)
  show "digit_char d \<noteq> CHR ''-''" "digit_char d \<noteq> CHR ''+''" "digit_char d \<noteq> CHR ''x''" "digit_char d \<noteq> CHR ''X''"
    "digit_char d \<noteq> CHR '':''" "digit_char d \<noteq> CHR 0x00"
    by (rule other, simp add: char_code_def)+
  show "digit_char d = CHR ''0'' \<longleftrightarrow> d = 0"
  proof
    assume "digit_char d = CHR ''0''"
    then have "char_code (digit_char d) = 48" by (simp add: char_code_def)
    with code show "d = 0" by simp
  next
    assume "d = 0"
    then show "digit_char d = CHR ''0''" by (simp add: digit_char_def char_of_eq_iff)
  qed
qed

lemma takeWhile_digits:
  assumes "\<forall>c\<in>set ds. \<exists>d < 10. c = digit_char d" "rest = [] \<or> \<not> is_digit_of b (hd rest)" "10 \<le> b"
  shows "takeWhile (is_digit_of b) (ds @ rest) = ds" "dropWhile (is_digit_of b) (ds @ rest) = rest"
proof -
  have "\<forall>c\<in>set ds. is_digit_of b c" using assms(1,3) is_digit_of_digit_char by fastforce
  then show "takeWhile (is_digit_of b) (ds @ rest) = ds" "dropWhile (is_digit_of b) (ds @ rest) = rest"
    using assms(2) by (auto simp: takeWhile_append2 dropWhile_append2 takeWhile_eq_Nil_iff dropWhile_eq_self_iff)
qed

text \<open>A positive decimal number followed by anything but a digit is read as that number.\<close>

lemma scan_decimal:
  assumes "n > 0" "rest = [] \<or> \<not> is_digit_of 10 (hd rest)"
  shows "scan_number 0 (rev (rev_digits n) @ rest) = Some (False, n, rest)"
proof -
  obtain d where d: "0 < d" "d < 10" "last (rev_digits n) = digit_char d" "rev_digits n \<noteq> []"
    using rev_digits_last [OF assms(1)] by blast
  define s where "s = rev (rev_digits n) @ rest"
  have s: "s \<noteq> []" "hd s = digit_char d" using d by (simp_all add: s_def hd_rev)
  have ws: "dropWhile c_isspace s = s" using s digit_char_plain(1) [OF d(2)] by (simp add: dropWhile_eq_self_iff)
  have z: "hd s \<noteq> CHR ''0''" "s ! 0 \<noteq> CHR ''0''" using s digit_char_plain(6) [OF d(2)] d(1) by (simp_all add: hd_conv_nth)
  have "takeWhile (is_digit_of 10) s = rev (rev_digits n)" "dropWhile (is_digit_of 10) s = rest"
    unfolding s_def using takeWhile_digits [of "rev (rev_digits n)" rest 10] rev_digits_all assms(2) by auto
  then show ?thesis
    using s z d(4) digit_char_plain(2,3) [OF d(2)] unfolding s_def [symmetric]
    by (simp add: scan_number_def ws Let_def rev_digits_value)
qed

lemma scan_zero: "scan_number 0 ''0'' = Some (False, 0, [])"
  by (simp add: scan_number_def c_isspace_def is_digit_of_def digit_val_def char_code_def digits_value_def)

end
