(* ===== verification/Process_Events.thy ===== *)
theory Process_Events
  imports Service_Run Numbers
begin

text \<open>
  What the event loop calls back on process-based services (\<^verbatim>\<open>proc-service.cc\<close>,
  \<^verbatim>\<open>baseproc-service.cc\<close>): the exec status arrives, a process ends, a readiness notification is
  readable, a timer expires, output is available for the log buffer.
\<close>

section \<open>Reading a pid file\<close>

datatype pid_result_t = PID_OK | PID_FAILED | PID_TERMINATED

definition pid_max :: nat where "pid_max = 2 ^ 31 - 1"

abbreviation set_pid :: "sid \<Rightarrow> int \<Rightarrow> sset \<Rightarrow> sset" where
  "set_pid x v \<equiv> upd_proc x (\<lambda>p. p\<lparr>pid := v\<rparr>)"

definition read_pid_file :: "os_env \<Rightarrow> sid \<Rightarrow> sset \<Rightarrow> pid_result_t \<times> sset" where
  "read_pid_file E x st =
     (case ask (os_read_file E) st of
         (None, st) \<Rightarrow> (PID_FAILED, st)
       | (Some contents, st) \<Rightarrow>
           (case strtoull_auto (take 20 contents) of
              None \<Rightarrow> (PID_FAILED, set_pid x (-1) st)
            | Some v \<Rightarrow>
                if v \<le> pid_max then
                  (case ask (os_waitid E) (set_pid x (int v) st) of
                     (Waitid_ECHILD, st) \<Rightarrow>
                       (let (alive, st) = ask (os_process_exists E) st
                        in if alive then (PID_OK, upd_proc x (\<lambda>p. p\<lparr>tracking_child := False\<rparr>) st)
                           else (PID_FAILED, set_pid x (-1) st))
                   | (Waitid_exited ps, st) \<Rightarrow>
                       (PID_TERMINATED, upd_proc x (\<lambda>p. p\<lparr>pid := -1, exit_status := ps\<rparr>) st)
                   | (Waitid_running, st) \<Rightarrow>
                       (PID_OK, upd_proc x (\<lambda>p. p\<lparr>tracking_child := True, reserved_child_watch := True\<rparr>) st)
                   | (Waitid_error, st) \<Rightarrow> (PID_FAILED, set_pid x (-1) st))
                else (PID_FAILED, set_pid x (-1) st)))"

section \<open>Common parts\<close>

text \<open>Stop the start/stop timer if it is running.\<close>

definition cancel_stopstart_timer :: "sid \<Rightarrow> sset \<Rightarrow> sset" where
  "cancel_stopstart_timer x st =
     (if waiting_stopstart_timer (procs st x)
      then upd_proc x (\<lambda>p. p\<lparr>waiting_stopstart_timer := False\<rparr>) (stop_timer x st) else st)"

definition close_notification_fd :: "sid \<Rightarrow> sset \<Rightarrow> sset" where
  "close_notification_fd x st =
     (if notification_fd (procs st x) \<noteq> -1
      then upd_proc x (\<lambda>p. p\<lparr>notification_fd := -1\<rparr>) (close_fd (notification_fd (procs st x)) st) else st)"

definition set_stop_reason :: "sid \<Rightarrow> stopped_reason_t \<Rightarrow> sset \<Rightarrow> sset" where
  "set_stop_reason x r = upd_svc x (\<lambda>s. s\<lparr>stop_reason := r\<rparr>)"

definition set_state :: "sid \<Rightarrow> service_state_t \<Rightarrow> sset \<Rightarrow> sset" where
  "set_state x v = upd_svc x (\<lambda>s. s\<lparr>service_state := v\<rparr>)"

definition wants_restart :: "sset \<Rightarrow> sid \<Rightarrow> bool" where
  "wants_restart st x \<longleftrightarrow> desired_state (svcs st x) = STARTED \<and> \<not> pinned_stopped (svcs st x)"

definition handle_unexpected_termination :: "ctx \<Rightarrow> sid \<Rightarrow> sset \<Rightarrow> sset option" where
  "handle_unexpected_termination C x st =
     do {
       st \<leftarrow> do_stop (cx_fuel C) (cx_os C) x False
              (upd_svc x (\<lambda>s. s\<lparr>force_stop := True\<rparr>) (set_stop_reason x TERMINATED st));
       st \<leftarrow> cx_process C st;
       if service_state (svcs st x) = STOPPING \<and> wants_restart st x
       then cx_process C (initiate_start x st)
       else Some st
     }"

text \<open>\<^verbatim>\<open>restart_ps_process\<close> always reports success, so the failure branch of
  \<^verbatim>\<open>do_smooth_recovery\<close> is never taken.\<close>

definition do_smooth_recovery :: "ctx \<Rightarrow> sid \<Rightarrow> sset \<Rightarrow> sset option" where
  "do_smooth_recovery C x st = restart_ps_process C x st"

section \<open>A process ends\<close>

definition process_handle_exit_status :: "ctx \<Rightarrow> sid \<Rightarrow> sset \<Rightarrow> sset option" where
  "process_handle_exit_status C x st =
     (let current_state = service_state (svcs st x);
          st = close_notification_fd x st;
          current_state = (if waiting_stopstart_timer (procs st x) \<and> current_state = STARTED
                           then STARTING else current_state);
          st = cancel_stopstart_timer x st
      in if current_state = STARTING then
           do { st \<leftarrow> failed_to_start C False True x (set_stop_reason x FAILED st); cx_process C st }
         else if current_state = STOPPING then
           do {
             st \<leftarrow> (if \<not> waiting_for_deps (svcs st x) then
                     (if stop_pid (procs st x) = -1 \<and> \<not> waiting_for_execstat (svcs st x)
                      then stopped C x (upd_proc x (\<lambda>p. p\<lparr>stop_issued := False\<rparr>) st)
                      else Some st)
                   else if wants_restart st x then Some (initiate_start x st)
                   else Some st);
             cx_process C st
           }
         else
           (let (recover, st) = (if smooth_recovery (svcs st x) \<and> current_state = STARTED
                                 then check_restart (cx_os C) x st else (False, st))
            in if recover then do_smooth_recovery C x (upd_proc x (\<lambda>p. p\<lparr>doing_smooth_recovery := True\<rparr>) st)
               else do { st \<leftarrow> handle_unexpected_termination C x st; cx_process C st }))"

text \<open>
  The body of \<^verbatim>\<open>bgproc_service::handle_exit_status\<close>; its result says whether control goes back to
  the label \<^verbatim>\<open>begin\<close> (the daemon whose pid was read had already terminated).
\<close>

definition failed_exit :: "proc_status \<Rightarrow> bool" where
  "failed_exit es \<longleftrightarrow> (did_exit es \<and> wait_si_status es \<noteq> 0) \<or> was_signalled es"

definition bgproc_recovery_stopping :: "ctx \<Rightarrow> sid \<Rightarrow> sset \<Rightarrow> sset option" where
  "bgproc_recovery_stopping C x st =
     (if failed_exit (exit_status (procs st x)) then
        do {
          st \<leftarrow> (if \<not> waiting_for_deps (svcs st x) then stopped C x st
                else if wants_restart st x then Some (initiate_start x st) else Some st);
          cx_process C st
        }
      else if pid_file (procs st x) \<noteq> [] then
        (let (r, st) = read_pid_file (cx_os C) x st
         in if waiting_for_deps (svcs st x) then Some st
            else do {
              st \<leftarrow> (if r = PID_OK then bring_down C x st else stopped C x st);
              cx_process C st
            })
      else cx_process C st)"

definition bgproc_recovery_started :: "ctx \<Rightarrow> sid \<Rightarrow> sset \<Rightarrow> (bool \<times> sset) option" where
  "bgproc_recovery_started C x st =
     (let (r, st) = (if failed_exit (exit_status (procs st x)) then (PID_FAILED, st)
                     else if pid_file (procs st x) \<noteq> [] then read_pid_file (cx_os C) x st
                     else (PID_OK, st))
      in case r of
           PID_TERMINATED \<Rightarrow> Some (True, st)
         | PID_OK \<Rightarrow> Some (False, st)
         | PID_FAILED \<Rightarrow>
             do { st \<leftarrow> cx_process C (unrecoverable_stop x (set_stop_reason x TERMINATED st)); Some (False, st) })"

definition bgproc_exit_starting :: "ctx \<Rightarrow> sid \<Rightarrow> sset \<Rightarrow> (bool \<times> sset) option" where
  "bgproc_exit_starting C x st =
     (let (r, st) = (if did_exit_clean (exit_status (procs st x)) then read_pid_file (cx_os C) x st
                     else (PID_FAILED, st))
      in case r of
           PID_FAILED \<Rightarrow>
             do { st \<leftarrow> failed_to_start C False True x (set_stop_reason x FAILED st);
                  st \<leftarrow> cx_process C st; Some (False, st) }
         | PID_TERMINATED \<Rightarrow> do { st \<leftarrow> started C x st; Some (True, st) }
         | PID_OK \<Rightarrow> do { st \<leftarrow> started C x st; st \<leftarrow> cx_process C st; Some (False, st) })"

definition bgproc_exit_started :: "ctx \<Rightarrow> sid \<Rightarrow> sset \<Rightarrow> sset option" where
  "bgproc_exit_started C x st =
     (let (recover, st) = (if smooth_recovery (svcs st x) \<and> desired_state (svcs st x) = STARTED
                           then check_restart (cx_os C) x st else (False, st))
      in if recover then
           do {
             st \<leftarrow> do_smooth_recovery C x (upd_proc x (\<lambda>p. p\<lparr>doing_smooth_recovery := True\<rparr>) st);
             Some (if service_state (svcs st x) \<noteq> STARTED
                   then upd_proc x (\<lambda>p. p\<lparr>doing_smooth_recovery := False\<rparr>) st else st)
           }
         else do { st \<leftarrow> handle_unexpected_termination C x st; cx_process C st })"

definition bgproc_exit_round :: "ctx \<Rightarrow> sid \<Rightarrow> sset \<Rightarrow> (bool \<times> sset) option" where
  "bgproc_exit_round C x st =
     (let current_state = service_state (svcs st x);
          st = cancel_stopstart_timer x st
      in if doing_smooth_recovery (procs st x) then
           (let st = upd_proc x (\<lambda>p. p\<lparr>doing_smooth_recovery := False\<rparr>) st
            in if current_state = STOPPING
               then do { st \<leftarrow> bgproc_recovery_stopping C x st; Some (False, st) }
               else bgproc_recovery_started C x st)
         else if current_state = STARTING then bgproc_exit_starting C x st
         else if current_state = STOPPING then
           do {
             st \<leftarrow> (if stop_pid (procs st x) = -1 \<and> \<not> waiting_for_execstat (svcs st x)
                   then stopped C x (upd_proc x (\<lambda>p. p\<lparr>stop_issued := False\<rparr>) st) else Some st);
             st \<leftarrow> cx_process C st;
             Some (False, st)
           }
         else do { st \<leftarrow> bgproc_exit_started C x st; Some (False, st) })"

primrec bgproc_handle_exit_rounds :: "nat \<Rightarrow> ctx \<Rightarrow> sid \<Rightarrow> sset \<Rightarrow> sset option" where
  "bgproc_handle_exit_rounds 0 C x st = None"
| "bgproc_handle_exit_rounds (Suc k) C x st =
     do {
       (again, st) \<leftarrow> bgproc_exit_round C x st;
       if again then bgproc_handle_exit_rounds k C x st else Some st
     }"

definition bgproc_handle_exit_status :: "ctx \<Rightarrow> sid \<Rightarrow> sset \<Rightarrow> sset option" where
  "bgproc_handle_exit_status C = bgproc_handle_exit_rounds (cx_fuel C) C"

definition scripted_handle_exit_status :: "ctx \<Rightarrow> sid \<Rightarrow> sset \<Rightarrow> sset option" where
  "scripted_handle_exit_status C x st =
     (let es = exit_status (procs st x)
      in if service_state (svcs st x) = STOPPING then
           do {
             st \<leftarrow> (if interrupting_start (procs st x) then
                     do {
                       let st = cancel_stopstart_timer x st;
                       st \<leftarrow> (if did_exit es \<and> wait_si_status es \<noteq> 0 then stopped C x st else bring_down C x st);
                       Some (upd_proc x (\<lambda>p. p\<lparr>interrupting_start := False\<rparr>) st)
                     }
                   else stopped C x st);
             cx_process C st
           }
         else
           do {
             st \<leftarrow> (if did_exit_clean es then started C x st
                   else if was_signalled es \<and> wait_si_status es = SIGINT \<and> skippable (onstart_flags (svcs st x))
                   then started C x (upd_svc x (\<lambda>s. s\<lparr>start_skipped := True\<rparr>) st)
                   else failed_to_start C False True x (set_stop_reason x FAILED st));
             cx_process C st
           })"

definition handle_exit_status :: "ctx \<Rightarrow> sid \<Rightarrow> sset \<Rightarrow> sset option" where
  "handle_exit_status C x st =
     (case record_type (svcs st x) of
        PROCESS \<Rightarrow> process_handle_exit_status C x st
      | BGPROCESS \<Rightarrow> bgproc_handle_exit_status C x st
      | SCRIPTED \<Rightarrow> scripted_handle_exit_status C x st
      | _ \<Rightarrow> Some st)"

text \<open>\<^verbatim>\<open>service_child_watcher::status_change\<close>\<close>

definition child_status_change :: "ctx \<Rightarrow> sid \<Rightarrow> proc_status \<Rightarrow> sset \<Rightarrow> sset option" where
  "child_status_change C x status st =
     (let st = upd_proc x (\<lambda>p. p\<lparr>pid := -1, exit_status := status\<rparr>) st
      in if waiting_for_execstat (svcs st x) then Some st
         else handle_exit_status C x (cancel_stopstart_timer x st))"

definition handle_stop_exit :: "ctx \<Rightarrow> sid \<Rightarrow> sset \<Rightarrow> sset option" where
  "handle_stop_exit C x st =
     (if pid (procs st x) = -1 \<or> \<not> tracking_child (procs st x)
      then stopped C x (upd_proc x (\<lambda>p. p\<lparr>stop_issued := False\<rparr>) st)
      else Some st)"

text \<open>\<^verbatim>\<open>stop_child_watcher::status_change\<close>\<close>

definition stop_child_status_change :: "ctx \<Rightarrow> sid \<Rightarrow> proc_status \<Rightarrow> sset \<Rightarrow> sset option" where
  "stop_child_status_change C x status st =
     (let st = upd_proc x (\<lambda>p. p\<lparr>stop_pid := -1, stop_status := status\<rparr>) st
      in if waiting_for_execstat (svcs st x) then Some st
         else do { st \<leftarrow> handle_stop_exit C x st; cx_process C st })"

section \<open>The exec status arrives\<close>

definition process_exec_succeeded :: "ctx \<Rightarrow> sid \<Rightarrow> sset \<Rightarrow> sset option" where
  "process_exec_succeeded C x st =
     (let st = upd_proc x (\<lambda>p. p\<lparr>tracking_child := True\<rparr>) st
      in if service_state (svcs st x) = STARTING then
           (if force_notification_fd (procs st x) \<noteq> -1 \<or> notification_var (procs st x) \<noteq> [] then Some st
            else started C x (cancel_stopstart_timer x st))
         else if service_state (svcs st x) = STARTED then
           Some (if notification_fd (procs st x) = -1 then cancel_stopstart_timer x st else st)
         else if service_state (svcs st x) = STOPPING then
           (if stop_check_dependents st x then bring_down C x st else Some st)
         else Some st)"

definition exec_succeeded :: "ctx \<Rightarrow> sid \<Rightarrow> sset \<Rightarrow> sset option" where
  "exec_succeeded C x st =
     (if record_type (svcs st x) = PROCESS then process_exec_succeeded C x st else Some st)"

definition process_exec_failed :: "ctx \<Rightarrow> sid \<Rightarrow> sset \<Rightarrow> sset option" where
  "process_exec_failed C x st =
     (let st = close_notification_fd x (cancel_stopstart_timer x st)
      in if service_state (svcs st x) = STARTING
         then failed_to_start C False True x (set_state x STOPPING (set_stop_reason x EXECFAILED st))
         else Some (unrecoverable_stop x (set_stop_reason x TERMINATED
                      (upd_proc x (\<lambda>p. p\<lparr>doing_smooth_recovery := False\<rparr>) st))))"

definition bgproc_exec_failed :: "ctx \<Rightarrow> sid \<Rightarrow> sset \<Rightarrow> sset option" where
  "bgproc_exec_failed C x st =
     (let st = cancel_stopstart_timer x st
      in if doing_smooth_recovery (procs st x)
         then Some (unrecoverable_stop x (set_stop_reason x TERMINATED
                      (upd_proc x (\<lambda>p. p\<lparr>doing_smooth_recovery := False\<rparr>) st)))
         else failed_to_start C False True x (set_state x STOPPING (set_stop_reason x EXECFAILED st)))"

definition scripted_exec_failed :: "ctx \<Rightarrow> sid \<Rightarrow> sset \<Rightarrow> sset option" where
  "scripted_exec_failed C x st =
     (if service_state (svcs st x) = STARTING
      then failed_to_start C False True x (set_stop_reason x EXECFAILED st)
      else if service_state (svcs st x) = STOPPING then stopped C x st
      else Some st)"

definition exec_failed :: "ctx \<Rightarrow> sid \<Rightarrow> sset \<Rightarrow> sset option" where
  "exec_failed C x st =
     (case record_type (svcs st x) of
        PROCESS \<Rightarrow> process_exec_failed C x st
      | BGPROCESS \<Rightarrow> bgproc_exec_failed C x st
      | SCRIPTED \<Rightarrow> scripted_exec_failed C x st
      | _ \<Rightarrow> Some st)"

text \<open>
  \<^verbatim>\<open>exec_status_pipe_watcher::fd_event\<close>; \<open>failed\<close> says that an error record could be read from the
  pipe (otherwise the exec closed it).
\<close>

definition exec_status_event :: "ctx \<Rightarrow> sid \<Rightarrow> bool \<Rightarrow> sset \<Rightarrow> sset option" where
  "exec_status_event C x failed st =
     (let st = upd_svc x (\<lambda>s. s\<lparr>waiting_for_execstat := False\<rparr>) st
      in do {
           st \<leftarrow> (if failed then
                   (let st = (if pid (procs st x) \<noteq> -1
                              then cancel_stopstart_timer x (upd_proc x (\<lambda>p. p\<lparr>reserved_child_watch := False\<rparr>) st)
                              else st)
                    in exec_failed C x (upd_proc x (\<lambda>p. p\<lparr>pid := -1\<rparr>) st))
                 else do {
                   st \<leftarrow> exec_succeeded C x st;
                   if pid (procs st x) = -1 then handle_exit_status C x st else Some st
                 });
           cx_process C st
         })"

text \<open>\<^verbatim>\<open>stop_status_pipe_watcher::fd_event\<close>\<close>

definition stop_status_event :: "ctx \<Rightarrow> sid \<Rightarrow> bool \<Rightarrow> sset \<Rightarrow> sset option" where
  "stop_status_event C x failed st =
     (let st = upd_svc x (\<lambda>s. s\<lparr>waiting_for_execstat := False\<rparr>) st
      in do {
           st \<leftarrow> (if failed then
                   (if stop_pid (procs st x) \<noteq> -1 then
                      (let st = upd_proc x (\<lambda>p. p\<lparr>reserved_child_watch := False, stop_pid := -1\<rparr>) st
                       in if pid (procs st x) \<noteq> -1 then
                            (let st = (if term_signal (svcs st x) \<noteq> 0
                                       then kill_pg (cx_os C) x (term_signal (svcs st x)) st else st)
                             in if \<not> tracking_child (procs st x)
                                then stopped C x (upd_proc x (\<lambda>p. p\<lparr>stop_issued := False\<rparr>) st)
                                else Some st)
                          else Some st)
                    else Some st)
                 else if stop_pid (procs st x) = -1 then handle_stop_exit C x st
                 else Some st);
           cx_process C st
         })"

section \<open>Readiness notification\<close>

datatype read_reply = Read_data nat | Read_eof | Read_EAGAIN | Read_error

definition ready_notify_event :: "ctx \<Rightarrow> sid \<Rightarrow> read_reply \<Rightarrow> sset \<Rightarrow> sset option" where
  "ready_notify_event C x r st =
     (if service_state (svcs st x) = STARTING then
        do {
          st \<leftarrow> (case r of
                   Read_data k \<Rightarrow> started C x (cancel_stopstart_timer x st)
                 | Read_EAGAIN \<Rightarrow> Some st
                 | _ \<Rightarrow> do {
                     st \<leftarrow> failed_to_start C False False x (set_state x STOPPING (cancel_stopstart_timer x st));
                     bring_down C x st
                   });
          cx_process C st
        }
      else Some (if r = Read_eof then close_notification_fd x st else st))"

section \<open>Timers\<close>

definition base_kill_with_fire :: "os_env \<Rightarrow> sid \<Rightarrow> sset \<Rightarrow> sset" where
  "base_kill_with_fire E x st = (if pid (procs st x) \<noteq> -1 then kill_pg E x SIGKILL st else st)"

definition kill_with_fire :: "os_env \<Rightarrow> sid \<Rightarrow> sset \<Rightarrow> sset" where
  "kill_with_fire E x st =
     (let st = base_kill_with_fire E x st
      in if (record_type (svcs st x) = PROCESS \<or> record_type (svcs st x) = BGPROCESS) \<and> stop_pid (procs st x) \<noteq> -1
         then let (pgid, st) = ask (os_getpgid E) st;
                  pgid = (if pgid = -1 then stop_pid (procs st x) else pgid)
              in emit (Kill (- pgid) SIGKILL) st
         else st)"

definition timer_expired :: "ctx \<Rightarrow> sid \<Rightarrow> sset \<Rightarrow> sset option" where
  "timer_expired C x st =
     (let st = upd_proc x (\<lambda>p. p\<lparr>waiting_stopstart_timer := False, process_timer := None\<rparr>) st
      in if service_state (svcs st x) = STOPPING then Some (kill_with_fire (cx_os C) x st)
         else if pid (procs st x) \<noteq> -1 then
           failed_to_start C False False x
             (set_stop_reason x TIMEDOUT (snd (interrupt_start (cx_os C) x st)))
         else do_restart C x st)"

section \<open>Output for the log buffer\<close>

datatype rearm = REARM | DISARM | REMOVED

definition close_log_fds :: "sid \<Rightarrow> sset \<Rightarrow> rearm \<times> sset" where
  "close_log_fds x st =
     (REMOVED, upd_proc x (\<lambda>p. p\<lparr>log_input_fd := -1, log_output_fd := -1\<rparr>)
                 (close_fd (log_output_fd (procs st x)) (close_fd (log_input_fd (procs st x)) st)))"

text \<open>\<open>avail\<close>: what a read of at most the given number of bytes would return.\<close>

definition log_output_event :: "os_env \<Rightarrow> sid \<Rightarrow> (nat \<Rightarrow> string + read_reply) \<Rightarrow> sset \<Rightarrow> rearm \<times> sset" where
  "log_output_event E x avail st =
     (let p = procs st x
      in if log_buf_size p \<ge> log_buf_max p then
           (case avail 1024 of
              Inl bytes \<Rightarrow> if bytes = [] then close_log_fds x st else (REARM, st)
            | Inr Read_EAGAIN \<Rightarrow> (REARM, st)
            | Inr _ \<Rightarrow> close_log_fds x st)
         else
           (let max_read = min (max (log_buf_max p div 8) 256) (log_buf_max p - log_buf_size p);
                new_size = log_buf_size p + max_read
            in case ensure_log_buffer_backing E x new_size st of
                 (False, st) \<Rightarrow> (DISARM, st)
               | (True, st) \<Rightarrow>
                   (let max_read = length (log_buffer (procs st x)) - log_buf_size (procs st x)
                    in case avail max_read of
                         Inl bytes \<Rightarrow>
                           if bytes = [] then close_log_fds x st
                           else (REARM, upd_proc x (\<lambda>p. p\<lparr>log_buffer := store_at (log_buffer p) (log_buf_size p) bytes,
                                                          log_buf_size := log_buf_size p + length bytes\<rparr>) st)
                       | Inr Read_EAGAIN \<Rightarrow> (REARM, st)
                       | Inr _ \<Rightarrow> close_log_fds x st)))"

definition clear_log_buffer :: "sid \<Rightarrow> sset \<Rightarrow> sset" where
  "clear_log_buffer x = upd_proc x (\<lambda>p. p\<lparr>log_buffer := [], log_buffer_cap := 0, log_buf_size := 0\<rparr>)"

definition set_log_mode :: "sid \<Rightarrow> log_type_id \<Rightarrow> sset \<Rightarrow> sset" where
  "set_log_mode x ty st =
     (let p = procs st x
      in if log_type p = ty then st
         else let st = (if log_output_fd p \<noteq> -1 \<and> ty \<noteq> LOG_BUFFER \<and> ty \<noteq> LOG_PIPE
                        then upd_proc x (\<lambda>p. p\<lparr>log_output_fd := -1, log_input_fd := -1\<rparr>)
                               (close_fd (log_input_fd p) (close_fd (log_output_fd p) st))
                        else st)
              in upd_proc x (\<lambda>p. p\<lparr>log_type := ty\<rparr>) st)"

end
