(* ===== verification/Step_Relations.thy ===== *)
theory Step_Relations
  imports Process_Events
begin

text \<open>
  A step relation holds between the states before and after every operation of the service
  manager as soon as it is reflexive, transitive and closed under the primitive changes the code
  makes to a service set. The locale states that contract; its lemmas lift it, operation by
  operation, to the whole code of the preceding theories.
\<close>

section \<open>Primitive changes\<close>

definition same_links :: "sset \<Rightarrow> sset \<Rightarrow> bool" where
  "same_links a b \<longleftrightarrow>
     (\<forall>x. depends_on (svcs b x) = depends_on (svcs a x) \<and> dependents (svcs b x) = dependents (svcs a x)) \<and>
     (\<forall>d. dep_from (deps b d) = dep_from (deps a d) \<and> dep_to (deps b d) = dep_to (deps a d) \<and>
          dep_type (deps b d) = dep_type (deps a d))"

text \<open>
  A quiet update of a service leaves its links, its acquisition count, its explicit activation and
  its configuration alone, and sets the desired state only to one of the two final states.
\<close>

definition quiet :: "(service_record \<Rightarrow> service_record) \<Rightarrow> bool" where
  "quiet f \<longleftrightarrow> (\<forall>s.
     depends_on (f s) = depends_on s \<and> dependents (f s) = dependents s \<and>
     required_by (f s) = required_by s \<and> start_explicit (f s) = start_explicit s \<and>
     service_name (f s) = service_name s \<and> record_type (f s) = record_type s \<and>
     onstart_flags (f s) = onstart_flags s \<and> auto_restart (f s) = auto_restart s \<and>
     desired_state (f s) \<in> {desired_state s, STARTED, STOPPED})"

text \<open>A calm update moreover leaves the state and the start pins alone.\<close>

definition calm :: "(service_record \<Rightarrow> service_record) \<Rightarrow> bool" where
  "calm f \<longleftrightarrow> quiet f \<and> (\<forall>s. service_state (f s) = service_state s \<and>
     pinned_started (f s) = pinned_started s \<and> dept_pinned_started (f s) = dept_pinned_started s)"

lemmas calm_defs = calm_def quiet_def

abbreviation inc_required :: "sid \<Rightarrow> sset \<Rightarrow> sset" where
  "inc_required x \<equiv> upd_svc x (\<lambda>s. s\<lparr>required_by := required_by s + 1\<rparr>)"

abbreviation dec_required :: "sid \<Rightarrow> sset \<Rightarrow> sset" where
  "dec_required x \<equiv> upd_svc x (\<lambda>s. s\<lparr>required_by := required_by s - 1\<rparr>)"

abbreviation hold_link :: "did \<Rightarrow> sset \<Rightarrow> sset" where
  "hold_link d \<equiv> upd_dep d (\<lambda>l. l\<lparr>holding_acq := True\<rparr>)"

abbreviation drop_link :: "did \<Rightarrow> sset \<Rightarrow> sset" where
  "drop_link d \<equiv> upd_dep d (\<lambda>l. l\<lparr>holding_acq := False\<rparr>)"

lemma same_links_refl [simp]: "same_links a a"
  by (simp add: same_links_def)

lemma same_linksD:
  assumes "same_links a b"
  shows "dependents (svcs b x) = dependents (svcs a x)" "depends_on (svcs b x) = depends_on (svcs a x)"
    "dep_to (deps b d) = dep_to (deps a d)" "dep_from (deps b d) = dep_from (deps a d)"
    "dep_type (deps b d) = dep_type (deps a d)"
  using assms by (simp_all add: same_links_def)

lemma same_links_trans: "same_links a b \<Longrightarrow> same_links b c \<Longrightarrow> same_links a c"
  by (simp add: same_links_def)

lemma require_upd_dep: "require x (upd_dep d f st) = upd_dep d f (require x st)"
  by (simp add: require_def add_prop_queue_def upd_svc_def upd_dep_def Let_def)

lemma dec_clear_explicit:
  "upd_svc x (\<lambda>s. s\<lparr>start_explicit := False, required_by := required_by s - 1\<rparr>) st =
     dec_required x (upd_svc x (\<lambda>s. s\<lparr>start_explicit := False\<rparr>) st)"
  by (simp add: upd_svc_def)

locale calm_relation =
  fixes R :: "sset \<Rightarrow> sset \<Rightarrow> bool"
  assumes refl: "R a a"
    and trans: "R a b \<Longrightarrow> R b c \<Longrightarrow> R a c"
    and links: "R a b \<Longrightarrow> same_links a b"
    and calm: "calm f \<Longrightarrow> R a (upd_svc x f a)"
    and proc: "R a (upd_proc x g a)"
    and wait: "R a (upd_dep d (\<lambda>l. l\<lparr>waiting_on := w\<rparr>) a)"
    and propq: "R a (a\<lparr>prop_queue := q\<rparr>)"
    and stopq: "R a (a\<lparr>stop_queue := q\<rparr>)"
    and consq: "R a (a\<lparr>console_queue := q\<rparr>)"
    and calls: "R a (a\<lparr>os_calls := Suc (os_calls a)\<rparr>)"
    and effect: "R a (emit e a)"
    and deactivate: "start_explicit (svcs a x) \<Longrightarrow>
          R a (dec_required x (upd_svc x (\<lambda>s. s\<lparr>start_explicit := False\<rparr>) a))"
    and drop: "holding_acq (deps a d) \<Longrightarrow> d \<in> set (dependents (svcs a x)) \<Longrightarrow>
          R a (dec_required x (drop_link d a))"
begin

text \<open>The same, with an earlier state on the left: the form in which proofs run backwards.\<close>

lemma step_let: "R a t \<Longrightarrow> (\<And>y. R a y \<Longrightarrow> R a (f y)) \<Longrightarrow> R a (let y = t in f y)"
  by simp

lemma step_let_val: "(\<And>y. R a (f y)) \<Longrightarrow> R a (let y = t in f y)"
  by simp

lemma step_prod: "R a (snd t) \<Longrightarrow> (\<And>v y. R a y \<Longrightarrow> R a (f v y)) \<Longrightarrow> R a (case t of (v, y) \<Rightarrow> f v y)"
  by (cases t) simp

lemma step_if: "(b \<Longrightarrow> R a s) \<Longrightarrow> (\<not> b \<Longrightarrow> R a t) \<Longrightarrow> R a (if b then s else t)"
  by simp

lemma step_calm: "R a st \<Longrightarrow> calm f \<Longrightarrow> R a (upd_svc x f st)"
  by (rule trans, assumption, rule calm) assumption

lemma step_proc: "R a st \<Longrightarrow> R a (upd_proc x g st)"
  by (rule trans, assumption, rule proc)

lemma step_wait: "R a st \<Longrightarrow> R a (upd_dep d (\<lambda>l. l\<lparr>waiting_on := w\<rparr>) st)"
  by (rule trans, assumption, rule wait)

lemma step_queues:
  "R a st \<Longrightarrow> R a (st\<lparr>prop_queue := q\<rparr>)" "R a st \<Longrightarrow> R a (st\<lparr>stop_queue := q\<rparr>)"
  "R a st \<Longrightarrow> R a (st\<lparr>console_queue := q\<rparr>)"
  by (rule trans, assumption, rule propq stopq consq)+

lemma step_emit: "R a st \<Longrightarrow> R a (emit e st)" "R a st \<Longrightarrow> R a (notify_listeners x ev st)"
  unfolding notify_listeners_def by (rule trans, assumption, rule effect)+

lemma step_ask: "R a st \<Longrightarrow> R a (snd (ask q st))"
  unfolding ask_def snd_conv by (rule trans, assumption, rule calls)

lemma step_drop:
  "R a st \<Longrightarrow> holding_acq (deps st d) \<Longrightarrow> d \<in> set (dependents (svcs a x)) \<Longrightarrow> R a (dec_required x (drop_link d st))"
  by (rule trans, assumption, rule drop) (simp_all add: same_linksD [OF links])

lemma dept_back: "d \<in> set (dependents (svcs st x)) \<Longrightarrow> R a st \<Longrightarrow> d \<in> set (dependents (svcs a x))"
  by (simp add: same_linksD [OF links])

lemma dep_back: "d \<in> set (depends_on (svcs st x)) \<Longrightarrow> R a st \<Longrightarrow> d \<in> set (depends_on (svcs a x))"
  by (simp add: same_linksD [OF links])

lemma step_deactivate:
  "R a st \<Longrightarrow> start_explicit (svcs st x) \<Longrightarrow> R a (dec_required x (upd_svc x (\<lambda>s. s\<lparr>start_explicit := False\<rparr>) st))"
  by (rule trans, assumption, rule deactivate) assumption

lemma step_fold:
  assumes "\<And>d s. d \<in> set ds \<Longrightarrow> R a s \<Longrightarrow> R a (f d s)" and "R a st"
  shows "R a (fold f ds st)"
  using assms by (induction ds arbitrary: st) auto

lemma snd_if: "(b \<Longrightarrow> R a (snd s)) \<Longrightarrow> (\<not> b \<Longrightarrow> R a (snd t)) \<Longrightarrow> R a (snd (if b then s else t))"
  by simp

lemma snd_let: "R a t \<Longrightarrow> (\<And>y. R a y \<Longrightarrow> R a (snd (f y))) \<Longrightarrow> R a (snd (let y = t in f y))"
  by simp

lemma snd_let_val: "(\<And>y. R a (snd (f y))) \<Longrightarrow> R a (snd (let y = t in f y))"
  by simp

lemma snd_prod: "R a (snd t) \<Longrightarrow> (\<And>v y. R a y \<Longrightarrow> R a (snd (f v y))) \<Longrightarrow> R a (snd (case t of (v, y) \<Rightarrow> f v y))"
  by (cases t) simp

lemma snd_let_prod: "R a (snd t) \<Longrightarrow> (\<And>v y. R a y \<Longrightarrow> R a (snd (f v y))) \<Longrightarrow> R a (snd (let (v, y) = t in f v y))"
  by (cases t) simp

lemma step_let_prod: "R a (snd t) \<Longrightarrow> (\<And>v y. R a y \<Longrightarrow> R a (f v y)) \<Longrightarrow> R a (let (v, y) = t in f v y)"
  by (cases t) simp

lemma snd_option: "(\<And>v. R a (snd (f v))) \<Longrightarrow> R a (snd s) \<Longrightarrow> R a (snd (case t of None \<Rightarrow> s | Some v \<Rightarrow> f v))"
  by (cases t) simp_all

lemma snd_bool: "R a (snd s) \<Longrightarrow> R a (snd s') \<Longrightarrow> R a (snd (case t of True \<Rightarrow> s | False \<Rightarrow> s'))"
  by (cases t) simp_all

lemma step_option: "(\<And>v. R a (f v)) \<Longrightarrow> R a s \<Longrightarrow> R a (case t of None \<Rightarrow> s | Some v \<Rightarrow> f v)"
  by (cases t) simp_all

lemma step_bool: "R a s \<Longrightarrow> R a s' \<Longrightarrow> R a (case t of True \<Rightarrow> s | False \<Rightarrow> s')"
  by (cases t) simp_all

lemma snd_prod_prod: "(\<And>v w. R a (snd (f v w))) \<Longrightarrow> R a (snd (case t of (v, w) \<Rightarrow> f v w))"
  by (cases t) simp

lemma step_prod_val: "(\<And>v w. R a (f v w)) \<Longrightarrow> R a (case t of (v, w) \<Rightarrow> f v w)"
  by (cases t) simp

lemma snd_pair: "R a st \<Longrightarrow> R a (snd (v, st))"
  by simp

lemmas flow = step_if step_let_prod step_let step_let_val step_prod step_option step_bool
lemmas snd_flow = snd_pair snd_if snd_let_prod snd_let snd_let_val snd_prod snd_option snd_bool

lemmas calm_rules = step_if step_calm step_proc step_wait step_queues step_emit step_ask

lemma yields_step: "R a st \<Longrightarrow> yields (R a) (Some st)"
  by (rule yields_Some)

lemma yields_let_step: "R a t \<Longrightarrow> (\<And>y. R a y \<Longrightarrow> yields Q (f y)) \<Longrightarrow> yields Q (let y = t in f y)"
  by simp

lemma yields_let_val: "(\<And>y. yields Q (f y)) \<Longrightarrow> yields Q (let y = t in f y)"
  by simp

lemma yields_let_prod:
  "R a (snd t) \<Longrightarrow> (\<And>v y. R a y \<Longrightarrow> yields Q (f v y)) \<Longrightarrow> yields Q (let (v, y) = t in f v y)"
  by (cases t) simp

lemma yields_case_prod:
  "R a (snd t) \<Longrightarrow> (\<And>v y. R a y \<Longrightarrow> yields Q (f v y)) \<Longrightarrow> yields Q (case t of (v, y) \<Rightarrow> f v y)"
  by (cases t) simp

lemma yields_bind_step: "yields (R a) m \<Longrightarrow> (\<And>y. R a y \<Longrightarrow> yields Q (f y)) \<Longrightarrow> yields Q (Option.bind m f)"
  by (rule yields_bind) (erule yields_weaken)

lemma yields_bind_snd:
  "yields (\<lambda>r. R a (snd r)) m \<Longrightarrow> (\<And>v y. R a y \<Longrightarrow> yields Q (f (v, y))) \<Longrightarrow> yields Q (Option.bind m f)"
  by (rule yields_bind) (erule yields_weaken, metis prod.collapse)

lemma yields_pair: "R a st \<Longrightarrow> yields (\<lambda>r. R a (snd r)) (Some (v, st))"
  by (simp add: yields_def)

lemma yields_bool: "yields Q s \<Longrightarrow> yields Q s' \<Longrightarrow> yields Q (case t of True \<Rightarrow> s | False \<Rightarrow> s')"
  by (cases t) simp_all

lemma yields_let_own:
  "R a t \<Longrightarrow> (\<And>y. R a y \<Longrightarrow> yields (R a) (f y)) \<Longrightarrow> yields (R a) (let y = t in f y)"
  "R a t \<Longrightarrow> (\<And>y. R a y \<Longrightarrow> yields (\<lambda>r. R a (snd r)) (g y)) \<Longrightarrow> yields (\<lambda>r. R a (snd r)) (let y = t in g y)"
  by simp_all

lemmas yields_flow = yields_step yields_pair yields_if yields_let_prod yields_let_own yields_let_step yields_let_val
  yields_case_prod yields_bind_step yields_bind_snd yields_bool

section \<open>Bookkeeping shared by starting and stopping\<close>

lemma add_queue: "R a st \<Longrightarrow> R a (add_prop_queue x st)" "R a st \<Longrightarrow> R a (add_transition_queue x st)"
  unfolding add_prop_queue_def add_transition_queue_def by (rule calm_rules, assumption)+

lemma console_queues: "R a st \<Longrightarrow> R a (append_console_queue x st)" "R a st \<Longrightarrow> R a (unqueue_console x st)"
  "R a st \<Longrightarrow> R a (queue_for_console x st)"
  unfolding append_console_queue_def unqueue_console_def queue_for_console_def Let_def
  by (assumption | rule calm_rules | simp add: calm_defs)+

lemma timers: "R a st \<Longrightarrow> R a (arm_timer_rel x t st)" "R a st \<Longrightarrow> R a (stop_timer x st)"
  unfolding arm_timer_rel_def stop_timer_def by (rule calm_rules, assumption)+

lemma kill_pg: "R a st \<Longrightarrow> R a (kill_pg E x signo st)"
  unfolding kill_pg_def Let_def
  by (assumption | rule calm_rules step_prod)+

lemmas decide_base = add_queue console_queues timers kill_pg flow snd_flow
lemmas decide_calm = calm_rules decide_base

lemma process_check_restart: "R a st \<Longrightarrow> R a (snd (process_check_restart E x st))"
  unfolding process_check_restart_def
  by (assumption | rule decide_calm | simp add: calm_defs)+

lemma check_restart: "R a st \<Longrightarrow> R a (snd (check_restart E x st))"
  unfolding check_restart_def
  by (cases "record_type (svcs st x)") (simp_all add: process_check_restart)

lemma release_count: "R a (dec_required x st) \<Longrightarrow> R a (release_count x st)"
  unfolding release_count_def
  by (assumption | rule decide_calm | simp add: calm_defs)+

lemma release_dropped:
  "R a st \<Longrightarrow> holding_acq (deps st d) \<Longrightarrow> d \<in> set (dependents (svcs a x)) \<Longrightarrow> R a (release_count x (drop_link d st))"
  by (rule release_count, rule step_drop)

lemma release_deactivated:
  "R a st \<Longrightarrow> start_explicit (svcs st x) \<Longrightarrow> R a (release_count x (upd_svc x (\<lambda>s. s\<lparr>start_explicit := False\<rparr>) st))"
  by (rule release_count, rule step_deactivate)

lemma notifications:
  "R a st \<Longrightarrow> R a (dependency_started x st)" "R a st \<Longrightarrow> R a (dependent_stopped x st)"
  "R a st \<Longrightarrow> R a (forced_stop x st)" "R a st \<Longrightarrow> R a (unrecoverable_stop x st)"
  unfolding dependency_started_def dependent_stopped_def unrecoverable_stop_def forced_stop_def
  by (assumption | rule decide_calm | simp add: calm_defs)+

lemma break_soft_link:
  "R a st \<Longrightarrow> d \<in> set (dependents (svcs a x)) \<Longrightarrow> R a (break_soft_link x d st)"
  unfolding break_soft_link_def
  by (assumption | rule release_dropped notifications decide_calm)+

lemma stop_dependent:
  assumes rel: "\<And>y st. R a (dec_required y st) \<Longrightarrow> yields (R a) (rel y st)"
    and st: "R a (snd r)" and d: "d \<in> set (dependents (svcs a x))"
  shows "yields (\<lambda>r. R a (snd r)) (stop_dependent rel x fr rd d r)"
  unfolding stop_dependent_def
  by (insert st d) (assumption | rule yields_flow rel step_deactivate break_soft_link notifications decide_calm
      | simp add: calm_defs)+

lemma stop_dependents:
  assumes "\<And>y st. R a (dec_required y st) \<Longrightarrow> yields (R a) (rel y st)" and "R a st"
  shows "yields (\<lambda>r. R a (snd r)) (stop_dependents rel x fr rd st)"
  unfolding stop_dependents_def
  by (rule yields_fold_opt, rule stop_dependent [OF assms(1)])
    (insert assms(2), (assumption | erule (1) dept_back | simp)+)

lemma release_with:
  assumes "\<And>st. R a st \<Longrightarrow> yields (R a) (ds x False st)" and "R a (dec_required x st)"
  shows "yields (R a) (release_with ds x issue st)"
  unfolding release_with_def
  by (insert assms(2)) (assumption | rule assms(1) yields_flow release_count decide_calm | simp add: calm_defs)+

end

section \<open>Stopping and releasing\<close>

locale quiet_relation = calm_relation +
  assumes svc: "quiet f \<Longrightarrow> R a (upd_svc x f a)"
begin

lemma step_svc: "R a st \<Longrightarrow> quiet f \<Longrightarrow> R a (upd_svc x f st)"
  by (rule trans, assumption, rule svc) assumption

lemmas quiet_rules = step_if step_svc step_proc step_wait step_queues step_emit step_ask decide_base

lemma process_interrupt_start: "R a st \<Longrightarrow> R a (snd (process_interrupt_start E x st))"
  unfolding process_interrupt_start_def
  by (assumption | rule quiet_rules | simp add: quiet_def)+

lemma interrupt_start: "R a st \<Longrightarrow> R a (snd (interrupt_start E x st))"
  unfolding interrupt_start_def scripted_interrupt_start_def
  by (cases "record_type (svcs st x)")
    (simp_all only: service_type_t.case, (assumption | rule quiet_rules process_interrupt_start)+)

lemma do_stop_finish: "R a st \<Longrightarrow> R a (do_stop_finish E x b st)"
  unfolding do_stop_finish_def begin_stopping_def
  by (assumption | rule interrupt_start quiet_rules | simp add: quiet_def)+

lemma do_stop_body:
  assumes "\<And>y st. R a (dec_required y st) \<Longrightarrow> yields (R a) (rel y st)" and "R a st"
  shows "yields (R a) (do_stop_body E rel x w st)"
  unfolding do_stop_body_def
  by (insert assms(2)) (assumption | rule yields_flow stop_dependents [OF assms(1)] do_stop_finish release_deactivated check_restart quiet_rules
      | simp add: quiet_def)+

lemma do_stop: "R a st \<Longrightarrow> yields (R a) (do_stop n E x w st)"
proof (induction n arbitrary: x w st)
  case 0
  then show ?case by simp
next
  case (Suc n)
  show ?case
    unfolding do_stop.simps
    by (rule do_stop_body, rule release_with, rule Suc.IH) (assumption | rule Suc.prems)+
qed

lemma release: "R a (dec_required x st) \<Longrightarrow> yields (R a) (release n E x issue st)"
  unfolding release_def by (rule release_with) (rule do_stop)

lemma stop: "R a st \<Longrightarrow> yields (R a) (stop n E x b st)"
  unfolding stop_def dec_clear_explicit
  by (assumption | rule yields_flow do_stop step_deactivate quiet_rules | simp add: quiet_def)+

lemma restart: "R a st \<Longrightarrow> yields (\<lambda>r. R a (snd r)) (restart n E x st)"
  unfolding restart_def
  by (assumption | rule yields_flow do_stop quiet_rules | simp add: quiet_def)+

end

section \<open>Relations kept by every operation\<close>

locale step_relation = quiet_relation +
  assumes drop_own: "holding_acq (deps a d) \<Longrightarrow> d \<in> set (depends_on (svcs a y)) \<Longrightarrow>
          R a (dec_required (dep_to (deps a d)) (drop_link d a))"
    and active: "R a (a\<lparr>active_services := k\<rparr>)"
    and shutdown: "R a (a\<lparr>restart_enabled := False, shutdown_type := ty\<rparr>)"
    and activate: "\<not> start_explicit (svcs a x) \<Longrightarrow>
          R a (upd_svc x (\<lambda>s. s\<lparr>required_by := required_by s + 1, start_explicit := True\<rparr>) a)"
    and hold: "R a (inc_required (dep_to (deps a d)) (hold_link d a))"
    and hold_dept: "d \<in> set (dependents (svcs a x)) \<Longrightarrow> R a (inc_required x (hold_link d a))"
begin

lemma step_drop_own:
  assumes "R a st" "holding_acq (deps st d)" "d \<in> set (depends_on (svcs a y))"
  shows "R a (dec_required (dep_to (deps st d)) (drop_link d st))"
  using assms(2,3) by (intro trans [OF assms(1) drop_own [where y = y]]) (simp_all add: same_linksD(2) [OF links [OF assms(1)]])

lemma step_globals:
  "R a st \<Longrightarrow> R a (st\<lparr>active_services := k\<rparr>)"
  "R a st \<Longrightarrow> R a (st\<lparr>restart_enabled := False, shutdown_type := ty\<rparr>)"
  by (rule trans, assumption, rule active shutdown)+

lemmas step_rules = step_if step_svc step_proc step_wait step_queues step_globals step_emit step_ask

lemma active_count: "R a st \<Longrightarrow> R a (service_active x st)" "R a st \<Longrightarrow> R a (service_inactive x st)"
  unfolding service_active_def service_inactive_def by (rule step_rules, assumption)+

lemmas decide_rules = step_rules active_count decide_base

lemma require: "R a (inc_required x st) \<Longrightarrow> R a (require x st)"
  unfolding require_def
  by (assumption | rule decide_rules | simp add: quiet_def)+

lemma check_dep_start: "R a (snd r) \<Longrightarrow> R a (snd (check_dep_start d r))"
  unfolding check_dep_start_def
  by (assumption | rule decide_rules)+

lemma check_ordering_dept: "R a st \<Longrightarrow> R a (check_ordering_dept d st)"
  unfolding check_ordering_dept_def
  by (assumption | rule decide_rules)+

lemma snd_fold:
  assumes "\<And>d r. R a (snd r) \<Longrightarrow> R a (snd (f d r))" and "R a (snd r)"
  shows "R a (snd (fold f ds r))"
  using assms by (induction ds arbitrary: r) auto

lemma start_check_dependencies: "R a st \<Longrightarrow> R a (snd (start_check_dependencies x st))"
  unfolding start_check_dependencies_def
  by (assumption | rule decide_rules snd_fold step_fold check_dep_start check_ordering_dept)+

lemma initiate_start: "R a st \<Longrightarrow> R a (initiate_start x st)"
  unfolding initiate_start_def
  by (assumption | rule start_check_dependencies decide_rules | simp add: quiet_def)+

lemmas start_rules = release_deactivated initiate_start notifications decide_rules

lemma step_dependency_type:
  "R a r \<Longrightarrow> R a m \<Longrightarrow> R a s \<Longrightarrow> R a w \<Longrightarrow> R a b \<Longrightarrow> R a f \<Longrightarrow>
     R a (case t of REGULAR \<Rightarrow> r | SOFT \<Rightarrow> s | WAITS_FOR \<Rightarrow> w | MILESTONE \<Rightarrow> m | BEFORE \<Rightarrow> b | AFTER \<Rightarrow> f)"
  by (cases t) simp_all

lemma cancel_dependent_start:
  "R a st \<Longrightarrow> d \<in> set (dependents (svcs a x)) \<Longrightarrow> R a (cancel_dependent_start x d st)"
  unfolding cancel_dependent_start_def
  by (assumption | rule step_dependency_type release_dropped notifications decide_rules | simp add: quiet_def)+

lemma mark_failed_to_start: "R a st \<Longrightarrow> R a (mark_failed_to_start dp x st)"
  unfolding mark_failed_to_start_def
  by (assumption | rule start_rules step_fold cancel_dependent_start | erule (1) dept_back | simp add: quiet_def)+

lemma reattach_soft_dept:
  assumes "R a st" "d \<in> set (dependents (svcs a x))"
  shows "R a (reattach_soft_dept x d st)"
proof -
  have "d \<in> set (dependents (svcs st x))" using assms by (simp add: same_linksD [OF links])
  then have h: "R a (inc_required x (hold_link d st))" by (rule trans [OF assms(1) hold_dept])
  show ?thesis
    unfolding reattach_soft_dept_def by (insert assms(1) h) (assumption | rule require step_if step_let_val)+
qed

lemma do_start: "R a st \<Longrightarrow> R a (do_start x st)"
  unfolding do_start_def
  by (assumption | rule mark_failed_to_start start_rules step_fold reattach_soft_dept
      | erule (1) dept_back | simp add: quiet_def)+

lemma start: "R a st \<Longrightarrow> R a (start x st)"
  unfolding start_def
  by (assumption | rule do_start step_let step_if | rule trans, assumption, rule activate)+

lemma release_dep: "R a st \<Longrightarrow> d \<in> set (depends_on (svcs a y)) \<Longrightarrow> yields (R a) (release_dep n E d st)"
  unfolding release_dep_def
  by (assumption | rule yields_flow release step_drop_own)+

lemma release_dependencies: "R a st \<Longrightarrow> yields (R a) (release_dependencies n E x st)"
  unfolding release_dependencies_def
  by (rule yields_fold_opt, rule release_dep) (assumption | erule (1) dep_back)+

lemma pins: "R a st \<Longrightarrow> R a (pin_start x st)" "R a st \<Longrightarrow> R a (pin_stop x st)"
  unfolding pin_start_def pin_stop_def
  by (assumption | rule step_fold decide_rules | simp add: quiet_def)+

end

end
