(* ===== verification/Step_Run.thy ===== *)
theory Step_Run
  imports Step_Relations Process_Events
begin

text \<open>
  The step-relation contract lifted to launching processes, to the execution phase with its two
  re-entrant entry points, and to every callback of the event loop.
\<close>

section \<open>Launching processes\<close>

context step_relation
begin

lemma close_fd: "R a st \<Longrightarrow> R a (close_fd fd st)"
  unfolding close_fd_def by (rule step_emit)

lemma snd_case_pair: "R a (snd t) \<Longrightarrow> (\<And>v y. R a y \<Longrightarrow> R a (snd (f v y))) \<Longrightarrow> R a (snd (case t of (v, y) \<Rightarrow> f v y))"
  by (cases t) simp

lemma snd_pair_val: "(\<And>v w. R a (snd (f v w))) \<Longrightarrow> R a (snd (case t of (v, w) \<Rightarrow> f v w))"
  by (cases t) simp

lemma open_pair: "R a st \<Longrightarrow> R a (snd (open_pair q st))"
  unfolding open_pair_def
  by (assumption | rule decide_rules snd_pair_val)+

lemmas launch_rules = open_pair close_fd decide_rules snd_pair_val step_prod_val

lemma ensure_log_buffer_backing: "R a st \<Longrightarrow> R a (snd (ensure_log_buffer_backing E x k st))"
  unfolding ensure_log_buffer_backing_def
  by (assumption | rule launch_rules)+

lemma append_restart_note: "R a st \<Longrightarrow> R a (append_restart_note E x st)"
  unfolding append_restart_note_def
  by (assumption | rule ensure_log_buffer_backing launch_rules)+

lemma output_pipes:
  "R a st \<Longrightarrow> R a (snd (get_output_pipe_fd E x st))" "R a st \<Longrightarrow> R a (snd (transfer_output_pipe x st))"
  unfolding get_output_pipe_fd_def transfer_output_pipe_def
  by (assumption | rule launch_rules)+

lemma get_input_fd: "R a st \<Longrightarrow> R a (snd (get_input_fd E x st))"
  unfolding get_input_fd_def
  by (assumption | rule output_pipes launch_rules)+

lemma open_socket: "R a st \<Longrightarrow> R a (snd (open_socket E x st))"
  unfolding open_socket_def
  by (assumption | rule launch_rules)+

lemma becoming_inactive: "R a st \<Longrightarrow> R a (becoming_inactive x st)"
  unfolding becoming_inactive_def
  by (assumption | rule launch_rules)+

lemma cleanup:
  "R a st \<Longrightarrow> R a (snd (out_p fds st))" "R a st \<Longrightarrow> R a (snd (out_lfd x fds st))"
  "R a st \<Longrightarrow> R a (snd (out_cs x fds cs st))" "R a st \<Longrightarrow> R a (snd (out_cs_h x fds ocs np st))"
  unfolding out_cs_h_def out_cs_def out_lfd_def out_p_def
  by (assumption | rule launch_rules)+

lemma fork_process: "R a st \<Longrightarrow> R a (snd (fork_process E x c fds ocs np st))"
  unfolding fork_process_def
  by (assumption | rule cleanup launch_rules | simp add: quiet_def)+

lemma open_notify_pipe: "R a st \<Longrightarrow> R a (snd (open_notify_pipe E x c fds ocs st))"
  unfolding open_notify_pipe_def
  by (assumption | rule fork_process append_restart_note cleanup launch_rules)+

lemma open_control_socket: "R a st \<Longrightarrow> R a (snd (open_control_socket E x c fds st))"
  unfolding open_control_socket_def
  by (assumption | rule open_notify_pipe cleanup launch_rules)+

lemma open_log_pipe: "R a st \<Longrightarrow> R a (snd (open_log_pipe E x c fds st))"
  unfolding open_log_pipe_def
  by (assumption | rule open_control_socket cleanup launch_rules)+

lemma start_ps_process: "R a st \<Longrightarrow> R a (snd (start_ps_process E x c st))"
  unfolding start_ps_process_def
  by (assumption | rule open_log_pipe get_input_fd launch_rules)+

lemma start_stop_process: "R a st \<Longrightarrow> R a (snd (start_stop_process E x st))"
  unfolding start_stop_process_def
  by (assumption | rule cleanup launch_rules | simp add: quiet_def)+

end

section \<open>Execution\<close>

context step_relation
begin

text \<open>The two re-entrant entry points a context carries follow the relation.\<close>

definition follows :: "sset \<Rightarrow> ctx \<Rightarrow> bool" where
  "follows a C \<longleftrightarrow> (\<forall>x st. R a st \<longrightarrow> yields (R a) (cx_acquired C x st)) \<and>
                   (\<forall>st. R a st \<longrightarrow> yields (R a) (cx_process C st))"

lemma followsD:
  "follows a C \<Longrightarrow> R a st \<Longrightarrow> yields (R a) (cx_acquired C x st)"
  "follows a C \<Longrightarrow> R a st \<Longrightarrow> yields (R a) (cx_process C st)"
  by (simp_all add: follows_def)

lemma yields_option_step:
  "(\<And>v. yields Q (f v)) \<Longrightarrow> yields Q s \<Longrightarrow> yields Q (case t of None \<Rightarrow> s | Some v \<Rightarrow> f v)"
  by (cases t) simp_all

lemma yields_list_step:
  "yields Q s \<Longrightarrow> (\<And>v vs. yields Q (f v vs)) \<Longrightarrow> yields Q (case t of [] \<Rightarrow> s | v # vs \<Rightarrow> f v vs)"
  by (cases t) simp_all

lemma yields_service_type:
  "yields Q l \<Longrightarrow> yields Q p \<Longrightarrow> yields Q b \<Longrightarrow> yields Q s \<Longrightarrow> yields Q i \<Longrightarrow> yields Q t \<Longrightarrow>
     yields Q (case v of PLACEHOLDER \<Rightarrow> l | PROCESS \<Rightarrow> p | BGPROCESS \<Rightarrow> b | SCRIPTED \<Rightarrow> s | INTERNAL \<Rightarrow> i | TRIGGERED \<Rightarrow> t)"
  by (cases v) simp_all

lemmas run_flow = followsD yields_flow yields_option_step yields_list_step launch_rules

lemma pull_console_queue: "follows a C \<Longrightarrow> R a st \<Longrightarrow> yields (R a) (pull_console_queue C st)"
  unfolding pull_console_queue_def
  by (assumption | rule run_flow)+

lemma release_console: "follows a C \<Longrightarrow> R a st \<Longrightarrow> yields (R a) (release_console C x st)"
  unfolding release_console_def
  by (assumption | rule pull_console_queue run_flow | simp add: quiet_def)+

lemma chain_start: "R a st \<Longrightarrow> R a (chain_start x w st)"
  unfolding chain_start_def
  by (assumption | rule start launch_rules)+

lemma stopped: "follows a C \<Longrightarrow> R a st \<Longrightarrow> yields (R a) (stopped C x st)"
  unfolding stopped_def
  by (assumption | rule release_console chain_start becoming_inactive break_soft_link start_rules step_fold run_flow
     | erule (1) dept_back | simp add: quiet_def)+

lemma failed_to_start: "follows a C \<Longrightarrow> R a st \<Longrightarrow> yields (R a) (failed_to_start C dp im x st)"
  unfolding failed_to_start_def
  by (assumption | rule stopped mark_failed_to_start run_flow)+

lemma notify_waiting_dept: "R a st \<Longrightarrow> R a (notify_waiting_dept d st)"
  unfolding notify_waiting_dept_def
  by (assumption | rule notifications launch_rules)+

lemma started: "follows a C \<Longrightarrow> R a st \<Longrightarrow> yields (R a) (started C x st)"
  unfolding started_def
  by (assumption | rule release_console do_stop step_fold notify_waiting_dept run_flow | simp add: quiet_def)+

lemma do_restart: "follows a C \<Longrightarrow> R a st \<Longrightarrow> yields (R a) (do_restart C x st)"
  unfolding do_restart_def
  by (assumption | rule start_ps_process failed_to_start notifications run_flow | simp add: quiet_def)+

lemma restart_ps_process: "follows a C \<Longrightarrow> R a st \<Longrightarrow> yields (R a) (restart_ps_process C x st)"
  unfolding restart_ps_process_def
  by (assumption | rule do_restart run_flow)+

lemma process_bring_up: "follows a C \<Longrightarrow> R a st \<Longrightarrow> yields (\<lambda>r. R a (snd r)) (process_bring_up C x st)"
  unfolding process_bring_up_def
  by (assumption | rule open_socket restart_ps_process start_ps_process run_flow)+

lemma bring_up: "follows a C \<Longrightarrow> R a st \<Longrightarrow> yields (\<lambda>r. R a (snd r)) (bring_up C x st)"
  unfolding bring_up_def
  by (assumption | rule yields_service_type process_bring_up started run_flow)+

lemma yields_pair_bind:
  "yields (\<lambda>r. R a (snd r)) m \<Longrightarrow> (\<And>v y. R a y \<Longrightarrow> yields Q (f v y)) \<Longrightarrow>
     yields Q (Option.bind m (\<lambda>(v, y). f v y))"
  by (rule yields_bind) (erule yields_weaken, auto)

lemma all_deps_started: "follows a C \<Longrightarrow> R a st \<Longrightarrow> yields (R a) (all_deps_started C x st)"
  unfolding all_deps_started_def
  by (assumption | rule yields_pair_bind bring_up failed_to_start run_flow | simp add: quiet_def)+

lemma acquired_console_body: "follows a C \<Longrightarrow> R a st \<Longrightarrow> yields (R a) (acquired_console_body C x st)"
  unfolding acquired_console_body_def
  by (assumption | rule release_console all_deps_started run_flow | simp add: quiet_def)+

lemma arm_stop_timer: "R a st \<Longrightarrow> R a (arm_stop_timer x st)"
  unfolding arm_stop_timer_def
  by (assumption | rule launch_rules)+

lemma process_bring_down: "follows a C \<Longrightarrow> R a st \<Longrightarrow> yields (R a) (process_bring_down C x st)"
  unfolding process_bring_down_def
  by (assumption | rule start_stop_process stopped arm_stop_timer run_flow)+

lemma scripted_bring_down: "follows a C \<Longrightarrow> R a st \<Longrightarrow> yields (R a) (scripted_bring_down C x st)"
  unfolding scripted_bring_down_def
  by (assumption | rule start_ps_process stopped arm_stop_timer run_flow)+

lemma bring_down: "follows a C \<Longrightarrow> R a st \<Longrightarrow> yields (R a) (bring_down C x st)"
  unfolding bring_down_def
  by (assumption | rule yields_service_type process_bring_down scripted_bring_down stopped run_flow)+

section \<open>Propagation, the work-off loop and the commands\<close>

lemma require_dep: "R a st \<Longrightarrow> R a (require_dep d st)"
  unfolding require_dep_def require_upd_dep [symmetric]
  by (assumption | rule require step_if | rule trans, assumption, rule hold)+

lemma propagate_pin_to: "R a st \<Longrightarrow> R a (propagate_pin_to b d st)"
  unfolding propagate_pin_to_def
  by (assumption | rule launch_rules | simp add: quiet_def)+

lemma propagate_pin: "R a st \<Longrightarrow> yields (R a) (propagate_pin C x st)"
  unfolding propagate_pin_def
  by (assumption | rule do_stop step_fold propagate_pin_to run_flow | simp add: quiet_def)+

lemma do_propagation: "follows a C \<Longrightarrow> R a st \<Longrightarrow> yields (R a) (do_propagation C x st)"
  unfolding do_propagation_def
  by (assumption | rule release_dependencies failed_to_start do_start do_stop propagate_pin step_fold require_dep run_flow
     | simp add: quiet_def)+

lemma execute_transition: "follows a C \<Longrightarrow> R a st \<Longrightarrow> yields (R a) (execute_transition C x st)"
  unfolding execute_transition_def
  by (assumption | rule all_deps_started bring_down run_flow | simp add: quiet_def)+

lemma process_queues_step: "follows a C \<Longrightarrow> R a st \<Longrightarrow> yields (R a) (process_queues_step C st)"
  unfolding process_queues_step_def
  by (assumption | rule do_propagation execute_transition run_flow)+

lemma follows_run: "follows a (run_ctx E n)"
proof (induction n)
  case 0
  then show ?case by (simp add: follows_def run_ctx_def)
next
  case (Suc n)
  have "R a st \<Longrightarrow> yields (R a) (acquired_console E (Suc n) x st)" for x st
    unfolding acquired_console.simps run_ctx_def [symmetric] by (rule acquired_console_body [OF Suc])
  moreover have "R a st \<Longrightarrow> yields (R a) (process_queues E (Suc n) st)" for st
    unfolding process_queues.simps run_ctx_def [symmetric]
    by (assumption | rule yields_flow process_queues_step [OF Suc] followsD(2) [OF Suc, unfolded run_ctx_def, simplified])+
  ultimately show ?case by (simp add: follows_def run_ctx_def)
qed

lemma process_queues: "R a st \<Longrightarrow> yields (R a) (process_queues E n st)"
  using followsD(2) [OF follows_run] by (simp add: run_ctx_def)

lemma unpin: "follows a C \<Longrightarrow> R a st \<Longrightarrow> yields (R a) (unpin C x st)"
  unfolding unpin_def
  by (assumption | rule do_stop step_fold propagate_pin_to run_flow | simp add: quiet_def)+

lemma commands:
  assumes "follows a C" "R a st"
  shows "yields (R a) (start_service C x st)" "yields (R a) (stop_service C x st)"
    "yields (R a) (stop_all_services C ty st)" "yields (R a) (set_trigger C x b st)"
  unfolding start_service_def stop_service_def stop_all_services_def set_trigger_def
  by (insert assms) (assumption | rule start stop unpin started yields_fold_opt run_flow | simp add: quiet_def)+

end

end
