(* ===== verification/Step_Events.thy ===== *)
theory Step_Events
  imports Step_Run
begin

text \<open>The step-relation contract lifted to the callbacks of the event loop.\<close>

context step_relation
begin

lemma step_waitid:
  "R a (snd e) \<Longrightarrow> R a (snd r) \<Longrightarrow> (\<And>v. R a (snd (f v))) \<Longrightarrow> R a (snd w) \<Longrightarrow>
     R a (snd (case t of Waitid_ECHILD \<Rightarrow> e | Waitid_running \<Rightarrow> r | Waitid_exited v \<Rightarrow> f v | Waitid_error \<Rightarrow> w))"
  by (cases t) simp_all

lemma read_pid_file: "R a st \<Longrightarrow> R a (snd (read_pid_file E x st))"
  unfolding read_pid_file_def
  by (assumption | rule step_waitid launch_rules)+

lemma small_updates:
  "R a st \<Longrightarrow> R a (cancel_stopstart_timer x st)" "R a st \<Longrightarrow> R a (close_notification_fd x st)"
  "R a st \<Longrightarrow> R a (set_stop_reason x r st)" "R a st \<Longrightarrow> R a (set_state x v st)"
  unfolding cancel_stopstart_timer_def close_notification_fd_def set_stop_reason_def set_state_def
  by (assumption | rule launch_rules | simp add: quiet_def)+

lemma handle_unexpected_termination:
  "follows a C \<Longrightarrow> R a st \<Longrightarrow> yields (R a) (handle_unexpected_termination C x st)"
  unfolding handle_unexpected_termination_def
  by (assumption | rule do_stop initiate_start small_updates run_flow | simp add: quiet_def)+

lemma do_smooth_recovery: "follows a C \<Longrightarrow> R a st \<Longrightarrow> yields (R a) (do_smooth_recovery C x st)"
  unfolding do_smooth_recovery_def by (rule restart_ps_process)

lemmas exit_rules = stopped failed_to_start initiate_start check_restart do_smooth_recovery
  handle_unexpected_termination small_updates notifications run_flow

lemma process_handle_exit_status:
  "follows a C \<Longrightarrow> R a st \<Longrightarrow> yields (R a) (process_handle_exit_status C x st)"
  unfolding process_handle_exit_status_def
  by (assumption | rule exit_rules)+

lemma bgproc_recovery_stopping:
  "follows a C \<Longrightarrow> R a st \<Longrightarrow> yields (R a) (bgproc_recovery_stopping C x st)"
  unfolding bgproc_recovery_stopping_def
  by (assumption | rule read_pid_file bring_down exit_rules)+

lemma yields_pid_result:
  "yields Q s \<Longrightarrow> yields Q f \<Longrightarrow> yields Q t \<Longrightarrow>
     yields Q (case r of PID_OK \<Rightarrow> s | PID_FAILED \<Rightarrow> f | PID_TERMINATED \<Rightarrow> t)"
  by (cases r) simp_all

lemma bgproc_rounds:
  assumes "follows a C" "R a st"
  shows "yields (\<lambda>r. R a (snd r)) (bgproc_recovery_started C x st)"
    "yields (\<lambda>r. R a (snd r)) (bgproc_exit_starting C x st)"
    "yields (R a) (bgproc_exit_started C x st)"
  unfolding bgproc_recovery_started_def bgproc_exit_starting_def bgproc_exit_started_def
  by (insert assms) (assumption | rule yields_pid_result read_pid_file started exit_rules)+

lemma bgproc_exit_round:
  "follows a C \<Longrightarrow> R a st \<Longrightarrow> yields (\<lambda>r. R a (snd r)) (bgproc_exit_round C x st)"
  unfolding bgproc_exit_round_def
  by (assumption | rule bgproc_rounds bgproc_recovery_stopping exit_rules)+

lemma bgproc_handle_exit_status:
  assumes "follows a C" and "R a st"
  shows "yields (R a) (bgproc_handle_exit_status C x st)"
proof -
  have "yields (R a) (bgproc_handle_exit_rounds k C x st)" for k
    using assms(2)
  proof (induction k arbitrary: st)
    case (Suc k)
    show ?case
      unfolding bgproc_handle_exit_rounds.simps
      by (insert Suc.prems)
        (assumption | rule yields_pair_bind bgproc_exit_round assms(1) Suc.IH yields_flow)+
  qed simp
  then show ?thesis by (simp add: bgproc_handle_exit_status_def)
qed

lemma scripted_handle_exit_status:
  "follows a C \<Longrightarrow> R a st \<Longrightarrow> yields (R a) (scripted_handle_exit_status C x st)"
  unfolding scripted_handle_exit_status_def
  by (assumption | rule bring_down started exit_rules | simp add: quiet_def)+

lemma handle_exit_status: "follows a C \<Longrightarrow> R a st \<Longrightarrow> yields (R a) (handle_exit_status C x st)"
  unfolding handle_exit_status_def
  by (assumption | rule yields_service_type process_handle_exit_status bgproc_handle_exit_status
      scripted_handle_exit_status run_flow)+

lemma status_changes:
  assumes "follows a C" "R a st"
  shows "yields (R a) (child_status_change C x ps st)" "yields (R a) (handle_stop_exit C x st)"
    "yields (R a) (stop_child_status_change C x ps st)"
  unfolding child_status_change_def stop_child_status_change_def handle_stop_exit_def
  by (insert assms) (assumption | rule handle_exit_status exit_rules)+

lemma exec_succeeded: "follows a C \<Longrightarrow> R a st \<Longrightarrow> yields (R a) (exec_succeeded C x st)"
  unfolding exec_succeeded_def process_exec_succeeded_def
  by (assumption | rule started bring_down exit_rules)+

lemma exec_failed: "follows a C \<Longrightarrow> R a st \<Longrightarrow> yields (R a) (exec_failed C x st)"
  unfolding exec_failed_def process_exec_failed_def bgproc_exec_failed_def scripted_exec_failed_def
  by (assumption | rule yields_service_type exit_rules)+

lemma exec_status_event: "follows a C \<Longrightarrow> R a st \<Longrightarrow> yields (R a) (exec_status_event C x b st)"
  unfolding exec_status_event_def
  by (assumption | rule exec_succeeded exec_failed handle_exit_status exit_rules | simp add: quiet_def)+

lemma stop_status_event: "follows a C \<Longrightarrow> R a st \<Longrightarrow> yields (R a) (stop_status_event C x b st)"
  unfolding stop_status_event_def
  by (assumption | rule status_changes exit_rules | simp add: quiet_def)+

lemma yields_read_reply:
  "(\<And>k. yields Q (f k)) \<Longrightarrow> yields Q e \<Longrightarrow> yields Q g \<Longrightarrow> yields Q w \<Longrightarrow>
     yields Q (case r of Read_data k \<Rightarrow> f k | Read_eof \<Rightarrow> e | Read_EAGAIN \<Rightarrow> g | Read_error \<Rightarrow> w)"
  by (cases r) simp_all

lemma ready_notify_event: "follows a C \<Longrightarrow> R a st \<Longrightarrow> yields (R a) (ready_notify_event C x r st)"
  unfolding ready_notify_event_def
  by (assumption | rule yields_read_reply started bring_down exit_rules)+

lemma kill_with_fire: "R a st \<Longrightarrow> R a (kill_with_fire E x st)"
  unfolding kill_with_fire_def base_kill_with_fire_def
  by (assumption | rule launch_rules)+

lemma timer_expired: "follows a C \<Longrightarrow> R a st \<Longrightarrow> yields (R a) (timer_expired C x st)"
  unfolding timer_expired_def
  by (assumption | rule kill_with_fire interrupt_start do_restart exit_rules)+

lemma snd_read:
  "(\<And>v. R a (snd (f v))) \<Longrightarrow> (\<And>v. R a (snd (g v))) \<Longrightarrow> R a (snd (case t of Inl v \<Rightarrow> f v | Inr v \<Rightarrow> g v))"
  "(\<And>k. R a (snd (h k))) \<Longrightarrow> R a (snd e) \<Longrightarrow> R a (snd i) \<Longrightarrow> R a (snd w) \<Longrightarrow>
     R a (snd (case r of Read_data k \<Rightarrow> h k | Read_eof \<Rightarrow> e | Read_EAGAIN \<Rightarrow> i | Read_error \<Rightarrow> w))"
  by (simp_all split: sum.split read_reply.split)

lemma log_output_event: "R a st \<Longrightarrow> R a (snd (log_output_event E x av st))"
  unfolding log_output_event_def close_log_fds_def
  by (assumption | rule snd_read ensure_log_buffer_backing launch_rules)+

lemma log_settings: "R a st \<Longrightarrow> R a (clear_log_buffer x st)" "R a st \<Longrightarrow> R a (set_log_mode x ty st)"
  unfolding clear_log_buffer_def set_log_mode_def
  by (assumption | rule launch_rules)+

end

end
