(* ===== verification/Sample_Set.thy ===== *)
theory Sample_Set
  imports Process_Events
begin

text \<open>
  A small service set for concrete instances of the theorems: the internal service \<open>boot\<close> (0)
  depends on the process service \<open>net\<close> (1), which depends on the internal service \<open>base\<close> (2), and
  an operating system in which every call succeeds.
\<close>

definition sample_os :: os_env where
  "sample_os =
     \<lparr>os_time = (\<lambda>n. tv (int n) 0), os_pipe2 = (\<lambda>n. Some (100 + 2 * int n, 101 + 2 * int n)),
      os_socketpair = (\<lambda>n. Some (1000 + 2 * int n, 1001 + 2 * int n)), os_fork = (\<lambda>n. Some (5000 + int n)),
      os_add_watch = (\<lambda>_. True), os_alloc = (\<lambda>_. True), os_getpgid = (\<lambda>_. -1), os_stat = (\<lambda>_. Stat_ENOENT),
      os_socket = (\<lambda>n. Some (2000 + int n)), os_bind = (\<lambda>_. True), os_chown = (\<lambda>_. True),
      os_chmod = (\<lambda>_. True), os_listen = (\<lambda>_. True), os_read_file = (\<lambda>_. Some ''1234''),
      os_waitid = (\<lambda>_. Waitid_running), os_process_exists = (\<lambda>_. True)\<rparr>"

definition sample_set :: sset where
  "sample_set = new_service_set
     \<lparr>svcs := (\<lambda>_. new_service_record [])
        (0 := (new_service_record ''boot'')\<lparr>record_type := INTERNAL, depends_on := [0]\<rparr>,
         1 := (new_service_record ''net'')\<lparr>record_type := PROCESS, depends_on := [1], dependents := [0]\<rparr>,
         2 := (new_service_record ''base'')\<lparr>record_type := INTERNAL, dependents := [1]\<rparr>),
      deps := (\<lambda>_. new_dep 0 0 REGULAR)(0 := new_dep 0 1 REGULAR, 1 := new_dep 1 2 REGULAR),
      records := [0, 1, 2]\<rparr>"

text \<open>The same set with everything started on behalf of an explicit activation of \<open>boot\<close>.\<close>

definition started_record :: "service_record \<Rightarrow> service_record" where
  "started_record s = s\<lparr>service_state := STARTED, desired_state := STARTED, required_by := 1\<rparr>"

definition sample_up :: sset where
  "sample_up = sample_set
     \<lparr>svcs := (\<lambda>_. new_service_record [])
        (0 := (started_record (new_service_record ''boot''))\<lparr>record_type := INTERNAL, depends_on := [0], start_explicit := True\<rparr>,
         1 := (started_record (new_service_record ''net''))\<lparr>record_type := PROCESS, depends_on := [1], dependents := [0]\<rparr>,
         2 := (started_record (new_service_record ''base''))\<lparr>record_type := INTERNAL, dependents := [1]\<rparr>),
      procs := (\<lambda>_. new_proc_fields)(1 := new_proc_fields\<lparr>pid := 5003, tracking_child := True\<rparr>),
      deps := (\<lambda>_. new_dep 0 0 REGULAR)
        (0 := (new_dep 0 1 REGULAR)\<lparr>holding_acq := True\<rparr>, 1 := (new_dep 1 2 REGULAR)\<lparr>holding_acq := True\<rparr>),
      active_services := 3\<rparr>"

end
