(* ===== verification/Service_System.thy ===== *)
theory Service_System
  imports Step_Events Sample_Set
begin

text \<open>
  The service manager as a transition system. An action is one entry into the code from outside:
  a command (issued by the control connection or by \<^verbatim>\<open>dinit.cc\<close>) or a callback of the event
  loop. Actions happen in any order, with any answers of the operating system, and each with any
  recursion bound under which it returns.
\<close>

datatype action =
    Start sid | Stop sid bool | Restart sid
  | Pin_start sid | Pin_stop sid | Unpin sid
  | Process_queues | Stop_all shutdown_type_t | Set_trigger sid bool
  | Child_exit sid proc_status | Stop_child_exit sid proc_status
  | Exec_status sid bool | Stop_exec_status sid bool
  | Ready_notify sid read_reply | Timer_expired sid
  | Log_output sid "nat \<Rightarrow> string + read_reply" | Clear_log sid | Set_log_mode sid log_type_id
  | Transfer_output sid

primrec perform :: "ctx \<Rightarrow> action \<Rightarrow> sset \<Rightarrow> sset option" where
  "perform C (Start x) st = Some (start x st)"
| "perform C (Stop x bd) st = stop (cx_fuel C) (cx_os C) x bd st"
| "perform C (Restart x) st = map_option snd (restart (cx_fuel C) (cx_os C) x st)"
| "perform C (Pin_start x) st = Some (pin_start x st)"
| "perform C (Pin_stop x) st = Some (pin_stop x st)"
| "perform C (Unpin x) st = unpin C x st"
| "perform C Process_queues st = cx_process C st"
| "perform C (Stop_all ty) st = stop_all_services C ty st"
| "perform C (Set_trigger x b) st = set_trigger C x b st"
| "perform C (Child_exit x ps) st = child_status_change C x ps st"
| "perform C (Stop_child_exit x ps) st = stop_child_status_change C x ps st"
| "perform C (Exec_status x failed) st = exec_status_event C x failed st"
| "perform C (Stop_exec_status x failed) st = stop_status_event C x failed st"
| "perform C (Ready_notify x r) st = ready_notify_event C x r st"
| "perform C (Timer_expired x) st = timer_expired C x st"
| "perform C (Log_output x av) st = Some (snd (log_output_event (cx_os C) x av st))"
| "perform C (Clear_log x) st = Some (clear_log_buffer x st)"
| "perform C (Set_log_mode x ty) st = Some (set_log_mode x ty st)"
| "perform C (Transfer_output x) st = Some (snd (transfer_output_pipe x st))"

inductive sys_step :: "os_env \<Rightarrow> sset \<Rightarrow> sset \<Rightarrow> bool" for E :: os_env where
  act: "perform (run_ctx E n) act st = Some st' \<Longrightarrow> sys_step E st st'"

inductive sys_run :: "os_env \<Rightarrow> sset \<Rightarrow> sset \<Rightarrow> bool" for E :: os_env where
  none: "sys_run E st st"
| more: "sys_run E st st' \<Longrightarrow> sys_step E st' st'' \<Longrightarrow> sys_run E st st''"

inductive_cases sys_stepE: "sys_step E st st'"

context step_relation
begin

lemma perform:
  assumes "follows a C" "R a st"
  shows "yields (R a) (perform C act st)"
proof (cases act)
  case (Restart x)
  have "yields (\<lambda>r. R a (snd r)) (restart (cx_fuel C) (cx_os C) x st)" by (rule restart [OF assms(2)])
  then show ?thesis unfolding Restart by (auto simp: yields_def)
qed (simp_all only: perform.simps,
     (insert assms, (assumption | rule start stop pins unpin commands(3,4) followsD status_changes exec_status_event
        stop_status_event ready_notify_event timer_expired log_output_event log_settings output_pipes yields_step)+)+)

lemma sys_step:
  assumes "sys_step E st st'" "R a st"
  shows "R a st'"
  using assms(1) by (rule sys_stepE) (rule yieldsD [OF perform [OF follows_run assms(2)]])

lemma sys_run: "sys_run E st st' \<Longrightarrow> R st st'"
  by (induction rule: sys_run.induct) (auto intro: refl sys_step)

end

section \<open>Acquisition counts\<close>

text \<open>
  The links of a service set are consistent: the lists of a service name each link once, a link
  in \<open>dependents x\<close> leads to \<open>x\<close>, and the links in \<open>depends_on x\<close> lead away from \<open>x\<close> and are listed
  by the service they lead to.
\<close>

definition wf_depts :: "sset \<Rightarrow> bool" where
  "wf_depts st \<longleftrightarrow>
     (\<forall>x. distinct (dependents (svcs st x)) \<and> (\<forall>d\<in>set (dependents (svcs st x)). dep_to (deps st d) = x))"

definition wf_links :: "sset \<Rightarrow> bool" where
  "wf_links st \<longleftrightarrow> wf_depts st \<and>
     (\<forall>x. distinct (depends_on (svcs st x)) \<and>
          (\<forall>d\<in>set (depends_on (svcs st x)). dep_from (deps st d) = x \<and>
              d \<in> set (dependents (svcs st (dep_to (deps st d))))))"

definition held :: "sset \<Rightarrow> sid \<Rightarrow> nat" where
  "held st x = length (filter (\<lambda>d. holding_acq (deps st d)) (dependents (svcs st x)))"

text \<open>By how much the acquisition count exceeds the explicit activation and the holding dependents.\<close>

definition slack :: "sset \<Rightarrow> sid \<Rightarrow> int" where
  "slack st x = required_by (svcs st x) - of_bool (start_explicit (svcs st x)) - int (held st x)"

definition acq_step :: "sset \<Rightarrow> sset \<Rightarrow> bool" where
  "acq_step a b \<longleftrightarrow> same_links a b \<and> (wf_links a \<longrightarrow> (\<forall>x. slack a x \<le> slack b x))"

lemma wf_links_same: "same_links a b \<Longrightarrow> wf_depts b = wf_depts a" "same_links a b \<Longrightarrow> wf_links b = wf_links a"
  by (simp_all add: wf_links_def wf_depts_def same_links_def)

lemma held_cong:
  assumes "same_links a b" "\<And>d. d \<in> set (dependents (svcs a x)) \<Longrightarrow> holding_acq (deps b d) = holding_acq (deps a d)"
  shows "held b x = held a x"
  using assms(2) by (simp add: held_def same_linksD [OF assms(1)] cong: filter_cong)

lemma acq_stepI:
  assumes "same_links a b"
    and "\<And>x. wf_links a \<Longrightarrow> slack a x \<le> slack b x"
  shows "acq_step a b"
  using assms by (simp add: acq_step_def)

lemma acq_step_same:
  assumes "same_links a b"
    and "\<And>x. required_by (svcs b x) = required_by (svcs a x) \<and> start_explicit (svcs b x) = start_explicit (svcs a x)"
    and "\<And>d. holding_acq (deps b d) = holding_acq (deps a d)"
  shows "acq_step a b"
  using assms held_cong [OF assms(1)] by (intro acq_stepI) (simp_all add: slack_def)

lemma length_filter_le_Suc:
  "distinct xs \<Longrightarrow> (\<And>y. y \<noteq> x \<Longrightarrow> Q y = P y) \<Longrightarrow> length (filter Q xs) \<le> Suc (length (filter P xs))"
proof (induction xs)
  case (Cons a xs)
  show ?case
  proof (cases "a = x")
    case True
    with Cons.prems have "filter Q xs = filter P xs" by (metis distinct.simps(2) filter_cong)
    then show ?thesis by simp
  next
    case False
    with Cons show ?thesis by auto
  qed
qed simp

lemma held_upd_svc [simp]:
  "dependents (f (svcs a x)) = dependents (svcs a x) \<Longrightarrow> held (upd_svc x f a) y = held a y"
  by (auto simp: held_def)

lemma held_upd_dep: "d \<notin> set (dependents (svcs a y)) \<Longrightarrow> held (upd_dep d f a) y = held a y"
  by (auto simp: held_def intro!: length_filter_cong)

lemma held_hold_link: "wf_depts a \<Longrightarrow> held (hold_link d a) x \<le> Suc (held a x)"
  unfolding held_def svcs_upd by (rule length_filter_le_Suc [where x = d]) (simp_all add: wf_depts_def)

lemma held_drop_link:
  "wf_depts a \<Longrightarrow> holding_acq (deps a d) \<Longrightarrow> d \<in> set (dependents (svcs a x)) \<Longrightarrow>
     Suc (held (drop_link d a) x) = held a x"
  unfolding held_def svcs_upd by (rule length_filter_upd [where x = d]) (simp_all add: wf_depts_def)

lemma wf_linksD:
  "wf_links a \<Longrightarrow> wf_depts a"
  "wf_depts a \<Longrightarrow> d \<in> set (dependents (svcs a x)) \<Longrightarrow> dep_to (deps a d) = x"
  "wf_links a \<Longrightarrow> d \<in> set (depends_on (svcs a x)) \<Longrightarrow> d \<in> set (dependents (svcs a (dep_to (deps a d))))"
  by (simp_all add: wf_links_def wf_depts_def)

lemma slack_hold:
  assumes "wf_depts a" "\<And>y. d \<in> set (dependents (svcs a y)) \<Longrightarrow> y = x"
  shows "slack a y \<le> slack (inc_required x (hold_link d a)) y"
proof -
  have "y \<noteq> x \<Longrightarrow> held (hold_link d a) y = held a y"
    using assms(2) [of y] by (auto intro: held_upd_dep)
  then show ?thesis
    using held_hold_link [OF assms(1), of d y] by (cases "y = x") (auto simp: slack_def)
qed

lemma slack_drop:
  assumes "wf_depts a" "holding_acq (deps a d)" "d \<in> set (dependents (svcs a x))"
  shows "slack a y \<le> slack (dec_required x (drop_link d a)) y"
proof -
  have "y \<noteq> x \<Longrightarrow> held (drop_link d a) y = held a y"
    using wf_linksD(2) [OF assms(1,3)] wf_linksD(2) [OF assms(1), of d y] by (auto intro: held_upd_dep)
  then show ?thesis
    using held_drop_link [OF assms] by (cases "y = x") (auto simp: slack_def)
qed

interpretation acq: step_relation acq_step
proof
  show "acq_step a b \<Longrightarrow> acq_step b c \<Longrightarrow> acq_step a c" for a b c
    unfolding acq_step_def by (meson order_trans same_links_trans wf_links_same(2))
  show "holding_acq (deps a d) \<Longrightarrow> d \<in> set (dependents (svcs a x)) \<Longrightarrow>
          acq_step a (dec_required x (drop_link d a))" for a d x
    by (rule acq_stepI, simp add: same_links_def) (rule slack_drop [OF wf_linksD(1)])
  show "holding_acq (deps a d) \<Longrightarrow> d \<in> set (depends_on (svcs a y)) \<Longrightarrow>
          acq_step a (dec_required (dep_to (deps a d)) (drop_link d a))" for a d y
    by (rule acq_stepI, simp add: same_links_def) (rule slack_drop [OF wf_linksD(1)], simp_all add: wf_linksD(3))
  show "quiet f \<Longrightarrow> acq_step a (upd_svc x f a)" for f x a
    by (rule acq_step_same) (simp_all add: quiet_def same_links_def)
  show "acq_step a (inc_required (dep_to (deps a d)) (hold_link d a))" for a d
    by (rule acq_stepI, simp add: same_links_def) (rule slack_hold [OF wf_linksD(1)], assumption, metis wf_linksD(1,2))
  show "d \<in> set (dependents (svcs a x)) \<Longrightarrow> acq_step a (inc_required x (hold_link d a))" for a d x
    by (rule acq_stepI, simp add: same_links_def) (rule slack_hold [OF wf_linksD(1)], assumption, metis wf_linksD(1,2))
  show "\<not> start_explicit (svcs a x) \<Longrightarrow>
          acq_step a (upd_svc x (\<lambda>s. s\<lparr>required_by := required_by s + 1, start_explicit := True\<rparr>) a)" for a x
    by (rule acq_stepI) (auto simp: same_links_def slack_def)
  show "start_explicit (svcs a x) \<Longrightarrow>
          acq_step a (dec_required x (upd_svc x (\<lambda>s. s\<lparr>start_explicit := False\<rparr>) a))" for a x
    by (rule acq_stepI) (auto simp: same_links_def slack_def)
  show "acq_step a b \<Longrightarrow> same_links a b" for a b
    by (simp add: acq_step_def)
qed (rule acq_step_same; simp add: same_links_def emit_def calm_defs)+

section \<open>No service is released under its holders\<close>

text \<open>
  C2. Whatever commands arrive and whatever the processes, the operating system and the timers
  do, the acquisition count of a service never drops below the number of reasons to keep it: one
  for an explicit activation and one for every dependent that holds an acquisition of it. So a
  service whose count reaches zero (and which the code then stops) is needed by nobody.
\<close>

theorem acquisition_invariant:
  assumes "sys_run E st st'" and "wf_links st"
    and "\<And>y. required_by (svcs st y) \<ge> of_bool (start_explicit (svcs st y)) + int (held st y)"
  shows "required_by (svcs st' x) \<ge> of_bool (start_explicit (svcs st' x)) + int (held st' x)"
proof -
  have "acq_step st st'" using assms(1) by (rule acq.sys_run)
  with assms(2) have "slack st x \<le> slack st' x" by (simp add: acq_step_def)
  with assms(3) [of x] show ?thesis by (simp add: slack_def)
qed

lemma sample_wf_links: "wf_links sample_set"
  by (simp add: wf_links_def wf_depts_def sample_set_def new_dep_def new_service_record_def)

lemma sample_acquired:
  "required_by (svcs sample_set y) \<ge> of_bool (start_explicit (svcs sample_set y)) + int (held sample_set y)"
  by (simp add: held_def sample_set_def new_service_record_def new_dep_def)

lemma sample_start_base:
  "process_queues sample_os 9 (start 2 sample_set) \<noteq> None"
  "map_option (\<lambda>st. (service_state (svcs st 2), required_by (svcs st 2))) (process_queues sample_os 9 (start 2 sample_set)) =
     Some (STARTED, 1)"
  by code_simp+

lemma sample_run: "\<exists>st'. sys_run sample_os sample_set st' \<and> service_state (svcs st' 2) = STARTED \<and> required_by (svcs st' 2) = 1"
proof -
  obtain st' where st': "process_queues sample_os 9 (start 2 sample_set) = Some st'"
    "service_state (svcs st' 2) = STARTED" "required_by (svcs st' 2) = 1"
    using sample_start_base by (cases "process_queues sample_os 9 (start 2 sample_set)") auto
  have "sys_step sample_os sample_set (start 2 sample_set)"
    by (rule sys_step.act [where act = "Start 2"]) simp
  moreover have "sys_step sample_os (start 2 sample_set) st'"
    by (rule sys_step.act [where act = Process_queues and n = 9]) (simp add: run_ctx_def st'(1))
  ultimately have "sys_run sample_os sample_set st'" by (blast intro: sys_run.intros)
  with st' show ?thesis by blast
qed

theorem acquisition_invariant_witness:
  "\<exists>st'. sys_run sample_os sample_set st' \<and> service_state (svcs st' 2) = STARTED \<and>
         1 \<ge> of_bool (start_explicit (svcs st' 2)) + int (held st' 2)"
  using sample_run acquisition_invariant [OF _ sample_wf_links sample_acquired, of sample_os _ 2] by metis

end
