(* ===== verification/Starting.thy ===== *)
theory Starting
  imports Service_Run Sample_Set
begin

text \<open>
  Starting a service: what it waits for, when it may be brought up, who is told when it has
  started, and what is left when its start fails.
\<close>

section \<open>Which dependencies a start waits for\<close>

text \<open>
  Specification: the link \<open>d\<close> does not hold up the start of its dependent. An ordering constraint
  only matters while its target is starting; every other dependency has to be started.
\<close>

definition dep_ready :: "sset \<Rightarrow> did \<Rightarrow> bool" where
  "dep_ready st d \<longleftrightarrow>
     (let to = service_state (svcs st (dep_to (deps st d)))
      in to = STARTED \<or> (is_only_ordering (deps st d) \<and> to \<noteq> STARTING))"

lemma check_dep_start_alt:
  "check_dep_start d (b, st) =
     (if dep_ready st d then (b, st) else (False, upd_dep d (\<lambda>l. l\<lparr>waiting_on := True\<rparr>) st))"
  by (auto simp: check_dep_start_def dep_ready_def Let_def)

text \<open>Raising \<open>waiting_on\<close> flags changes nothing else.\<close>

definition only_waits :: "sset \<Rightarrow> sset \<Rightarrow> bool" where
  "only_waits a b \<longleftrightarrow>
     (\<exists>W. b = a\<lparr>deps := (\<lambda>d. if d \<in> W then (deps a d)\<lparr>waiting_on := True\<rparr> else deps a d)\<rparr>)"

lemma only_waits_refl: "only_waits a a"
  unfolding only_waits_def by (rule exI [of _ "{}"]) simp

lemma only_waits_wait: "only_waits a b \<Longrightarrow> only_waits a (upd_dep d (\<lambda>l. l\<lparr>waiting_on := True\<rparr>) b)"
  unfolding only_waits_def upd_dep_def by (elim exE, rule_tac x = "insert d W" in exI) (auto simp: fun_eq_iff)

lemma only_waitsD:
  assumes "only_waits a b"
  shows "svcs b = svcs a" "procs b = procs a" "stop_queue b = stop_queue a" "prop_queue b = prop_queue a"
    "effects b = effects a" "dep_ready b = dep_ready a" "waiting_on (deps a d) \<Longrightarrow> waiting_on (deps b d)"
  using assms by (auto simp: only_waits_def dep_ready_def is_only_ordering_def fun_eq_iff Let_def split: if_splits)

lemma fold_check_dep_start:
  assumes "only_waits a st"
  shows "\<exists>st'. fold check_dep_start ds (b, st) = (b \<and> list_all (dep_ready a) ds, st') \<and> only_waits a st' \<and>
    (\<forall>d. waiting_on (deps st d) \<or> (d \<in> set ds \<and> \<not> dep_ready a d) \<longrightarrow> waiting_on (deps st' d))"
  using assms
proof (induction ds arbitrary: b st)
  case (Cons d ds)
  have "only_waits a (upd_dep d (\<lambda>l. l\<lparr>waiting_on := True\<rparr>) st)" by (rule only_waits_wait) fact
  then show ?case
    using Cons.IH [of st b] Cons.IH [of "upd_dep d (\<lambda>l. l\<lparr>waiting_on := True\<rparr>) st" False] Cons.prems only_waitsD(6) [OF Cons.prems]
    by (cases "dep_ready a d") (fastforce simp: check_dep_start_alt)+
qed simp

lemma fold_check_ordering:
  assumes "only_waits a st"
  shows "only_waits a (fold check_ordering_dept ds st) \<and>
    (\<forall>d. waiting_on (deps st d) \<longrightarrow> waiting_on (deps (fold check_ordering_dept ds st) d))"
  using assms
proof (induction ds arbitrary: st)
  case (Cons d ds)
  have "only_waits a (check_ordering_dept d st)" "\<And>e. waiting_on (deps st e) \<Longrightarrow> waiting_on (deps (check_ordering_dept d st) e)"
    using Cons.prems by (auto simp: check_ordering_dept_def only_waits_wait)
  with Cons.IH show ?case by simp
qed simp

lemma start_check_dependencies_spec:
  obtains st' where "start_check_dependencies x st = (list_all (dep_ready st) (depends_on (svcs st x)), st')"
    and "only_waits st st'"
    and "\<And>d. d \<in> set (depends_on (svcs st x)) \<Longrightarrow> \<not> dep_ready st d \<Longrightarrow> waiting_on (deps st' d)"
proof -
  obtain st1 where st1: "fold check_dep_start (depends_on (svcs st x)) (True, st) = (list_all (dep_ready st) (depends_on (svcs st x)), st1)"
    "only_waits st st1" "\<And>d. d \<in> set (depends_on (svcs st x)) \<Longrightarrow> \<not> dep_ready st d \<Longrightarrow> waiting_on (deps st1 d)"
    using fold_check_dep_start [OF only_waits_refl, of "depends_on (svcs st x)" True st] by auto
  from that [OF _ conjunct1 [OF fold_check_ordering [OF st1(2)]]] show thesis
    using st1 fold_check_ordering [OF st1(2)] by (auto simp: start_check_dependencies_def)
qed

text \<open>
  C6. A start that begins puts the service into \<open>STARTING\<close>. It is handed to the execution phase at
  once exactly if every dependency is ready; otherwise every dependency that is not ready is marked
  as waited for, and the service is not queued.
\<close>

theorem initiate_start_waits:
  fixes x st
  defines "st1 \<equiv> upd_svc x (\<lambda>s. s\<lparr>start_failed := False, start_skipped := False, service_state := STARTING, waiting_for_deps := True\<rparr>) st"
  defines "st' \<equiv> initiate_start x st"
  shows "service_state (svcs st' x) = STARTING \<and> waiting_for_deps (svcs st' x) \<and>
    stop_queue st' = (if list_all (dep_ready st1) (depends_on (svcs st x)) then wq_add x (stop_queue st) else stop_queue st) \<and>
    (\<forall>d\<in>set (depends_on (svcs st x)). \<not> dep_ready st1 d \<longrightarrow> waiting_on (deps st' d)) \<and>
    (list_all (dep_ready st1) (depends_on (svcs st x)) \<or> \<not> check_deps_started st' x)"
proof -
  obtain st2 where st2: "start_check_dependencies x st1 = (list_all (dep_ready st1) (depends_on (svcs st1 x)), st2)"
    "only_waits st1 st2" "\<And>d. d \<in> set (depends_on (svcs st1 x)) \<Longrightarrow> \<not> dep_ready st1 d \<Longrightarrow> waiting_on (deps st2 d)"
    using start_check_dependencies_spec [of x st1] by blast
  have links: "depends_on (svcs st1 x) = depends_on (svcs st x)" by (simp add: st1_def)
  have st': "st' = (if list_all (dep_ready st1) (depends_on (svcs st x)) then add_transition_queue x st2 else st2)"
    using st2(1) by (simp add: st'_def initiate_start_def st1_def [symmetric] links Let_def)
  have "svcs st' = svcs st1" "deps st' = deps st2"
    using only_waitsD(1) [OF st2(2)] by (simp_all add: st' add_transition_queue_def)
  moreover have "stop_queue st2 = stop_queue st" using only_waitsD(3) [OF st2(2)] by (simp add: st1_def upd_svc_def)
  ultimately show ?thesis
    using st2(3) by (auto simp: st' add_transition_queue_def st1_def check_deps_started_def list_all_iff)
qed

lemma sample_not_ready: "\<not> dep_ready sample_set 0" "depends_on (svcs sample_set 0) = [0]"
  by code_simp+

theorem initiate_start_waits_witness:
  "waiting_on (deps (initiate_start 0 sample_set) 0) \<and> \<not> check_deps_started (initiate_start 0 sample_set) 0 \<and>
   stop_queue (initiate_start 0 sample_set) = []"
proof -
  have "\<not> dep_ready (upd_svc 0 (\<lambda>s. s\<lparr>start_failed := False, start_skipped := False, service_state := STARTING,
      waiting_for_deps := True\<rparr>) sample_set) 0"
    by code_simp
  then show ?thesis
    using initiate_start_waits [of 0 sample_set]
    by (simp add: sample_not_ready) (simp add: sample_set_def new_service_set_def)
qed

section \<open>Bring-up and bring-down wait for the neighbours\<close>



section \<open>A failed start\<close>

lemma release_count_fields:
  "deps (release_count x st) = deps st" "stop_queue (release_count x st) = stop_queue st"
  "y \<noteq> x \<Longrightarrow> svcs (release_count x st) y = svcs st y"
  "required_by (svcs (release_count x st) x) = required_by (svcs st x) - 1"
  "start_explicit (svcs (release_count x st) x) = start_explicit (svcs st x)"
  "service_state (svcs (release_count x st) y) = service_state (svcs st y)"
  "dependents (svcs (release_count x st) y) = dependents (svcs st y)"
  "desired_state (svcs st x) = STOPPED \<Longrightarrow> desired_state (svcs (release_count x st) x) = STOPPED"
  "prop_failure (svcs (release_count x st) y) = prop_failure (svcs st y)"
  "have_console (svcs (release_count x st) y) = have_console (svcs st y)"
  by (auto simp: release_count_def add_prop_queue_def Let_def notify_listeners_def emit_def upd_svc_def)

lemma dependency_started_fields [simp]:
  "svcs (dependency_started y st) = svcs st" "deps (dependency_started y st) = deps st"
  by (auto simp: dependency_started_def add_transition_queue_def)

lemma cancel_dependent_start_fields:
  fixes x d st
  defines "st' \<equiv> cancel_dependent_start x d st"
  shows "\<not> holding_acq (deps st' d)" "e \<noteq> d \<Longrightarrow> deps st' e = deps st e"
    "\<not> (dep_type (deps st d) \<in> {REGULAR, MILESTONE}) \<Longrightarrow> \<not> waiting_on (deps st' d)"
    "required_by (svcs st' x) = required_by (svcs st x) - of_bool (holding_acq (deps st d))"
    "start_explicit (svcs st' x) = start_explicit (svcs st x)"
    "service_state (svcs st' y) = service_state (svcs st y)"
    "desired_state (svcs st x) = STOPPED \<Longrightarrow> desired_state (svcs st' x) = STOPPED"
    "prop_failure (svcs st y) \<or> (dep_type (deps st d) \<in> {REGULAR, MILESTONE} \<and> y = dep_from (deps st d) \<and>
       service_state (svcs st y) = STARTING) \<Longrightarrow> prop_failure (svcs st' y)"
    "have_console (svcs st' y) = have_console (svcs st y)"
    "dependents (svcs st' y) = dependents (svcs st y)" "dep_type (deps st' e) = dep_type (deps st e)"
  unfolding st'_def cancel_dependent_start_def Let_def
  by (cases "dep_type (deps st d)"; auto simp: release_count_fields add_prop_queue_def split: if_splits)+

lemma cancel_dependent_start_other:
  "d \<notin> set ds \<Longrightarrow> e \<in> set ds \<Longrightarrow> deps (cancel_dependent_start x d st) e = deps st e"
  by (rule cancel_dependent_start_fields(2)) auto

lemma fold_cancel_outside: "d \<notin> set ds \<Longrightarrow> deps (fold (cancel_dependent_start x) ds st) d = deps st d"
  by (induction ds arbitrary: st) (auto simp: cancel_dependent_start_fields(2))

lemma fold_cancel_links:
  assumes "distinct ds" "d \<in> set ds"
  shows "\<not> holding_acq (deps (fold (cancel_dependent_start x) ds st) d) \<and>
    (dep_type (deps st d) \<notin> {REGULAR, MILESTONE} \<longrightarrow> \<not> waiting_on (deps (fold (cancel_dependent_start x) ds st) d))"
  using assms
proof (induction ds arbitrary: st)
  case (Cons e ds)
  show ?case
  proof (cases "d = e")
    case True
    with Cons.prems show ?thesis
      using cancel_dependent_start_fields(1,3) [where x = x and d = d and st = st] by (simp add: fold_cancel_outside)
  next
    case False
    with Cons.prems have "deps (cancel_dependent_start x e st) d = deps st d"
      by (intro cancel_dependent_start_other [of _ ds]) auto
    with Cons False show ?thesis using Cons.IH [of "cancel_dependent_start x e st"] by simp
  qed
qed simp

lemma fold_cancel_count:
  "distinct ds \<Longrightarrow> required_by (svcs (fold (cancel_dependent_start x) ds st) x) =
     required_by (svcs st x) - int (length (filter (\<lambda>d. holding_acq (deps st d)) ds))"
proof (induction ds arbitrary: st)
  case (Cons d ds)
  have "filter (\<lambda>e. holding_acq (deps (cancel_dependent_start x d st) e)) ds = filter (\<lambda>e. holding_acq (deps st e)) ds"
    using Cons.prems by (intro filter_cong) (simp_all add: cancel_dependent_start_other [of d ds])
  with Cons show ?case by (simp add: cancel_dependent_start_fields(4))
qed simp

lemma fold_cancel_service:
  "start_explicit (svcs (fold (cancel_dependent_start x) ds st) x) = start_explicit (svcs st x)"
  "service_state (svcs (fold (cancel_dependent_start x) ds st) y) = service_state (svcs st y)"
  "have_console (svcs (fold (cancel_dependent_start x) ds st) y) = have_console (svcs st y)"
  "dependents (svcs (fold (cancel_dependent_start x) ds st) y) = dependents (svcs st y)"
  "dep_type (deps (fold (cancel_dependent_start x) ds st) d) = dep_type (deps st d)"
  "desired_state (svcs st x) = STOPPED \<Longrightarrow> desired_state (svcs (fold (cancel_dependent_start x) ds st) x) = STOPPED"
  by (induction ds arbitrary: st) (auto simp: cancel_dependent_start_fields)

lemma fold_cancel_failure_mono:
  "prop_failure (svcs st y) \<Longrightarrow> prop_failure (svcs (fold (cancel_dependent_start x) ds st) y)"
  by (induction ds arbitrary: st) (auto simp: cancel_dependent_start_fields)

lemma fold_cancel_failure:
  "distinct ds \<Longrightarrow> d \<in> set ds \<Longrightarrow> dep_type (deps st d) \<in> {REGULAR, MILESTONE} \<Longrightarrow>
     service_state (svcs st (dep_from (deps st d))) = STARTING \<Longrightarrow>
     prop_failure (svcs (fold (cancel_dependent_start x) ds st) (dep_from (deps st d)))"
proof (induction ds arbitrary: st)
  case (Cons e ds)
  show ?case
  proof (cases "d = e")
    case True
    with Cons.prems have "prop_failure (svcs (cancel_dependent_start x e st) (dep_from (deps st d)))"
      by (intro cancel_dependent_start_fields(8)) auto
    then show ?thesis using True by (simp add: fold_cancel_failure_mono)
  next
    case False
    then have "deps (cancel_dependent_start x e st) d = deps st d" by (rule cancel_dependent_start_fields(2))
    with Cons.IH [of "cancel_dependent_start x e st"] Cons.prems False show ?thesis
      by (simp add: cancel_dependent_start_fields(6))
  qed
qed simp

text \<open>The state in which \<^verbatim>\<open>failed_to_start\<close> turns to the dependents.\<close>

definition give_up_start :: "sid \<Rightarrow> sset \<Rightarrow> sset" where
  "give_up_start x st =
     (let st = upd_svc x (\<lambda>s. s\<lparr>desired_state := STOPPED\<rparr>) st;
          st = (if waiting_for_console (svcs st x)
                then upd_svc x (\<lambda>s. s\<lparr>waiting_for_console := False\<rparr>) (unqueue_console x st) else st)
      in if start_explicit (svcs st x)
         then release_count x (upd_svc x (\<lambda>s. s\<lparr>start_explicit := False\<rparr>) st) else st)"

lemma unqueue_console_fields [simp]:
  "svcs (unqueue_console x st) = svcs st" "deps (unqueue_console x st) = deps st"
  by (auto simp: unqueue_console_def)

lemma give_up_start_fields:
  "deps (give_up_start x st) = deps st" "dependents (svcs (give_up_start x st) y) = dependents (svcs st y)"
  "\<not> start_explicit (svcs (give_up_start x st) x)" "desired_state (svcs (give_up_start x st) x) = STOPPED"
  "required_by (svcs (give_up_start x st) x) = required_by (svcs st x) - of_bool (start_explicit (svcs st x))"
  "service_state (svcs (give_up_start x st) y) = service_state (svcs st y)"
  "have_console (svcs (give_up_start x st) y) = have_console (svcs st y)"
  by (auto simp: give_up_start_def Let_def release_count_fields)

lemma mark_failed_alt:
  "mark_failed_to_start depfailed x st =
     (let st = fold (cancel_dependent_start x) (dependents (svcs st x)) (give_up_start x st);
          st = upd_svc x (\<lambda>s. s\<lparr>start_failed := True\<rparr>) st;
          st = emit (Log_failed (service_name (svcs st x)) depfailed) st;
          st = notify_listeners x EV_FAILEDSTART st
      in upd_svc x (\<lambda>s. s\<lparr>pinned_started := False\<rparr>) st)"
  unfolding mark_failed_to_start_def give_up_start_fields(2) [of x st x, symmetric]
  by (simp add: give_up_start_def Let_def)

text \<open>
  C8. When the start of a service fails, nothing keeps it: it is not explicitly activated any more,
  no dependent holds an acquisition of it, its acquisition count has gone down by exactly these,
  its desired state is \<open>STOPPED\<close> and its start pin is gone. Every dependent that was starting and
  needs it (\<open>REGULAR\<close>, \<open>MILESTONE\<close>) is marked to fail too, and no other dependent waits for it.
\<close>

theorem failed_start_releases:
  fixes depfailed x st
  assumes "distinct (dependents (svcs st x))"
  defines "st' \<equiv> mark_failed_to_start depfailed x st"
  shows "\<not> start_explicit (svcs st' x) \<and> desired_state (svcs st' x) = STOPPED \<and>
    start_failed (svcs st' x) \<and> \<not> pinned_started (svcs st' x) \<and>
    required_by (svcs st' x) = required_by (svcs st x) - of_bool (start_explicit (svcs st x))
       - int (length (filter (\<lambda>d. holding_acq (deps st d)) (dependents (svcs st x)))) \<and>
    (\<forall>d\<in>set (dependents (svcs st x)). \<not> holding_acq (deps st' d) \<and>
       (if dep_type (deps st d) \<in> {REGULAR, MILESTONE}
        then service_state (svcs st (dep_from (deps st d))) = STARTING \<longrightarrow> prop_failure (svcs st' (dep_from (deps st d)))
        else \<not> waiting_on (deps st' d)))"
  using assms(1) fold_cancel_failure [OF assms(1), of _ "give_up_start x st" x]
    fold_cancel_links [OF assms(1), of _ x "give_up_start x st"]
  by (auto simp: st'_def mark_failed_alt Let_def fold_cancel_count fold_cancel_service give_up_start_fields)

theorem failed_start_releases_witness:
  "required_by (svcs (mark_failed_to_start False 1 sample_up) 1) = 0 \<and> \<not> holding_acq (deps (mark_failed_to_start False 1 sample_up) 0)"
proof -
  have "distinct (dependents (svcs sample_up 1))" "dependents (svcs sample_up 1) = [0]" "required_by (svcs sample_up 1) = 1"
    "\<not> start_explicit (svcs sample_up 1)" "holding_acq (deps sample_up 0)"
    by code_simp+
  then show ?thesis using failed_start_releases [of sample_up 1 False] by (simp del: One_nat_def)
qed

lemma break_soft_link_idle: "\<not> waiting_on (deps st d) \<Longrightarrow> \<not> holding_acq (deps st d) \<Longrightarrow> break_soft_link x d st = st"
  by (simp add: break_soft_link_def)

lemma fold_break_idle:
  "(\<And>d. d \<in> set ds \<Longrightarrow> \<not> holding_acq (deps st d) \<and> (is_hard (deps st d) \<or> \<not> waiting_on (deps st d))) \<Longrightarrow>
     fold (\<lambda>d st. if \<not> is_hard (deps st d) then break_soft_link x d st else st) ds st = st"
proof (induction ds)
  case (Cons d ds)
  then have "(if \<not> is_hard (deps st d) then break_soft_link x d st else st) = st"
    by (auto intro: break_soft_link_idle)
  with Cons show ?case by simp
qed simp

lemma dependent_stopped_fields:
  "svcs (dependent_stopped y st) = svcs st" "deps (dependent_stopped y st) = deps st"
  "procs (dependent_stopped y st) = procs st" "active_services (dependent_stopped y st) = active_services st"
  "restart_enabled (dependent_stopped y st) = restart_enabled st"
  by (auto simp: dependent_stopped_def add_transition_queue_def)

lemma fold_dependent_stopped:
  fixes ds st
  defines "st' \<equiv> fold (\<lambda>d st. dependent_stopped (dep_to (deps st d)) st) ds st"
  shows "svcs st' = svcs st" "deps st' = deps st" "procs st' = procs st" "active_services st' = active_services st"
    "restart_enabled st' = restart_enabled st"
  unfolding st'_def by (induction ds arbitrary: st) (simp_all add: dependent_stopped_fields)

lemma becoming_inactive_fields [simp]:
  "svcs (becoming_inactive x st) = svcs st" "deps (becoming_inactive x st) = deps st"
  "active_services (becoming_inactive x st) = active_services st"
  by (simp_all add: becoming_inactive_def close_fd_def upd_proc_def emit_def)

lemma active_services_upd [simp]:
  "active_services (upd_svc x f st) = active_services st" "active_services (upd_proc x g st) = active_services st"
  "active_services (upd_dep d h st) = active_services st" "active_services (emit e st) = active_services st"
  "active_services (notify_listeners x ev st) = active_services st"
  "active_services (add_prop_queue x st) = active_services st"
  "active_services (add_transition_queue x st) = active_services st"
  by (simp_all add: upd_svc_def upd_proc_def upd_dep_def emit_def notify_listeners_def add_prop_queue_def
      add_transition_queue_def)

lemma active_release_count [simp]: "active_services (release_count x st) = active_services st"
  by (simp add: release_count_def Let_def)

lemma active_cancel: "active_services (fold (cancel_dependent_start x) ds st) = active_services st"
  by (induction ds arbitrary: st)
    (auto simp: cancel_dependent_start_def dependency_started_def Let_def split: dependency_type.split)

lemma active_mark_failed [simp]: "active_services (mark_failed_to_start b x st) = active_services st"
  by (simp add: mark_failed_alt Let_def active_cancel) (simp add: give_up_start_def Let_def unqueue_console_def)

text \<open>A service that fails to start and does not have the console stops without further calls.\<close>

lemma stopped_for_good:
  assumes "\<not> have_console (svcs st x)" "desired_state (svcs st x) = STOPPED" "\<not> start_explicit (svcs st x)"
    and "start_failed (svcs st x)"
    and "\<And>d. d \<in> set (dependents (svcs st x)) \<Longrightarrow>
      \<not> holding_acq (deps st d) \<and> (is_hard (deps st d) \<or> \<not> waiting_on (deps st d))"
  shows "\<exists>st'. stopped C x st = Some st' \<and> service_state (svcs st' x) = STOPPED \<and> \<not> force_stop (svcs st' x) \<and>
    deps st' = deps st \<and> active_services st' = active_services st - of_bool (required_by (svcs st x) = 0)"
proof -
  let ?u = "upd_svc x (\<lambda>s. s\<lparr>force_stop := False\<rparr>) st"
  let ?f = "\<lambda>d st. if \<not> is_hard (deps st d) then break_soft_link x d st else st"
  have "fold ?f (dependents (svcs st x)) ?u = ?u" using assms(5) by (intro fold_break_idle) simp
  then show ?thesis
    using assms
    by (simp add: stopped_def Let_def fold_dependent_stopped service_inactive_def)
qed



section \<open>A successful start\<close>

lemma set_wq_add [simp]: "set (wq_add e q) = insert e (set q)"
  by (auto simp: wq_add_def wq_queued_def dest: in_set_butlastD)

lemma notify_waiting_dept_fields:
  "svcs (notify_waiting_dept d st) = svcs st" "\<not> waiting_on (deps (notify_waiting_dept d st) d)"
  "e \<noteq> d \<Longrightarrow> deps (notify_waiting_dept d st) e = deps st e"
  "set (stop_queue st) \<subseteq> set (stop_queue (notify_waiting_dept d st))"
  "waiting_on (deps st d) \<Longrightarrow> service_state (svcs st (dep_from (deps st d))) = STARTING \<Longrightarrow>
     waiting_for_deps (svcs st (dep_from (deps st d))) \<Longrightarrow> dep_from (deps st d) \<in> set (stop_queue (notify_waiting_dept d st))"
  by (auto simp: notify_waiting_dept_def dependency_started_def add_transition_queue_def upd_dep_def)

lemma fold_notify_svcs: "svcs (fold notify_waiting_dept ds st) = svcs st"
  by (induction ds arbitrary: st) (simp_all add: notify_waiting_dept_fields)

lemma fold_notify_queue: "set (stop_queue st) \<subseteq> set (stop_queue (fold notify_waiting_dept ds st))"
  by (induction ds arbitrary: st) (use notify_waiting_dept_fields(4) in \<open>simp, fastforce\<close>)

lemma fold_notify_not_waiting:
  "\<not> waiting_on (deps st d) \<or> d \<in> set ds \<Longrightarrow> \<not> waiting_on (deps (fold notify_waiting_dept ds st) d)"
proof (induction ds arbitrary: st)
  case (Cons e ds)
  show ?case
    by (cases "d = e") (use Cons notify_waiting_dept_fields(2,3) in auto)
qed simp

lemma fold_notify_woken:
  "distinct ds \<Longrightarrow> d \<in> set ds \<Longrightarrow> waiting_on (deps st d) \<Longrightarrow>
     service_state (svcs st (dep_from (deps st d))) = STARTING \<Longrightarrow> waiting_for_deps (svcs st (dep_from (deps st d))) \<Longrightarrow>
     dep_from (deps st d) \<in> set (stop_queue (fold notify_waiting_dept ds st))"
proof (induction ds arbitrary: st)
  case (Cons e ds)
  show ?case
  proof (cases "d = e")
    case True
    then show ?thesis
      using Cons.prems notify_waiting_dept_fields(5) [of st d] fold_notify_queue [of "notify_waiting_dept d st" ds] by auto
  next
    case False
    then show ?thesis
      using Cons.IH [of "notify_waiting_dept e st"] Cons.prems by (simp add: notify_waiting_dept_fields(1,3))
  qed
qed simp



end
