(* ===== verification/Service_Links.thy ===== *)
theory Service_Links
  imports Service_System Starting
begin

text \<open>
  Loading services and changing their links (\<^verbatim>\<open>service.h\<close>): the constructor with its rollback, adding,
  removing and starting single dependencies, the list of records, unloading and placeholders. With
  these the links of a service set stay consistent, and the acquisition counts stay sound from the
  empty service set on.
\<close>

section \<open>Operations\<close>

text \<open>
  \<^verbatim>\<open>service_record(set, name, type, deplist)\<close>. Each preliminary dependency comes with the identity its
  link will have. Both the link and its entry in the list of dependents have to be allocated; if
  either fails, what was entered so far is taken out again and the exception goes on (\<open>False\<close>).
\<close>

definition enter_link :: "sid \<Rightarrow> did \<Rightarrow> sid \<Rightarrow> dependency_type \<Rightarrow> sset \<Rightarrow> sset" where
  "enter_link x d to ty st =
     upd_svc x (\<lambda>s. s\<lparr>depends_on := depends_on s @ [d]\<rparr>) (upd_dep d (\<lambda>_. new_dep x to ty) st)"

definition push_dependent :: "did \<Rightarrow> sid \<Rightarrow> sset \<Rightarrow> sset" where
  "push_dependent d to = upd_svc to (\<lambda>s. s\<lparr>dependents := dependents s @ [d]\<rparr>)"

definition pop_dependent :: "sid \<Rightarrow> sset \<Rightarrow> sset" where
  "pop_dependent to = upd_svc to (\<lambda>s. s\<lparr>dependents := butlast (dependents s)\<rparr>)"

definition rollback_links :: "sid \<Rightarrow> sset \<Rightarrow> sset" where
  "rollback_links x st = fold (\<lambda>d st. pop_dependent (dep_to (deps st d)) st) (depends_on (svcs st x)) st"

fun enter_links :: "os_env \<Rightarrow> sid \<Rightarrow> (did \<times> sid \<times> dependency_type) list \<Rightarrow> sset \<Rightarrow> bool \<times> sset" where
  "enter_links E x [] st = (True, st)"
| "enter_links E x ((d, to, ty) # ds) st =
     (let (ok, st) = ask (os_alloc E) st
      in if \<not> ok then (False, rollback_links x st)
         else
           (let st = enter_link x d to ty st;
                (ok, st) = ask (os_alloc E) st
            in if \<not> ok then
                 (False, rollback_links x (upd_svc x (\<lambda>s. s\<lparr>depends_on := butlast (depends_on s)\<rparr>) st))
               else enter_links E x ds (push_dependent d to st)))"

definition construct_service ::
  "os_env \<Rightarrow> sid \<Rightarrow> string \<Rightarrow> service_type_t \<Rightarrow> (did \<times> sid \<times> dependency_type) list \<Rightarrow> sset \<Rightarrow> bool \<times> sset" where
  "construct_service E x name ty ds st =
     enter_links E x ds (upd_svc x (\<lambda>_. (new_service_record name)\<lparr>record_type := ty\<rparr>)
                          (upd_proc x (\<lambda>_. new_proc_fields) st))"

definition add_service :: "sid \<Rightarrow> sset \<Rightarrow> sset" where
  "add_service x st = st\<lparr>records := records st @ [x]\<rparr>"

definition remove_service :: "sid \<Rightarrow> sset \<Rightarrow> sset" where
  "remove_service x st = st\<lparr>records := remove1 x (records st)\<rparr>"

definition replace_service :: "sid \<Rightarrow> sid \<Rightarrow> sset \<Rightarrow> sset" where
  "replace_service orig replacement st =
     st\<lparr>records := (let i = length (takeWhile (\<lambda>y. y \<noteq> orig) (records st)) in (records st)[i := replacement])\<rparr>"

text \<open>\<^verbatim>\<open>add_dep\<close>: the position is an index into the list of dependencies.\<close>

definition insert_at :: "nat \<Rightarrow> 'a \<Rightarrow> 'a list \<Rightarrow> 'a list" where
  "insert_at i d l = take i l @ d # drop i l"

definition emplace_dep :: "nat \<Rightarrow> did \<Rightarrow> sid \<Rightarrow> sid \<Rightarrow> dependency_type \<Rightarrow> sset \<Rightarrow> sset" where
  "emplace_dep i d x to ty st =
     upd_svc x (\<lambda>s. s\<lparr>depends_on := insert_at i d (depends_on s)\<rparr>) (upd_dep d (\<lambda>_. new_dep x to ty) st)"

definition add_dep ::
  "os_env \<Rightarrow> did \<Rightarrow> sid \<Rightarrow> sid \<Rightarrow> dependency_type \<Rightarrow> nat \<Rightarrow> sset \<Rightarrow> bool \<times> sset" where
  "add_dep E d x to ty i st =
     (let (ok, st) = ask (os_alloc E) st
      in if \<not> ok then (False, st)
         else
           (let st = emplace_dep i d x to ty st;
                (ok, st) = ask (os_alloc E) st
            in if \<not> ok then (False, upd_svc x (\<lambda>s. s\<lparr>depends_on := remove1 d (depends_on s)\<rparr>) st)
               else
                 (let st = push_dependent d to st;
                      to_state = service_state (svcs st to);
                      x_state = service_state (svcs st x)
                  in (True,
                      if ty \<noteq> BEFORE \<and> ty \<noteq> AFTER \<and> (ty = REGULAR \<or> to_state = STARTED \<or> to_state = STARTING) \<and>
                         (x_state = STARTING \<or> x_state = STARTED)
                      then upd_dep d (\<lambda>l. l\<lparr>holding_acq := True\<rparr>) (require to st) else st))))"

text \<open>\<^verbatim>\<open>rm_dep(iterator)\<close>: out of the target's list, released if it holds, then out of the own list.\<close>

definition rm_dep_at :: "nat \<Rightarrow> os_env \<Rightarrow> sid \<Rightarrow> did \<Rightarrow> sset \<Rightarrow> sset option" where
  "rm_dep_at n E x d st =
     (let to = dep_to (deps st d);
          st = upd_svc to (\<lambda>s. s\<lparr>dependents := remove1 d (dependents s)\<rparr>) st
      in do {
           st \<leftarrow> (if holding_acq (deps st d) then release n E to True st else Some st);
           Some (upd_svc x (\<lambda>s. s\<lparr>depends_on := remove1 d (depends_on s)\<rparr>) st)
         })"

definition rm_dep :: "nat \<Rightarrow> os_env \<Rightarrow> sid \<Rightarrow> sid \<Rightarrow> dependency_type \<Rightarrow> sset \<Rightarrow> (bool \<times> sset) option" where
  "rm_dep n E x to ty st =
     (case find (\<lambda>d. dep_to (deps st d) = to \<and> dep_type (deps st d) = ty) (depends_on (svcs st x)) of
        None \<Rightarrow> Some (False, st)
      | Some d \<Rightarrow> map_option (Pair True) (rm_dep_at n E x d st))"

definition rm_dep_link :: "nat \<Rightarrow> os_env \<Rightarrow> sid \<Rightarrow> did \<Rightarrow> sset \<Rightarrow> sset option" where
  "rm_dep_link n E x d st = (if d \<in> set (depends_on (svcs st x)) then rm_dep_at n E x d st else Some st)"

definition start_dep :: "did \<Rightarrow> sset \<Rightarrow> sset" where
  "start_dep d st =
     (if \<not> holding_acq (deps st d)
      then upd_dep d (\<lambda>l. l\<lparr>holding_acq := True\<rparr>) (require (dep_to (deps st d)) st) else st)"

text \<open>
  \<^verbatim>\<open>delete\<close>: the destructors. A placeholder closes the pipe it keeps, a process-based service ends
  its logging and a consumer withdraws from the service it consumes. The record is then blank.
\<close>

definition destroy_fields :: "sid \<Rightarrow> sset \<Rightarrow> sset" where
  "destroy_fields x st =
     (case record_type (svcs st x) of
        PLACEHOLDER \<Rightarrow>
          (if log_output_fd (procs st x) \<noteq> -1
           then close_fd (log_input_fd (procs st x)) (close_fd (log_output_fd (procs st x)) st) else st)
      | INTERNAL \<Rightarrow> st
      | TRIGGERED \<Rightarrow> st
      | SCRIPTED \<Rightarrow> set_log_mode x LOG_NONE st
      | _ \<Rightarrow>
          set_log_mode x LOG_NONE
            (case consumer_for (procs st x) of
               None \<Rightarrow> st
             | Some y \<Rightarrow> upd_svc y (\<lambda>s. s\<lparr>log_consumer := None\<rparr>) st))"

definition delete_record :: "sid \<Rightarrow> sset \<Rightarrow> sset" where
  "delete_record x st =
     upd_svc x (\<lambda>_. new_service_record []) (upd_proc x (\<lambda>_. new_proc_fields) (destroy_fields x st))"

definition drop_placeholder :: "sid \<Rightarrow> sset \<Rightarrow> sset" where
  "drop_placeholder y st =
     (if record_type (svcs st y) = PLACEHOLDER \<and> is_unrefd (svcs st y)
      then delete_record y (remove_service y st) else st)"

definition prepare_for_unload :: "nat \<Rightarrow> os_env \<Rightarrow> sid \<Rightarrow> sset \<Rightarrow> sset option" where
  "prepare_for_unload n E x st =
     (let st = fold (\<lambda>d st.
                 (let to = dep_to (deps st d);
                      st = upd_svc to (\<lambda>s. s\<lparr>dependents := remove1 d (dependents s)\<rparr>) st
                  in if dep_type (deps st d) = AFTER then drop_placeholder to st else st))
               (depends_on (svcs st x)) st;
          st = upd_svc x (\<lambda>s. s\<lparr>depends_on := []\<rparr>) st
      in fold_opt (\<lambda>d st.
           (let from = dep_from (deps st d)
            in map_option (drop_placeholder from) (rm_dep_link n E from d st)))
         (dependents (svcs st x)) st)"

text \<open>
  \<^verbatim>\<open>unload_service\<close>. The record that becomes the placeholder, if one is needed, is the argument \<open>ph\<close>.
\<close>

definition make_placeholder :: "sid \<Rightarrow> sid \<Rightarrow> sset \<Rightarrow> sset" where
  "make_placeholder ph x st =
     (if ph \<in> set (records st) then st
      else add_service ph (upd_svc ph (\<lambda>_. new_service_record (service_name (svcs st x)))
                            (upd_proc ph (\<lambda>_. new_proc_fields) st)))"

definition hand_over_pipe :: "sid \<Rightarrow> sid \<Rightarrow> sset \<Rightarrow> sset" where
  "hand_over_pipe ph x st =
     (let st = make_placeholder ph x st;
          (fds, st) = transfer_output_pipe x st
      in upd_proc ph (\<lambda>p. p\<lparr>log_input_fd := fst fds, log_output_fd := snd fds\<rparr>) st)"

definition move_after_dept :: "sid \<Rightarrow> sid \<Rightarrow> did \<Rightarrow> sset \<Rightarrow> sset" where
  "move_after_dept ph x d st =
     (if dep_type (deps st d) = AFTER then
        (let st = make_placeholder ph x st;
             st = upd_dep d (\<lambda>l. l\<lparr>dep_to := ph\<rparr>) st;
             st = upd_svc x (\<lambda>s. s\<lparr>dependents := remove1 d (dependents s)\<rparr>) st
         in push_dependent d ph st)
      else st)"

definition move_before_dep :: "sid \<Rightarrow> sid \<Rightarrow> did \<Rightarrow> sset \<Rightarrow> sset" where
  "move_before_dep ph x d st =
     (if dep_type (deps st d) = BEFORE then
        (let st = make_placeholder ph x st;
             st = upd_dep d (\<lambda>l. l\<lparr>dep_from := ph\<rparr>) st;
             st = upd_svc x (\<lambda>s. s\<lparr>depends_on := remove1 d (depends_on s)\<rparr>) st
         in upd_svc ph (\<lambda>s. s\<lparr>depends_on := depends_on s @ [d]\<rparr>) st)
      else st)"

definition unload_service :: "nat \<Rightarrow> os_env \<Rightarrow> sid \<Rightarrow> sid \<Rightarrow> sset \<Rightarrow> sset option" where
  "unload_service n E ph x st =
     (let st = (if log_consumer (svcs st x) \<noteq> None then hand_over_pipe ph x st else st);
          st = fold (move_after_dept ph x) (dependents (svcs st x)) st;
          st = fold (move_before_dep ph x) (depends_on (svcs st x)) st
      in do {
           st \<leftarrow> prepare_for_unload n E x st;
           Some (delete_record x (remove_service x st))
         })"

section \<open>The links stay consistent\<close>

text \<open>Every acquisition of a service in the count has a reason that can still be given back.\<close>

definition sound :: "sset \<Rightarrow> bool" where
  "sound st \<longleftrightarrow> wf_links st \<and> (\<forall>x. 0 \<le> slack st x)"

definition fresh_link :: "did \<Rightarrow> sset \<Rightarrow> bool" where
  "fresh_link d st \<longleftrightarrow> (\<forall>x. d \<notin> set (dependents (svcs st x)) \<and> d \<notin> set (depends_on (svcs st x)))"

text \<open>During the removal of a link only the lists of dependents are consistent.\<close>

definition dept_step :: "sset \<Rightarrow> sset \<Rightarrow> bool" where
  "dept_step a b \<longleftrightarrow> same_links a b \<and> (wf_depts a \<longrightarrow> (\<forall>x. slack a x \<le> slack b x))"

lemma dept_stepI: "same_links a b \<Longrightarrow> (\<And>x. wf_depts a \<Longrightarrow> slack a x \<le> slack b x) \<Longrightarrow> dept_step a b"
  by (simp add: dept_step_def)

lemma dept_step_same:
  assumes "same_links a b"
    and "\<And>x. required_by (svcs b x) = required_by (svcs a x) \<and> start_explicit (svcs b x) = start_explicit (svcs a x)"
    and "\<And>d. holding_acq (deps b d) = holding_acq (deps a d)"
  shows "dept_step a b"
  using assms held_cong [OF assms(1)] by (intro dept_stepI) (simp_all add: slack_def)

interpretation dept: quiet_relation dept_step
proof
  show "dept_step a b \<Longrightarrow> dept_step b c \<Longrightarrow> dept_step a c" for a b c
    unfolding dept_step_def by (meson order_trans same_links_trans wf_links_same(1))
  show "holding_acq (deps a d) \<Longrightarrow> d \<in> set (dependents (svcs a x)) \<Longrightarrow>
          dept_step a (dec_required x (drop_link d a))" for a d x
    by (rule dept_stepI, simp add: same_links_def) (rule slack_drop)
  show "quiet f \<Longrightarrow> dept_step a (upd_svc x f a)" for f x a
    by (rule dept_step_same) (simp_all add: quiet_def same_links_def)
  show "start_explicit (svcs a x) \<Longrightarrow>
          dept_step a (dec_required x (upd_svc x (\<lambda>s. s\<lparr>start_explicit := False\<rparr>) a))" for a x
    by (rule dept_stepI) (auto simp: same_links_def slack_def)
  show "dept_step a b \<Longrightarrow> same_links a b" for a b
    by (simp add: dept_step_def)
qed (rule dept_step_same; simp add: same_links_def emit_def calm_defs)+

lemma sound_step: "acq_step a b \<Longrightarrow> sound a \<Longrightarrow> sound b"
  unfolding sound_def acq_step_def using wf_links_same(2) order_trans by blast

lemma held_cong_all:
  "dependents (svcs b x) = dependents (svcs a x) \<Longrightarrow>
   (\<And>d. d \<in> set (dependents (svcs a x)) \<Longrightarrow> deps b d = deps a d) \<Longrightarrow> held b x = held a x"
  by (simp add: held_def cong: filter_cong)

text \<open>Entering a fresh link.\<close>

lemma sound_insert:
  assumes "sound a" "fresh_link d a"
    and "\<And>y. dependents (svcs b y) = dependents (svcs a y) @ (if y = to then [d] else [])"
    and "\<And>y. distinct (depends_on (svcs b y))"
    and "\<And>y. set (depends_on (svcs b y)) = set (depends_on (svcs a y)) \<union> (if y = x then {d} else {})"
    and "deps b = (deps a)(d := new_dep x to ty)"
    and "\<And>y. required_by (svcs b y) = required_by (svcs a y) \<and> start_explicit (svcs b y) = start_explicit (svcs a y)"
  shows "sound b"
proof -
  have "filter (\<lambda>e. holding_acq (deps b e)) (dependents (svcs a y)) = filter (\<lambda>e. holding_acq (deps a e)) (dependents (svcs a y))" for y
    using assms(2) by (intro filter_cong [OF HOL.refl]) (auto simp: assms(6) fresh_link_def)
  moreover have "\<not> holding_acq (deps b d)" by (simp add: assms(6) new_dep_def)
  ultimately have "held b y = held a y" for y by (simp add: held_def assms(3))
  then have "slack b y = slack a y" for y by (simp add: slack_def assms(7))
  moreover have wf: "wf_links a" using assms(1) by (simp add: sound_def)
  have old: "e \<in> set (dependents (svcs a y)) \<Longrightarrow> deps b e = deps a e" "e \<in> set (depends_on (svcs a y)) \<Longrightarrow> deps b e = deps a e" for e y
    using assms(2) by (auto simp: assms(6) fresh_link_def)
  have new: "deps b d = new_dep x to ty" by (simp add: assms(6))
  have "wf_depts b"
    using wf assms(2) unfolding wf_links_def wf_depts_def assms(3)
    by (auto simp: old new new_dep_def fresh_link_def)
  moreover have "dep_from (deps b e) = y \<and> e \<in> set (dependents (svcs b (dep_to (deps b e))))"
    if "e \<in> set (depends_on (svcs b y))" for e y
    using that wf unfolding assms(3,5) by (auto simp: old new new_dep_def wf_links_def split: if_splits)
  ultimately show ?thesis using assms(1,4) by (auto simp: sound_def wf_links_def)
qed

lemma sound_cong:
  assumes "svcs b = svcs a" "deps b = deps a"
  shows "sound b = sound a" "fresh_link d b = fresh_link d a"
  using assms by (simp_all add: sound_def wf_links_def wf_depts_def slack_def held_def fresh_link_def)

lemma sound_calls: "sound (upd_svc x f (st\<lparr>os_calls := k\<rparr>)) = sound (upd_svc x f st)"
  by (rule sound_cong) simp_all

lemma sound_enter:
  assumes "sound st" "fresh_link d st"
  shows "sound (push_dependent d to (enter_link x d to ty st))"
  by (rule sound_insert [OF assms])
    (use assms in \<open>auto simp: push_dependent_def enter_link_def sound_def wf_links_def fresh_link_def\<close>)

lemma fresh_enter:
  "fresh_link e st \<Longrightarrow> e \<noteq> d \<Longrightarrow> fresh_link e (push_dependent d to (enter_link x d to ty st))"
  by (simp add: fresh_link_def push_dependent_def enter_link_def)

text \<open>One round of the constructor's loop, on success.\<close>

lemma enter_links_Cons:
  assumes "enter_links E x ((d, to, ty) # ds) st = (True, st')"
  obtains st2 where "enter_links E x ds st2 = (True, st')"
    and "svcs st2 = svcs (push_dependent d to (enter_link x d to ty st))"
    and "deps st2 = deps (push_dependent d to (enter_link x d to ty st))"
  using assms by (fastforce simp: Let_def ask_def push_dependent_def enter_link_def split: if_splits)

lemma enter_links_sound:
  assumes "enter_links E x ds st = (True, st')" "sound st" "distinct (map fst ds)" "\<And>d. d \<in> set (map fst ds) \<Longrightarrow> fresh_link d st"
  shows "sound st'"
  using assms
proof (induction ds arbitrary: st)
  case (Cons p ds)
  obtain d to ty where p: "p = (d, to, ty)" by (cases p)
  let ?b = "push_dependent d to (enter_link x d to ty st)"
  obtain st2 where st2: "enter_links E x ds st2 = (True, st')" "svcs st2 = svcs ?b" "deps st2 = deps ?b"
    using enter_links_Cons [OF Cons.prems(1) [unfolded p]] .
  note same = sound_cong [OF st2(2,3)]
  show ?case
  proof (rule Cons.IH [OF st2(1)])
    show "sound st2" using Cons.prems by (simp add: same p sound_enter)
    show "fresh_link e st2" if "e \<in> set (map fst ds)" for e
      using that Cons.prems by (auto simp: same p intro!: fresh_enter)
  qed (use Cons.prems in simp)
qed simp

text \<open>A record nobody refers to can be replaced by a blank one.\<close>

lemma sound_blank:
  assumes "sound st" "dependents (svcs st x) = []" "depends_on (svcs st x) = []"
    and "dependents r = []" "depends_on r = []" "required_by r = 0" "\<not> start_explicit r"
  shows "sound (upd_svc x (\<lambda>_. r) st)"
proof -
  have "held (upd_svc x (\<lambda>_. r) st) y = held st y" for y using assms by (simp add: held_def)
  then have "0 \<le> slack (upd_svc x (\<lambda>_. r) st) y" for y
    using assms by (simp add: slack_def sound_def) (simp add: held_def)
  moreover have "dep_to (deps st d) \<noteq> x" if "d \<in> set (depends_on (svcs st y))" for d y
    using that assms(1,2) by (fastforce simp: sound_def wf_links_def)
  ultimately show ?thesis using assms by (auto simp: sound_def wf_links_def wf_depts_def)
qed

text \<open>Adding and starting a dependency.\<close>

lemma sound_require_hold:
  assumes "sound st" "dep_to (deps st d) = to"
  shows "sound (hold_link d (require to st))"
proof -
  have "acq_step st (require to (hold_link d st))"
    unfolding assms(2) [symmetric] by (rule acq.require) (rule acq.hold)
  then show ?thesis using sound_step [OF _ assms(1)] by (simp add: require_upd_dep)
qed

lemma insert_at:
  assumes "distinct l" "d \<notin> set l"
  shows "distinct (insert_at i d l)" "set (insert_at i d l) = insert d (set l)" "remove1 d (insert_at i d l) = l"
proof -
  obtain u v where "take i l = u" "drop i l = v" "l = u @ v" by (metis append_take_drop_id)
  then show "distinct (insert_at i d l)" "set (insert_at i d l) = insert d (set l)" "remove1 d (insert_at i d l) = l"
    using assms by (auto simp: remove1_append insert_at_def)
qed

lemma sound_upd_fresh: "fresh_link d st \<Longrightarrow> sound st \<Longrightarrow> sound (upd_dep d f st)"
  by (auto simp: sound_def wf_links_def wf_depts_def slack_def held_upd_dep fresh_link_def)

lemma sound_emplace:
  assumes "sound st" "fresh_link d st"
  shows "sound (push_dependent d to (emplace_dep i d x to ty st))"
    and "sound (upd_svc x (\<lambda>s. s\<lparr>depends_on := remove1 d (depends_on s)\<rparr>) (emplace_dep i d x to ty st))"
proof -
  have l: "distinct (depends_on (svcs st y))" "d \<notin> set (depends_on (svcs st y))" for y
    using assms by (simp_all add: sound_def wf_links_def fresh_link_def)
  show "sound (push_dependent d to (emplace_dep i d x to ty st))"
    by (rule sound_insert [OF assms]) (auto simp: push_dependent_def emplace_dep_def l insert_at)
  have "upd_svc x (\<lambda>s. s\<lparr>depends_on := remove1 d (depends_on s)\<rparr>) (emplace_dep i d x to ty st) =
      upd_dep d (\<lambda>_. new_dep x to ty) st"
    by (simp add: emplace_dep_def upd_svc_def upd_dep_def insert_at l)
  then show "sound (upd_svc x (\<lambda>s. s\<lparr>depends_on := remove1 d (depends_on s)\<rparr>) (emplace_dep i d x to ty st))"
    using sound_upd_fresh [OF assms(2,1)] by simp
qed

lemma sound_add_dep:
  assumes "sound st" "fresh_link d st"
  shows "sound (snd (add_dep E d x to ty i st))"
proof -
  define st1 where "st1 = st\<lparr>os_calls := Suc (os_calls st)\<rparr>"
  have st1: "sound st1" "fresh_link d st1"
    using assms sound_cong [of st1 st] by (simp_all add: st1_def)
  define st2 where "st2 = (emplace_dep i d x to ty st1)\<lparr>os_calls := Suc (os_calls (emplace_dep i d x to ty st1))\<rparr>"
  have pushed: "sound (push_dependent d to st2)" and
    "sound (upd_svc x (\<lambda>s. s\<lparr>depends_on := remove1 d (depends_on s)\<rparr>) st2)"
    using sound_emplace [OF st1, of to i x ty] sound_emplace(2) [OF st1, of x i to ty]
    by (simp_all add: st2_def sound_calls push_dependent_def)
  moreover have "sound (hold_link d (require to (push_dependent d to st2)))"
    by (rule sound_require_hold [OF pushed]) (simp add: push_dependent_def st2_def emplace_dep_def new_dep_def)
  ultimately show ?thesis
    using st1 pushed by (simp add: add_dep_def ask_def Let_def st1_def st2_def)
qed

text \<open>Removing a dependency.\<close>

lemma held_remove:
  assumes "wf_depts a" "d \<in> set (dependents (svcs a to))"
  shows "held (upd_svc to (\<lambda>s. s\<lparr>dependents := remove1 d (dependents s)\<rparr>) a) y + of_bool (y = to \<and> holding_acq (deps a d)) = held a y"
proof -
  have "length (filter P (remove1 d l)) + of_bool (P d) = length (filter P l)" if "d \<in> set l" for P and l :: "nat list"
    using that by (induction l) auto
  from this [OF assms(2), of "\<lambda>e. holding_acq (deps a e)"] show ?thesis
    by (cases "y = to") (simp_all add: held_def)
qed

lemma sound_rm_dep_at:
  assumes "rm_dep_at n E x d st = Some st'" "sound st" "d \<in> set (depends_on (svcs st x))"
  shows "sound st'"
proof -
  define to where "to = dep_to (deps st d)"
  define st1 where "st1 = upd_svc to (\<lambda>s. s\<lparr>dependents := remove1 d (dependents s)\<rparr>) st"
  have wf: "wf_links st" and dt: "d \<in> set (dependents (svcs st to))"
    using assms(2,3) by (auto simp: sound_def wf_links_def to_def)
  have depts1: "wf_depts st1"
    using wf by (auto simp: wf_links_def wf_depts_def st1_def)
  have slack1: "slack st1 y = slack st y + of_bool (y = to \<and> holding_acq (deps st d))" for y
    using held_remove [OF wf_linksD(1) [OF wf] dt, of y] by (auto simp: slack_def st1_def split: if_splits)
  obtain st2 where st2: "st' = upd_svc x (\<lambda>s. s\<lparr>depends_on := remove1 d (depends_on s)\<rparr>) st2"
    and r: "(if holding_acq (deps st d) then release n E to True st1 else Some st1) = Some st2"
    using assms(1) unfolding rm_dep_at_def Let_def to_def [symmetric] st1_def [symmetric]
    by (auto simp: st1_def split: bind_splits)
  have "same_links st1 st2 \<and> (\<forall>y. 0 \<le> slack st2 y)"
  proof (cases "holding_acq (deps st d)")
    case True
    have "dept_step (dec_required to st1) st2"
      using yieldsD [OF dept.release [OF dept.refl]] r True by simp
    moreover have "slack (dec_required to st1) y = slack st1 y - of_bool (y = to)" for y by (simp add: slack_def)
    then have "0 \<le> slack (dec_required to st1) y" for y
      using slack1 [of y] True assms(2) by (simp add: sound_def)
    have dec: "same_links st1 (dec_required to st1)" by (simp add: same_links_def)
    then have "wf_depts (dec_required to st1)" using depts1 wf_links_same(1) by blast
    with calculation \<open>\<And>y. 0 \<le> slack (dec_required to st1) y\<close> have "0 \<le> slack st2 y" for y
      unfolding dept_step_def by (meson order_trans)
    moreover have "same_links st1 st2"
      using calculation(1) dec same_links_trans by (auto simp: dept_step_def)
    ultimately show ?thesis by simp
  next
    case False
    then show ?thesis using r slack1 assms(2) by (simp add: sound_def)
  qed
  then have links: "same_links st1 st2" and "\<forall>y. 0 \<le> slack st2 y" by simp_all
  then have "\<forall>y. 0 \<le> slack st' y" by (simp add: st2 slack_def)
  moreover have "wf_depts st'" using depts1 by (simp add: st2 wf_depts_def same_linksD [OF links])
  moreover have own: "depends_on (svcs st' y) = (if y = x then remove1 d (depends_on (svcs st y)) else depends_on (svcs st y))" for y
    by (simp add: st2 same_linksD [OF links]) (simp add: st1_def)
  have "distinct (depends_on (svcs st' y))" for y using wf by (simp add: own wf_links_def)
  moreover have "dep_from (deps st' e) = y \<and> e \<in> set (dependents (svcs st' (dep_to (deps st' e))))"
    if "e \<in> set (depends_on (svcs st' y))" for e y
  proof -
    have e: "e \<in> set (depends_on (svcs st y))"
      using that set_remove1_subset [of d "depends_on (svcs st x)"] by (auto simp: own split: if_splits)
    have "dep_from (deps st e) = y" "dep_from (deps st d) = x" "distinct (depends_on (svcs st y))"
      using wf e assms(3) by (simp_all add: wf_links_def)
    then have "e \<noteq> d" using that by (auto simp: own)
    with e show ?thesis using wf
      by (simp add: st2 same_linksD [OF links]) (auto simp: st1_def wf_links_def)
  qed
  ultimately have "wf_links st'" by (simp add: wf_links_def)
  with \<open>\<forall>y. 0 \<le> slack st' y\<close> show ?thesis by (simp add: sound_def)
qed

section \<open>From the empty service set\<close>

text \<open>
  Everything that can happen to a service set while its services stay loaded: services are
  constructed and added, dependencies are added, removed and started, and the service manager takes
  the steps of \<open>sys_step\<close>. A record and a link that are being constructed are new.
\<close>

inductive set_reach :: "os_env \<Rightarrow> sset \<Rightarrow> bool" for E :: os_env where
  empty_set: "set_reach E new_service_set"
| load: "set_reach E st \<Longrightarrow> x \<notin> set (records st) \<Longrightarrow> dependents (svcs st x) = [] \<Longrightarrow> depends_on (svcs st x) = [] \<Longrightarrow>
     distinct (map fst ds) \<Longrightarrow> list_all (\<lambda>d. fresh_link d st) (map fst ds) \<Longrightarrow>
     construct_service E x name ty ds st = (True, st') \<Longrightarrow> set_reach E (add_service x st')"
| add: "set_reach E st \<Longrightarrow> fresh_link d st \<Longrightarrow> add_dep E d x to ty i st = (ok, st') \<Longrightarrow> set_reach E st'"
| remove: "set_reach E st \<Longrightarrow> rm_dep n E x to ty st = Some (ok, st') \<Longrightarrow> set_reach E st'"
| wake: "set_reach E st \<Longrightarrow> set_reach E (start_dep d st)"
| run: "set_reach E st \<Longrightarrow> sys_step E st st' \<Longrightarrow> set_reach E st'"

lemma set_reach_sound: "set_reach E st \<Longrightarrow> sound st"
proof (induction rule: set_reach.induct)
  case empty_set
  show ?case by (simp add: sound_def wf_links_def wf_depts_def slack_def held_def new_service_set_def new_service_record_def)
next
  case (load st x ds name ty st')
  let ?st1 = "upd_svc x (\<lambda>_. (new_service_record name)\<lparr>record_type := ty\<rparr>) (upd_proc x (\<lambda>_. new_proc_fields) st)"
  have "sound (upd_proc x (\<lambda>_. new_proc_fields) st)" using load.IH sound_cong(1) [of "upd_proc x (\<lambda>_. new_proc_fields) st" st] by simp
  then have "sound ?st1"
    by (rule sound_blank) (simp_all add: load.hyps(3,4) new_service_record_def)
  moreover have "fresh_link d ?st1" if "d \<in> set (map fst ds)" for d
    using that load.hyps by (auto simp: fresh_link_def list_all_iff new_service_record_def)
  ultimately have "sound st'"
    using load.hyps by (auto simp: construct_service_def intro: enter_links_sound)
  then show ?case using sound_cong(1) [of "add_service x st'" st'] by (simp add: add_service_def)
next
  case (remove st n x to ty ok st')
  show ?case
  proof (cases "find (\<lambda>d. dep_to (deps st d) = to \<and> dep_type (deps st d) = ty) (depends_on (svcs st x))")
    case (Some d)
    then have "d \<in> set (depends_on (svcs st x))" by (auto simp: find_Some_iff)
    with Some remove show ?thesis by (auto simp: rm_dep_def dest: sound_rm_dep_at)
  qed (use remove in \<open>simp add: rm_dep_def\<close>)
next
  case (run st st')
  then show ?case using sound_step [OF acq.sys_step [OF _ acq.refl]] by blast
next
  case (add st d x to ty i ok st')
  then show ?case using sound_add_dep [of st d E x to ty i] by simp
next
  case (wake st d)
  then show ?case by (simp add: start_dep_def sound_require_hold)
qed


text \<open>Loading \<open>base\<close>, then \<open>net\<close> which depends on it, and starting that dependency.\<close>

definition loaded_base :: sset where
  "loaded_base = add_service 2 (snd (construct_service sample_os 2 ''base'' INTERNAL [] new_service_set))"

definition loaded_pair :: sset where
  "loaded_pair = start_dep 7 (add_service 1 (snd (construct_service sample_os 1 ''net'' PROCESS [(7, 2, REGULAR)] loaded_base)))"

lemma loaded_pair_reach: "set_reach sample_os loaded_pair"
proof -
  note defs = construct_service_def fresh_link_def new_service_set_def new_service_record_def add_service_def upd_svc_def upd_proc_def
  have "set_reach sample_os loaded_base"
    unfolding loaded_base_def
    by (rule set_reach.load [OF set_reach.empty_set, where ds = "[]" and name = "''base''" and ty = INTERNAL]) (simp_all add: defs)
  moreover have "fst (construct_service sample_os 1 ''net'' PROCESS [(7, 2, REGULAR)] loaded_base)"
    by (simp add: construct_service_def ask_def sample_os_def Let_def)
  ultimately show ?thesis
    unfolding loaded_pair_def
    by (intro set_reach.wake set_reach.load [where ds = "[(7, 2, REGULAR)]" and name = "''net''" and ty = PROCESS and st = loaded_base])
      (auto simp: prod_eq_iff, auto simp: loaded_base_def defs)
qed


section \<open>A failed construction leaves no trace\<close>

definition to_count :: "sset \<Rightarrow> sid \<Rightarrow> did list \<Rightarrow> nat" where
  "to_count st y ds = length (filter (\<lambda>d. dep_to (deps st d) = y) ds)"

lemma fold_pop_dependent:
  "svcs (fold (\<lambda>d st. pop_dependent (dep_to (deps st d)) st) ds st) y =
     (svcs st y)\<lparr>dependents := take (length (dependents (svcs st y)) - to_count st y ds) (dependents (svcs st y))\<rparr>"
proof (induction ds arbitrary: st)
  case (Cons d ds)
  have "to_count (pop_dependent (dep_to (deps st d)) st) y ds = to_count st y ds"
    by (simp add: to_count_def pop_dependent_def)
  then show ?case
    by (simp add: Cons.IH) (auto simp: pop_dependent_def to_count_def butlast_conv_take min_def)
qed (simp add: to_count_def)

text \<open>The state as the constructor found it, seen from a service under construction.\<close>

definition rolls_back :: "sid \<Rightarrow> sset \<Rightarrow> sset \<Rightarrow> bool" where
  "rolls_back x st0 st \<longleftrightarrow> (\<forall>y. y \<noteq> x \<longrightarrow> svcs (rollback_links x st) y = svcs st0 y)"

lemma rolls_back_enter:
  assumes "rolls_back x st0 st" "d \<notin> set (depends_on (svcs st x))" "to \<noteq> x"
    and "svcs st2 = svcs (push_dependent d to (enter_link x d to ty st))"
    and "deps st2 = deps (push_dependent d to (enter_link x d to ty st))"
  shows "rolls_back x st0 st2"
proof -
  have "to_count st2 y (depends_on (svcs st2 x)) = to_count st y (depends_on (svcs st x)) + of_bool (y = to)" if "y \<noteq> x" for y
  proof -
    have "filter (\<lambda>e. dep_to (deps st2 e) = y) (depends_on (svcs st x)) = filter (\<lambda>e. dep_to (deps st e) = y) (depends_on (svcs st x))"
      using assms(2) by (intro filter_cong [OF HOL.refl]) (auto simp: assms(5) push_dependent_def enter_link_def)
    then show ?thesis
      using assms(3) by (auto simp: to_count_def assms(4,5) push_dependent_def enter_link_def new_dep_def)
  qed
  then show ?thesis
    using assms(1) unfolding rolls_back_def rollback_links_def fold_pop_dependent
    by (auto simp: assms(4) push_dependent_def enter_link_def)
qed

lemma enter_links_rolls_back:
  assumes "enter_links E x ds st = (False, st')" "rolls_back x st0 st" "distinct (depends_on (svcs st x) @ map fst ds)"
    and "x \<notin> fst ` snd ` set ds" "y \<noteq> x"
  shows "svcs st' y = svcs st0 y"
  using assms(1-4)
proof (induction ds arbitrary: st)
  case (Cons p ds)
  obtain d to ty where p: "p = (d, to, ty)" by (cases p)
  let ?st1 = "st\<lparr>os_calls := Suc (os_calls st)\<rparr>"
  let ?b = "enter_link x d to ty ?st1"
  define st2 where "st2 = push_dependent d to (?b\<lparr>os_calls := Suc (os_calls ?b)\<rparr>)"
  have rb: "svcs (rollback_links x a) y = svcs st0 y"
    if "svcs a = svcs st" "\<And>e. e \<in> set (depends_on (svcs st x)) \<Longrightarrow> deps a e = deps st e" for a
  proof -
    have "to_count a y (depends_on (svcs a x)) = to_count st y (depends_on (svcs st x))"
      unfolding to_count_def that(1) by (rule length_filter_cong) (simp add: that(2))
    with Cons.prems(2) assms(5) show ?thesis
      by (simp add: rolls_back_def rollback_links_def fold_pop_dependent that(1))
  qed
  have "rolls_back x st0 st2"
    by (rule rolls_back_enter [OF Cons.prems(2), where d = d and to = to and ty = ty])
      (use Cons.prems(3,4) p in \<open>auto simp: st2_def push_dependent_def enter_link_def\<close>)
  moreover have own: "depends_on (svcs st2 x) = depends_on (svcs st x) @ [d]"
    by (auto simp: st2_def push_dependent_def enter_link_def)
  have dist: "distinct (depends_on (svcs st2 x) @ map fst ds)"
    using Cons.prems(3) unfolding own p by simp
  ultimately have IH: "enter_links E x ds st2 = (False, st') \<Longrightarrow> svcs st' y = svcs st0 y"
    using Cons.IH [OF _ _ dist] Cons.prems(4) p by simp
  have 1: "svcs (rollback_links x ?st1) y = svcs st0 y" by (rule rb) simp_all
  have 2: "svcs (rollback_links x (upd_svc x (\<lambda>s. s\<lparr>depends_on := butlast (depends_on s)\<rparr>) (?b\<lparr>os_calls := Suc (os_calls ?b)\<rparr>))) y = svcs st0 y"
    by (rule rb) (use Cons.prems(3) p in \<open>auto simp: enter_link_def\<close>)
  show ?case
    using Cons.prems(1) IH 1 2 unfolding p enter_links.simps ask_def Let_def st2_def
    by (simp split: if_splits)
qed simp


text \<open>The third allocation fails: the first link has been entered, the second only half.\<close>

definition failing_os :: os_env where
  "failing_os = sample_os\<lparr>os_alloc := (\<lambda>n. n < 3)\<rparr>"

lemma failing_construction:
  "map_prod id (\<lambda>st. (dependents (svcs st 0), depends_on (svcs st 9)))
     (construct_service failing_os 9 ''new'' INTERNAL [(7, 2, REGULAR), (8, 0, SOFT)] sample_set) = (False, [], [7])"
  by code_simp


section \<open>An ordering keeps a service running\<close>

text \<open>
  Links of type \<open>BEFORE\<close> and \<open>AFTER\<close> are documented as orderings, not dependencies, and neither adding
  such a link nor starting its dependent acquires the other service. Starting the other service
  does: the loop that re-attaches soft dependents takes every link that is not hard.
\<close>

lemma reattach_holding:
  "holding_acq (deps st d) \<Longrightarrow> holding_acq (deps (reattach_soft_dept x e st) d)"
  "\<not> is_hard (deps st d) \<Longrightarrow> d = e \<or> \<not> is_hard (deps (reattach_soft_dept x e st) d)"
  "service_state (svcs (reattach_soft_dept x e st) y) = service_state (svcs st y)"
  "dep_from (deps (reattach_soft_dept x e st) d) = dep_from (deps st d)"
  "required_by (svcs st x) \<le> required_by (svcs (reattach_soft_dept x e st) x)"
  by (auto simp: reattach_soft_dept_def Let_def is_hard_def)

lemma fold_reattach_mono:
  "holding_acq (deps st d) \<Longrightarrow> holding_acq (deps (fold (reattach_soft_dept x) ds st) d)"
  "required_by (svcs st x) \<le> required_by (svcs (fold (reattach_soft_dept x) ds st) x)"
proof (induction ds arbitrary: st)
  case (Cons e ds)
  { case 1 then show ?case using Cons(1) reattach_holding(1) by simp }
  { case 2 show ?case using Cons(2) [of "reattach_soft_dept x e st"] reattach_holding(5) [of st x e] by simp }
qed simp_all

lemma fold_reattach_holds:
  assumes "d \<in> set ds" "\<not> is_hard (deps st d)" "\<not> holding_acq (deps st d)"
    and "service_state (svcs st (dep_from (deps st d))) \<in> {STARTED, STARTING}"
  shows "holding_acq (deps (fold (reattach_soft_dept x) ds st) d) \<and>
    required_by (svcs st x) < required_by (svcs (fold (reattach_soft_dept x) ds st) x)"
  using assms
proof (induction ds arbitrary: st)
  case (Cons e ds)
  show ?case
  proof (cases "e = d")
    case True
    let ?st = "reattach_soft_dept x d st"
    have "holding_acq (deps ?st d)" "required_by (svcs st x) < required_by (svcs ?st x)"
      using Cons.prems by (auto simp: reattach_soft_dept_def Let_def)
    then show ?thesis using fold_reattach_mono(1) [of ?st d x ds] fold_reattach_mono(2) [of ?st x ds] True by simp
  next
    case False
    let ?st = "reattach_soft_dept x e st"
    have "deps ?st d = deps st d" using False by (simp add: reattach_soft_dept_def Let_def)
    then show ?thesis
      using Cons.IH [of ?st] Cons.prems False reattach_holding(3) [of x e st] reattach_holding(5) [of st x e] by fastforce
  qed
qed simp

lemma initiate_start_counts:
  "holding_acq (deps (initiate_start x st) d) = holding_acq (deps st d)"
  "required_by (svcs (initiate_start x st) y) = required_by (svcs st y)"
proof -
  let ?st1 = "upd_svc x (\<lambda>s. s\<lparr>start_failed := False, start_skipped := False, service_state := STARTING, waiting_for_deps := True\<rparr>) st"
  obtain st2 where st2: "start_check_dependencies x ?st1 = (list_all (dep_ready ?st1) (depends_on (svcs ?st1 x)), st2)" "only_waits ?st1 st2"
    using start_check_dependencies_spec [of x ?st1] by blast
  have q: "svcs (add_transition_queue x st2) = svcs st2" "deps (add_transition_queue x st2) = deps st2"
    by (simp_all add: add_transition_queue_def)
  have "holding_acq (deps st2 d) = holding_acq (deps st d)" using st2(2) by (auto simp: only_waits_def split: if_splits)
  then show "holding_acq (deps (initiate_start x st) d) = holding_acq (deps st d)"
    by (simp add: initiate_start_def st2 q)
  show "required_by (svcs (initiate_start x st) y) = required_by (svcs st y)"
    by (simp add: initiate_start_def st2 q only_waitsD(1) [OF st2(2)])
qed

text \<open>
  Starting a stopped service \<open>x\<close> that is named in an ordering by a service which is up acquires
  \<open>x\<close> through the ordering: the link holds an acquisition and the count has grown, so \<open>x\<close> will not
  stop for want of users before the other service does.
\<close>

theorem ordering_link_acquires:
  assumes "d \<in> set (dependents (svcs st x))" "is_only_ordering (deps st d)" "\<not> holding_acq (deps st d)"
    and "service_state (svcs st (dep_from (deps st d))) \<in> {STARTED, STARTING}"
    and "service_state (svcs st x) = STOPPED" "\<not> pinned_stopped (svcs st x)"
  shows "holding_acq (deps (do_start x st) d) \<and> required_by (svcs st x) < required_by (svcs (do_start x st) x)"
proof -
  let ?st = "upd_svc x (\<lambda>s. s\<lparr>desired_state := STARTED\<rparr>) st"
  have "\<not> is_hard (deps ?st d)" using assms(2) by (auto simp: is_hard_def is_only_ordering_def)
  then have "holding_acq (deps (fold (reattach_soft_dept x) (dependents (svcs ?st x)) ?st) d) \<and>
    required_by (svcs ?st x) < required_by (svcs (fold (reattach_soft_dept x) (dependents (svcs ?st x)) ?st) x)"
    using assms by (intro fold_reattach_holds) auto
  then show ?thesis
    using assms(5,6)
    by (simp add: do_start_def Let_def initiate_start_counts service_active_def add_prop_queue_def)
qed

definition ordered_pair :: sset where
  "ordered_pair = new_service_set
     \<lparr>svcs := (\<lambda>_. new_service_record [])
        (3 := (started_record (new_service_record ''late''))\<lparr>record_type := INTERNAL, depends_on := [3]\<rparr>,
         4 := (new_service_record ''early'')\<lparr>record_type := INTERNAL, dependents := [3]\<rparr>),
      deps := (\<lambda>_. new_dep 3 4 AFTER), records := [3, 4]\<rparr>"

theorem ordering_link_acquires_witness:
  "dep_type (deps ordered_pair 3) = AFTER \<and> required_by (svcs ordered_pair 4) = 0 \<and>
   holding_acq (deps (do_start 4 ordered_pair) 3) \<and> 0 < required_by (svcs (do_start 4 ordered_pair) 4)"
  using ordering_link_acquires [of 3 ordered_pair 4]
  by (simp add: ordered_pair_def new_dep_def is_only_ordering_def started_record_def new_service_record_def)

section \<open>Unloading leaves a consumer behind\<close>

lemma delete_record_frame:
  assumes "y \<noteq> x"
  shows "procs (delete_record x st) y = procs st y" "records (delete_record x st) = records st"
    "log_consumer (svcs st y) = None \<Longrightarrow> log_consumer (svcs (delete_record x st) y) = None"
  using assms
  by (auto simp: delete_record_def destroy_fields_def set_log_mode_def close_fd_def upd_svc_def upd_proc_def emit_def Let_def
      split: service_type_t.split option.split)

text \<open>
  Unloading a service that has a log consumer but no links moves its output pipe to a
  placeholder, but the consumer still refers to the deleted record (not to the placeholder), and
  the placeholder does not refer to the consumer.
\<close>

theorem unload_leaves_consumer:
  assumes "log_consumer (svcs st x) = Some c" "consumer_for (procs st c) = Some x"
    and "depends_on (svcs st x) = []" "dependents (svcs st x) = []"
    and "ph \<notin> set (records st)" "distinct (records st)" "c \<noteq> x" "c \<noteq> ph" "ph \<noteq> x"
    and "record_type (svcs st x) \<in> {PROCESS, BGPROCESS, SCRIPTED}"
  shows "\<exists>st'. unload_service n E ph x st = Some st' \<and> x \<notin> set (records st') \<and> ph \<in> set (records st') \<and>
    consumer_for (procs st' c) = Some x \<and> log_consumer (svcs st' ph) = None \<and>
    (log_input_fd (procs st' ph), log_output_fd (procs st' ph)) = (log_input_fd (procs st x), log_output_fd (procs st x))"
proof -
  let ?st1 = "hand_over_pipe ph x st"
  have st1: "svcs ?st1 = (svcs st)(ph := new_service_record (service_name (svcs st x)))"
    "procs ?st1 c = procs st c" "records ?st1 = records st @ [ph]"
    "(log_input_fd (procs ?st1 ph), log_output_fd (procs ?st1 ph)) = (log_input_fd (procs st x), log_output_fd (procs st x))"
    using assms(5-10)
    by (auto simp: hand_over_pipe_def make_placeholder_def transfer_output_pipe_def add_service_def upd_proc_def upd_svc_def)
  let ?st2 = "remove_service x (upd_svc x (\<lambda>s. s\<lparr>depends_on := []\<rparr>) ?st1)"
  have "unload_service n E ph x st = Some (delete_record x ?st2)"
    using assms(1,3,4,9) by (simp add: unload_service_def st1 prepare_for_unload_def)
  moreover have "x \<notin> set (records ?st2)" "ph \<in> set (records ?st2)"
    using assms(5,6,9) by (auto simp: remove_service_def st1 upd_svc_def remove1_append)
  moreover have "procs ?st2 = procs ?st1" "log_consumer (svcs ?st2 ph) = None"
    using assms(9) by (auto simp: remove_service_def st1 new_service_record_def)
  ultimately show ?thesis
    using delete_record_frame [of c x ?st2] delete_record_frame [of ph x ?st2] assms(2,7-9) st1 by auto
qed

definition logged_pair :: sset where
  "logged_pair = new_service_set
     \<lparr>svcs := (\<lambda>_. new_service_record [])
        (3 := (new_service_record ''producer'')\<lparr>record_type := PROCESS, log_consumer := Some 4\<rparr>,
         4 := (new_service_record ''logger'')\<lparr>record_type := PROCESS\<rparr>),
      procs := (\<lambda>_. new_proc_fields)
        (3 := new_proc_fields\<lparr>log_type := LOG_PIPE, log_input_fd := 20, log_output_fd := 21\<rparr>,
         4 := new_proc_fields\<lparr>consumer_for := Some 3\<rparr>), records := [3, 4]\<rparr>"

theorem unload_leaves_consumer_witness:
  "\<exists>st'. unload_service 1 sample_os 5 3 logged_pair = Some st' \<and> 3 \<notin> set (records st') \<and> consumer_for (procs st' 4) = Some 3"
  using unload_leaves_consumer [of logged_pair 3 4 5 1 sample_os]
  by (auto simp: logged_pair_def new_service_set_def new_service_record_def)

end
