(* ===== verification/Stopping.thy ===== *)
theory Stopping
  imports Step_Relations Sample_Set
begin

text \<open>
  What \<^verbatim>\<open>do_stop\<close> does across a service set: the chain of releases it sets off ends, it begins to
  stop only services that are not pinned in the started state, and it never sets the desired state
  of a service to \<open>STARTED\<close>.
\<close>

definition same_pins :: "sset \<Rightarrow> sset \<Rightarrow> bool" where
  "same_pins a b \<longleftrightarrow> (\<forall>x. is_start_pinned (svcs b x) = is_start_pinned (svcs a x))"

text \<open>An update that at most begins to stop the service.\<close>

definition halting :: "(service_record \<Rightarrow> service_record) \<Rightarrow> bool" where
  "halting f \<longleftrightarrow> quiet f \<and> (\<forall>s. service_state (f s) \<in> {service_state s, STOPPING} \<and>
     pinned_started (f s) = pinned_started s \<and> dept_pinned_started (f s) = dept_pinned_started s)"

lemmas halting_defs = halting_def quiet_def

text \<open>Relations kept by the operations that stop a service which is not pinned.\<close>

locale stop_relation = calm_relation +
  assumes pins: "R a b \<Longrightarrow> same_pins a b"
    and halt: "\<not> is_start_pinned (svcs a x) \<Longrightarrow> halting f \<Longrightarrow> R a (upd_svc x f a)"
begin

lemma step_halt: "R a st \<Longrightarrow> \<not> is_start_pinned (svcs a x) \<Longrightarrow> halting f \<Longrightarrow> R a (upd_svc x f st)"
  by (rule trans, assumption, rule halt) (simp_all add: pins [unfolded same_pins_def])

lemmas halt_rules = step_if step_halt step_proc step_wait step_queues step_emit step_ask decide_base

lemma process_interrupt_start:
  "R a st \<Longrightarrow> \<not> is_start_pinned (svcs a x) \<Longrightarrow> R a (snd (process_interrupt_start E x st))"
  unfolding process_interrupt_start_def
  by (assumption | rule halt_rules | simp add: halting_defs)+

lemma interrupt_start: "R a st \<Longrightarrow> \<not> is_start_pinned (svcs a x) \<Longrightarrow> R a (snd (interrupt_start E x st))"
  unfolding interrupt_start_def scripted_interrupt_start_def
  by (cases "record_type (svcs st x)")
    (simp_all only: service_type_t.case, (assumption | rule halt_rules process_interrupt_start)+)

lemma do_stop_finish: "R a st \<Longrightarrow> \<not> is_start_pinned (svcs a x) \<Longrightarrow> R a (do_stop_finish E x b st)"
  unfolding do_stop_finish_def begin_stopping_def
  by (assumption | rule interrupt_start halt_rules | simp add: halting_defs)+

lemma do_stop_body:
  assumes rel: "\<And>y st. R a (dec_required y st) \<Longrightarrow> yields (R a) (rel y st)" and st: "R a st"
  shows "yields (R a) (do_stop_body E rel x w st)"
proof (cases "is_start_pinned (svcs a x)")
  case True
  then have "is_start_pinned (svcs st x)" using pins [OF st] by (simp add: same_pins_def)
  then show ?thesis using st by (simp add: do_stop_body_def yields_def)
next
  case False
  show ?thesis
    unfolding do_stop_body_def
    by (insert st False) (assumption | rule yields_flow stop_dependents [OF rel] do_stop_finish release_deactivated
        check_restart decide_calm | simp add: calm_defs)+
qed

lemma do_stop: "R a st \<Longrightarrow> yields (R a) (do_stop n E x w st)"
proof (induction n arbitrary: x w st)
  case (Suc n)
  show ?case
    unfolding do_stop.simps
    by (rule do_stop_body, rule release_with, rule Suc.IH) (assumption | rule Suc.prems)+
qed simp

lemma release: "R a (dec_required x st) \<Longrightarrow> yields (R a) (release n E x issue st)"
  unfolding release_def by (rule release_with) (rule do_stop)

lemma stop: "R a st \<Longrightarrow> yields (R a) (stop n E x b st)"
  unfolding stop_def dec_clear_explicit
  by (assumption | rule yields_flow do_stop step_deactivate decide_calm | simp add: calm_defs)+

lemma restart: "R a st \<Longrightarrow> yields (\<lambda>r. R a (snd r)) (restart n E x st)"
  unfolding restart_def
  by (assumption | rule yields_flow do_stop decide_calm | simp add: calm_defs)+

end

section \<open>Pinned services\<close>

definition pin_step :: "sset \<Rightarrow> sset \<Rightarrow> bool" where
  "pin_step a b \<longleftrightarrow> same_links a b \<and> same_pins a b \<and>
     (\<forall>x. is_start_pinned (svcs a x) \<longrightarrow> service_state (svcs b x) = service_state (svcs a x)) \<and>
     (\<forall>x. service_state (svcs b x) \<in> {service_state (svcs a x), STOPPING}) \<and>
     (\<forall>x. start_explicit (svcs b x) \<longrightarrow> start_explicit (svcs a x))"

lemma pin_step_trans:
  assumes "pin_step a b" "pin_step b c"
  shows "pin_step a c"
proof -
  have "service_state (svcs c x) \<in> {service_state (svcs a x), STOPPING}" for x
    using assms by (simp add: pin_step_def) metis
  with assms show ?thesis by (simp add: pin_step_def same_pins_def same_links_def)
qed

interpretation pin: stop_relation pin_step
proof
  show "pin_step a b \<Longrightarrow> pin_step b c \<Longrightarrow> pin_step a c" for a b c
    by (rule pin_step_trans)
qed (auto simp: pin_step_def same_links_def same_pins_def is_start_pinned_def calm_def halting_def quiet_def emit_def)

text \<open>
  C4. Stopping, restarting or releasing a service, and everything this sets off among its
  dependents, leaves every service alone that is pinned in the started state (itself, or through a
  dependent): it stays pinned and keeps its state. The state of the other services changes, if at
  all, to \<open>STOPPING\<close>, and no service becomes explicitly activated.
\<close>

theorem do_stop_respects_pins:
  assumes "do_stop n E x with_restart st = Some st'"
  shows "(is_start_pinned (svcs st y) \<longrightarrow>
            is_start_pinned (svcs st' y) \<and> service_state (svcs st' y) = service_state (svcs st y)) \<and>
         service_state (svcs st' y) \<in> {service_state (svcs st y), STOPPING} \<and>
         (start_explicit (svcs st' y) \<longrightarrow> start_explicit (svcs st y))"
proof -
  have "pin_step st st'" using yieldsD [OF pin.do_stop [OF pin.refl] assms] .
  then show ?thesis by (simp add: pin_step_def same_pins_def)
qed

lemma sample_pinned_stop:
  "map_option (\<lambda>st. service_state (svcs st 2)) (do_stop 3 sample_os 2 False (pin_start 1 sample_up)) = Some STOPPING"
  by code_simp

theorem do_stop_respects_pins_witness:
  "\<exists>st'. do_stop 3 sample_os 2 False (pin_start 1 sample_up) = Some st' \<and>
         service_state (svcs st' 2) = STOPPING \<and> service_state (svcs st' 1) = STARTED \<and> is_start_pinned (svcs st' 1)"
proof -
  obtain st' where st': "do_stop 3 sample_os 2 False (pin_start 1 sample_up) = Some st'" "service_state (svcs st' 2) = STOPPING"
    using sample_pinned_stop by auto
  have "is_start_pinned (svcs (pin_start 1 sample_up) 1)" "service_state (svcs (pin_start 1 sample_up) 1) = STARTED"
    by code_simp+
  then show ?thesis using do_stop_respects_pins [OF st'(1), of 1] st' by auto
qed

section \<open>The chain of releases ends\<close>

text \<open>
  \<^verbatim>\<open>do_stop\<close> calls itself only through the release of an explicitly activated dependent, whose
  activation it clears first, and no part of it activates a service: the number of explicitly
  activated services bounds the depth of the recursion.
\<close>

definition explicit_ids :: "sset \<Rightarrow> sid set" where
  "explicit_ids st = {x. start_explicit (svcs st x)}"

lemma pin_step_explicit: "pin_step a b \<Longrightarrow> explicit_ids b \<subseteq> explicit_ids a"
  by (auto simp: pin_step_def explicit_ids_def)

lemma explicit_ids_simps [simp]:
  "explicit_ids (add_prop_queue x st) = explicit_ids st"
  "(\<And>s. start_explicit (f s) = start_explicit s) \<Longrightarrow> explicit_ids (upd_svc x f st) = explicit_ids st"
  "explicit_ids (upd_svc x (\<lambda>s. s\<lparr>start_explicit := False\<rparr>) st) = explicit_ids st - {x}"
  by (auto simp: explicit_ids_def add_prop_queue_def)

lemma explicit_break_soft_link: "d \<in> set (dependents (svcs st x)) \<Longrightarrow> explicit_ids (break_soft_link x d st) \<subseteq> explicit_ids st"
  using pin.break_soft_link [OF pin.refl] by (rule pin_step_explicit)

lemma explicit_forced_stop [simp]:
  "explicit_ids (forced_stop x st) = explicit_ids st" "explicit_ids (unrecoverable_stop x st) = explicit_ids st"
  by (simp_all add: forced_stop_def unrecoverable_stop_def Let_def)

lemma explicit_release_count [simp]: "explicit_ids (release_count x st) = explicit_ids st"
proof -
  have notify: "explicit_ids (notify_listeners x ev st) = explicit_ids st" for ev st
    by (simp add: explicit_ids_def)
  show ?thesis by (simp add: release_count_def Let_def notify)
qed

lemma stop_dependent_returns:
  assumes rel: "\<And>y s. explicit_ids s \<subseteq> X \<Longrightarrow> start_explicit (svcs s y) \<Longrightarrow>
      returns (rel y (upd_svc y (\<lambda>s. s\<lparr>start_explicit := False\<rparr>) s))"
    and "explicit_ids (snd r) \<subseteq> X"
  shows "returns (stop_dependent rel x fr rd d r)"
proof -
  obtain b st where r: "r = (b, st)" and st: "explicit_ids st \<subseteq> X" using assms(2) by (cases r) auto
  show ?thesis
    unfolding stop_dependent_def r case_prod_conv Let_def [of "(b, st)"]
    by (insert st) (assumption | rule returns_if returns_bind returns_Some rel
        returns_let [where P = "\<lambda>s. explicit_ids s \<subseteq> X"] returns_let_val | simp)+
qed

lemma release_with_returns:
  assumes "\<And>s. explicit_ids s = explicit_ids st \<Longrightarrow> returns (ds y False s)"
  shows "returns (release_with ds y issue st)"
  unfolding release_with_def by (rule returns_if, rule assms) simp_all

lemma do_stop_body_returns:
  assumes rel: "\<And>y s. explicit_ids s \<subseteq> explicit_ids st \<Longrightarrow> start_explicit (svcs s y) \<Longrightarrow>
      returns (rel y (upd_svc y (\<lambda>s. s\<lparr>start_explicit := False\<rparr>) s))"
    and yields: "\<And>y s. pin_step st (dec_required y s) \<Longrightarrow> yields (pin_step st) (rel y s)"
  shows "returns (do_stop_body E rel x w st)"
proof -
  have deps: "returns (stop_dependents rel x fr w s)" if "pin_step st s" for fr s
    unfolding stop_dependents_def
  proof (rule returns_fold_opt [where P = "\<lambda>r :: bool \<times> sset. pin_step st (snd r)"])
    fix d and r :: "bool \<times> sset" assume d: "d \<in> set (dependents (svcs s x))" and r: "pin_step st (snd r)"
    have "returns (stop_dependent rel x fr w d r)"
      by (rule stop_dependent_returns [where X = "explicit_ids st"], rule rel) (use pin_step_explicit [OF r] in auto)
    moreover have "yields (\<lambda>r. pin_step st (snd r)) (stop_dependent rel x fr w d r)"
      by (rule pin.stop_dependent [OF yields r pin.dept_back [OF d that]])
    ultimately show "returns (stop_dependent rel x fr w d r) \<and> yields (\<lambda>r. pin_step st (snd r)) (stop_dependent rel x fr w d r)" ..
  qed (use that in simp)
  show ?thesis
    unfolding do_stop_body_def
    by (insert pin.refl [of st])
      (assumption | rule returns_if returns_Some returns_bind_prod deps returns_let_prod [where P = "pin_step st"]
        returns_let [where P = "pin_step st"] returns_let_val
        pin.release_deactivated pin.check_restart pin.decide_calm | simp add: calm_defs)+
qed

lemma do_stop_returns:
  "finite (explicit_ids st) \<Longrightarrow> card (explicit_ids st) < n \<Longrightarrow> returns (do_stop n E x w st)"
proof (induction n arbitrary: x w st)
  case (Suc n)
  show ?case
    unfolding do_stop.simps
  proof (rule do_stop_body_returns)
    fix y s assume s: "explicit_ids s \<subseteq> explicit_ids st" "start_explicit (svcs s y)"
    have "y \<in> explicit_ids s" using s(2) by (simp add: explicit_ids_def)
    with s(1) have "explicit_ids s - {y} \<subset> explicit_ids st" by blast
    then have "card (explicit_ids s - {y}) < card (explicit_ids st)" by (rule psubset_card_mono [OF Suc.prems(1)])
    with Suc.prems(2) have "card (explicit_ids s - {y}) < n" by simp
    moreover have "finite (explicit_ids s - {y})" using s(1) Suc.prems(1) finite_subset by auto
    ultimately show "returns (release_with (do_stop n E) y True (upd_svc y (\<lambda>s. s\<lparr>start_explicit := False\<rparr>) s))"
      by (intro release_with_returns Suc.IH) simp_all
  next
    show "pin_step st (dec_required y s) \<Longrightarrow> yields (pin_step st) (release_with (do_stop n E) y True s)" for y s
      by (rule pin.release_with) (rule pin.do_stop)
  qed
qed simp

text \<open>
  C5. \<^verbatim>\<open>do_stop\<close> returns: its mutual recursion with \<^verbatim>\<open>release\<close> is never deeper than the number of
  explicitly activated services plus one.
\<close>

theorem do_stop_terminates:
  assumes "finite {y. start_explicit (svcs st y)}" and "card {y. start_explicit (svcs st y)} < n"
  shows "\<exists>st'. do_stop n E x with_restart st = Some st'"
  using do_stop_returns [of st n E x with_restart] assms by (simp add: explicit_ids_def returns_def)

lemma sample_up_explicit: "{y. start_explicit (svcs sample_up y)} = {0}"
  by (auto simp: sample_up_def started_record_def new_service_record_def)

theorem do_stop_terminates_witness: "\<exists>st'. do_stop 2 sample_os 2 True sample_up = Some st'"
  by (rule do_stop_terminates) (simp_all add: sample_up_explicit)

end
