(* ===== verification/Process_Props.thy ===== *)
theory Process_Props
  imports Process_Events Sample_Set
begin

text \<open>
  Properties of process-based services: limits on restarts, the pid file, the log buffer and the
  file descriptors of a launch.
\<close>

section \<open>Restart limits\<close>

text \<open>A sequence of restart checks that are all granted.\<close>

primrec granted_restarts :: "nat \<Rightarrow> os_env \<Rightarrow> sid \<Rightarrow> sset \<Rightarrow> sset option" where
  "granted_restarts 0 E x st = Some st"
| "granted_restarts (Suc k) E x st =
     (case process_check_restart E x st of (True, st') \<Rightarrow> granted_restarts k E x st' | (False, _) \<Rightarrow> None)"

definition in_restart_interval :: "proc_fields \<Rightarrow> time_val \<Rightarrow> bool" where
  "in_restart_interval p now \<longleftrightarrow> nanos now - nanos (restart_interval_time p) < nanos (restart_interval p)"

lemma in_restart_interval_less:
  "normal_tv now \<Longrightarrow> normal_tv (restart_interval_time p) \<Longrightarrow> normal_tv (restart_interval p) \<Longrightarrow>
     tv_less (tv_minus now (restart_interval_time p)) (restart_interval p) \<longleftrightarrow> in_restart_interval p now"
  by (simp add: tv_less_nanos tv_minus_normal nanos_minus in_restart_interval_def)

lemma check_restart_in_interval:
  assumes "normal_tv (os_time E (os_calls st))" "normal_tv (restart_interval_time (procs st x))"
    and "normal_tv (restart_interval (procs st x))" "max_restart_interval_count (procs st x) \<noteq> 0"
    and "in_restart_interval (procs st x) (os_time E (os_calls st))"
  shows "process_check_restart E x st =
    (let st = snd (ask (os_time E) st)
     in if restart_interval_count (procs st x) \<ge> max_restart_interval_count (procs st x)
        then (False, upd_svc x (\<lambda>s. s\<lparr>desired_state := STOPPED\<rparr>) st)
        else (True, upd_proc x (\<lambda>p. p\<lparr>restart_interval_count := restart_interval_count p + 1\<rparr>) st))"
  using assms by (simp add: process_check_restart_def ask_def in_restart_interval_less Let_def)

lemma os_calls_upd [simp]:
  "os_calls (upd_svc x f st) = os_calls st" "os_calls (upd_proc x g st) = os_calls st"
  "os_calls (upd_dep d h st) = os_calls st" "os_calls (emit e st) = os_calls st"
  "os_calls (snd (ask q st)) = Suc (os_calls st)"
  by (simp_all add: upd_svc_def upd_proc_def upd_dep_def emit_def ask_def)

lemma granted_restarts_count:
  assumes "granted_restarts k E x st = Some st'"
    and "\<And>i. i < k \<Longrightarrow> normal_tv (os_time E (os_calls st + i)) \<and> in_restart_interval (procs st x) (os_time E (os_calls st + i))"
    and "normal_tv (restart_interval_time (procs st x))" "normal_tv (restart_interval (procs st x))"
    and "max_restart_interval_count (procs st x) \<noteq> 0"
    and "restart_interval_count (procs st x) \<le> max_restart_interval_count (procs st x)"
  shows "restart_interval_count (procs st x) + int k \<le> max_restart_interval_count (procs st x)"
  using assms
proof (induction k arbitrary: st)
  case (Suc k)
  let ?st1 = "upd_proc x (\<lambda>p. p\<lparr>restart_interval_count := restart_interval_count p + 1\<rparr>) (snd (ask (os_time E) st))"
  have "process_check_restart E x st =
      (if restart_interval_count (procs st x) \<ge> max_restart_interval_count (procs st x)
       then (False, upd_svc x (\<lambda>s. s\<lparr>desired_state := STOPPED\<rparr>) (snd (ask (os_time E) st))) else (True, ?st1))"
    using check_restart_in_interval [of E st x] Suc.prems(2) [of 0] Suc.prems(3-5) by (simp add: Let_def)
  with Suc.prems(1) have *: "granted_restarts k E x ?st1 = Some st'"
    "restart_interval_count (procs st x) < max_restart_interval_count (procs st x)"
    by (auto split: if_splits)
  have "normal_tv (os_time E (os_calls ?st1 + i)) \<and> in_restart_interval (procs ?st1 x) (os_time E (os_calls ?st1 + i))"
    if "i < k" for i
    using Suc.prems(2) [of "Suc i"] that by (simp add: in_restart_interval_def)
  from Suc.IH [OF *(1) this] *(2) Suc.prems show ?case by simp
qed simp

text \<open>
  C11. Automatic restarts are limited: of the restart checks that fall into one restart interval, no
  more are granted than the configured maximum leaves (a check beyond that is refused, and then the
  desired state of the service is \<open>STOPPED\<close>).
\<close>

theorem restart_rate_limited:
  assumes "\<And>i. i \<le> k \<Longrightarrow> normal_tv (os_time E (os_calls st + i)) \<and> in_restart_interval (procs st x) (os_time E (os_calls st + i))"
    and "normal_tv (restart_interval_time (procs st x))" "normal_tv (restart_interval (procs st x))"
    and "max_restart_interval_count (procs st x) > 0"
    and "0 \<le> restart_interval_count (procs st x)" "restart_interval_count (procs st x) \<le> max_restart_interval_count (procs st x)"
  shows "(granted_restarts k E x st \<noteq> None \<longleftrightarrow>
            restart_interval_count (procs st x) + int k \<le> max_restart_interval_count (procs st x)) \<and>
         (restart_interval_count (procs st x) = max_restart_interval_count (procs st x) \<longrightarrow>
            (\<exists>st'. process_check_restart E x st = (False, st') \<and> desired_state (svcs st' x) = STOPPED))"
proof
  show "granted_restarts k E x st \<noteq> None \<longleftrightarrow>
      restart_interval_count (procs st x) + int k \<le> max_restart_interval_count (procs st x)" (is "_ \<longleftrightarrow> ?le k st")
  proof
    assume "granted_restarts k E x st \<noteq> None"
    then obtain st' where "granted_restarts k E x st = Some st'" by auto
    then show "?le k st" using granted_restarts_count [of k E x st st'] assms by auto
  next
    assume "?le k st"
    then show "granted_restarts k E x st \<noteq> None"
      using assms
    proof (induction k arbitrary: st)
      case (Suc k)
      let ?st1 = "upd_proc x (\<lambda>p. p\<lparr>restart_interval_count := restart_interval_count p + 1\<rparr>) (snd (ask (os_time E) st))"
      have "process_check_restart E x st = (True, ?st1)"
        using check_restart_in_interval [of E st x] Suc.prems(1,3-5) Suc.prems(2) [of 0] by (simp add: Let_def)
      moreover have "granted_restarts k E x ?st1 \<noteq> None"
      proof (rule Suc.IH)
        show "normal_tv (os_time E (os_calls ?st1 + i)) \<and> in_restart_interval (procs ?st1 x) (os_time E (os_calls ?st1 + i))"
          if "i \<le> k" for i
          using Suc.prems(2) [of "Suc i"] that by (simp add: in_restart_interval_def)
      qed (use Suc.prems in simp_all)
      ultimately show ?case by simp
    qed simp
  qed
next
  show "restart_interval_count (procs st x) = max_restart_interval_count (procs st x) \<longrightarrow>
      (\<exists>st'. process_check_restart E x st = (False, st') \<and> desired_state (svcs st' x) = STOPPED)"
    using check_restart_in_interval [of E st x] assms(1) [of 0] assms(2-4) by (simp add: Let_def)
qed

theorem restart_rate_limited_witness:
  "granted_restarts 3 sample_os 1 sample_up \<noteq> None \<and> granted_restarts 4 sample_os 1 sample_up = None"
proof -
  have p: "procs sample_up 1 = new_proc_fields\<lparr>pid := 5003, tracking_child := True\<rparr>" "os_calls sample_up = 0"
    by (simp_all add: sample_up_def sample_set_def new_service_set_def)
  have ok: "i \<le> 4 \<Longrightarrow> normal_tv (os_time sample_os (os_calls sample_up + i)) \<and>
      in_restart_interval (procs sample_up 1) (os_time sample_os (os_calls sample_up + i))" for i
    unfolding p by (simp add: new_proc_fields_def normal_tv_def in_restart_interval_def nanos_def sample_os_def)
  have *: "normal_tv (restart_interval_time (procs sample_up 1))" "normal_tv (restart_interval (procs sample_up 1))"
    "max_restart_interval_count (procs sample_up 1) = 3" "restart_interval_count (procs sample_up 1) = 0"
    unfolding p by (simp_all add: new_proc_fields_def normal_tv_def)
  show ?thesis
    using restart_rate_limited [of 3 sample_os sample_up 1] restart_rate_limited [of 4 sample_os sample_up 1] ok *
    by (simp del: One_nat_def)
qed

text \<open>
  C12. A process is not relaunched before its restart delay has passed since its last start: either
  the delay has passed and the process is relaunched, or nothing is launched and the restart timer
  is armed for exactly the time that remains.
\<close>

theorem restart_delay_respected:
  fixes C x st
  assumes "normal_tv (os_time (cx_os C) (os_calls st))" "normal_tv (last_start_time (procs st x))"
    and "normal_tv (restart_delay (procs st x))"
  defines "elapsed \<equiv> nanos (os_time (cx_os C) (os_calls st)) - nanos (last_start_time (procs st x))"
  shows "(if nanos (restart_delay (procs st x)) \<le> elapsed
          then restart_ps_process C x st = do_restart C x (st\<lparr>os_calls := Suc (os_calls st)\<rparr>)
          else \<exists>st' t. restart_ps_process C x st = Some st' \<and> effects st' = effects st \<and>
             waiting_restart_timer (procs st' x) \<and> process_timer (procs st' x) = Some t \<and> normal_tv t \<and>
             elapsed + nanos t = nanos (restart_delay (procs st x)))"
proof -
  let ?d = "tv_minus (os_time (cx_os C) (os_calls st)) (last_start_time (procs st x))"
  have "normal_tv ?d" "nanos ?d = elapsed"
    using assms by (simp_all add: tv_minus_normal nanos_minus)
  then show ?thesis
    using assms(3)
    by (auto simp: restart_ps_process_def ask_def tv_le_nanos arm_timer_rel_def nanos_minus tv_minus_normal upd_proc_def Let_def)
qed

theorem restart_delay_respected_witness:
  "\<exists>st'. restart_ps_process (run_ctx sample_os 1) 1 (upd_proc 1 (\<lambda>p. p\<lparr>restart_delay := tv 2 0\<rparr>) sample_up) = Some st' \<and>
         waiting_restart_timer (procs st' 1)"
proof -
  let ?s = "upd_proc 1 (\<lambda>p. p\<lparr>restart_delay := tv 2 0\<rparr>) sample_up"
  have p: "last_start_time (procs ?s 1) = tv 0 0" "restart_delay (procs ?s 1) = tv 2 0"
    "os_time (cx_os (run_ctx sample_os 1)) (os_calls ?s) = tv 0 0"
    by (simp_all add: sample_up_def sample_set_def new_service_set_def new_proc_fields_def run_ctx_def sample_os_def upd_proc_def)
  have n: "normal_tv (tv 0 0)" "normal_tv (tv 2 0)" "nanos (tv 0 0) = 0" "nanos (tv 2 0) = 2000000000"
    by (simp_all add: normal_tv_def nanos_def)
  show ?thesis
    using restart_delay_respected [of "run_ctx sample_os 1" ?s 1, unfolded p] n by (auto simp del: One_nat_def)
qed

section \<open>The pid file\<close>

lemma strtoull_auto_bound: "strtoull_auto s = Some v \<Longrightarrow> v < 2 ^ 64"
  by (auto simp: strtoull_auto_def Let_def split: if_splits)

lemmas strtoull_eval = strtoull_auto_def c_isspace_def is_digit_of_def digit_val_def char_code_def digits_value_def

lemma strtoull_samples: "strtoull_auto ''1234'' = Some 1234" "strtoull_auto ''0'' = Some 0" "strtoull_auto '' 0x1F'' = Some 31"
  by (simp_all add: strtoull_eval)



text \<open>
  The number zero is accepted from a pid file as well, if the operating system answers the two
  queries about ``process 0'' the way it answers them about the caller's own process group: a
  service supervised under pid 0 is then stopped by a signal to whatever group \<^verbatim>\<open>getpgid(0)\<close> names,
  the group of the caller.
\<close>

theorem pid_file_zero_accepted:
  assumes "os_read_file E (os_calls st) = Some ''0''" and "os_waitid E (Suc (os_calls st)) = Waitid_ECHILD"
    and "os_process_exists E (Suc (Suc (os_calls st)))" and "\<not> signal_process_only (onstart_flags (svcs st x))"
    and "os_getpgid E (Suc (Suc (Suc (os_calls st)))) = own_group" "own_group \<noteq> -1"
  shows "\<exists>st'. read_pid_file E x st = (PID_OK, st') \<and> pid (procs st' x) = 0 \<and>
    effects (kill_pg E x SIGTERM st') = Kill (- own_group) SIGTERM # effects st"
  using assms
  by (auto simp: read_pid_file_def ask_def upd_proc_def kill_pg_def emit_def strtoull_samples Let_def)

theorem pid_file_zero_accepted_witness:
  "\<exists>st'. read_pid_file (sample_os\<lparr>os_read_file := (\<lambda>_. Some ''0''), os_waitid := (\<lambda>_. Waitid_ECHILD), os_getpgid := (\<lambda>_. 77)\<rparr>) 1 sample_up =
           (PID_OK, st') \<and> pid (procs st' 1) = 0"
proof -
  let ?E = "sample_os\<lparr>os_read_file := (\<lambda>_. Some ''0''), os_waitid := (\<lambda>_. Waitid_ECHILD), os_getpgid := (\<lambda>_. 77)\<rparr>"
  have "\<not> signal_process_only (onstart_flags (svcs sample_up 1))" by code_simp
  then show ?thesis
    using pid_file_zero_accepted [of ?E sample_up 1 77] by (auto simp: sample_os_def)
qed

end
