(* ===== verification/Launch_Props.thy ===== *)
theory Launch_Props
  imports Process_Events Sample_Set
begin

text \<open>
  The log buffer of a service, and the file descriptors a launch obtains: what is kept, what is
  closed again.
\<close>

section \<open>The log buffer\<close>

definition log_ok :: "proc_fields \<Rightarrow> bool" where
  "log_ok p \<longleftrightarrow> log_buf_size p \<le> length (log_buffer p) \<and> length (log_buffer p) \<le> log_buf_max p"

definition log_contents :: "proc_fields \<Rightarrow> string" where
  "log_contents p = take (log_buf_size p) (log_buffer p)"

lemma log_contents_bound: "log_ok p \<Longrightarrow> length (log_contents p) \<le> log_buf_max p"
  by (simp add: log_ok_def log_contents_def)

lemma ensure_backing:
  assumes "log_ok (procs st x)" "k \<le> log_buf_max (procs st x)" "ensure_log_buffer_backing E x k st = (ok, st')"
  shows "log_ok (procs st' x)" "log_contents (procs st' x) = log_contents (procs st x)"
    "log_buf_size (procs st' x) = log_buf_size (procs st x)" "log_buf_max (procs st' x) = log_buf_max (procs st x)"
    "ok \<Longrightarrow> k \<le> length (log_buffer (procs st' x))"
  using assms
  by (auto simp: ensure_log_buffer_backing_def Let_def ask_def log_ok_def log_contents_def split: if_splits)

lemma store_log:
  assumes "log_ok p" "log_buf_size p + length s \<le> length (log_buffer p)"
  defines "p' \<equiv> p\<lparr>log_buffer := store_at (log_buffer p) (log_buf_size p) s, log_buf_size := log_buf_size p + length s\<rparr>"
  shows "log_ok p'" "log_contents p' = log_contents p @ s"
  using assms by (auto simp: log_ok_def log_contents_def store_at_def)


lemma sample_log_output:
  fixes st
  defines "st \<equiv> upd_proc 1 (\<lambda>p. p\<lparr>log_type := LOG_BUFFER, log_buf_max := 4096\<rparr>) sample_up"
  shows "log_ok (procs st 1)" "log_contents (procs st 1) = []" "log_buf_max (procs st 1) = 4096"
  by (simp_all add: st_def log_ok_def log_contents_def sample_up_def new_proc_fields_def)


section \<open>File descriptors of a launch\<close>

text \<open>How often a descriptor was obtained minus how often it was closed, in a history of effects.\<close>

fun net_open :: "int \<Rightarrow> effect list \<Rightarrow> int" where
  "net_open fd [] = 0"
| "net_open fd (Opened f # es) = net_open fd es + of_bool (f = fd)"
| "net_open fd (Closed f # es) = net_open fd es - of_bool (f = fd)"
| "net_open fd (_ # es) = net_open fd es"

abbreviation net :: "int \<Rightarrow> sset \<Rightarrow> int" where
  "net fd st \<equiv> net_open fd (effects st)"

lemma net_upd [simp]:
  "net fd (upd_svc x f st) = net fd st" "net fd (upd_proc x g st) = net fd st" "net fd (snd (ask q st)) = net fd st"
  "net fd (emit (Opened h) st) = net fd st + of_bool (h = fd)" "net fd (close_fd h st) = net fd st - of_bool (h = fd)"
  "net fd (emit (Forked x k c) st) = net fd st"
  by (simp_all add: upd_svc_def upd_proc_def ask_def emit_def close_fd_def)

text \<open>What has to be closed: a pair of descriptors, an optional pair, the log pipe of the service.\<close>

definition pair_fds :: "int \<times> int \<Rightarrow> int \<Rightarrow> int" where
  "pair_fds p fd = of_bool (fst p = fd) + of_bool (snd p = fd)"

definition opt_fds :: "(int \<times> int) option \<Rightarrow> int \<Rightarrow> int" where
  "opt_fds q fd = (case q of None \<Rightarrow> 0 | Some p \<Rightarrow> pair_fds p fd)"

definition log_fds :: "proc_fields \<Rightarrow> int \<Rightarrow> int" where
  "log_fds p fd = (if log_input_fd p \<noteq> -1 then pair_fds (log_input_fd p, log_output_fd p) fd else 0)"

lemma pair_fds_nonneg [simp]: "0 \<le> pair_fds p fd"
  by (simp add: pair_fds_def)

lemma net_out_p: "net fd (snd (out_p p st)) = net fd st - pair_fds p fd"
  by (simp add: out_p_def pair_fds_def)

lemma net_out_lfd: "net fd (snd (out_lfd x p st)) = net fd st - log_fds (procs st x) fd - pair_fds p fd"
  by (simp add: out_lfd_def net_out_p Let_def log_fds_def pair_fds_def)

lemma procs_close_fd [simp]: "procs (close_fd h st) = procs st"
  by (simp add: close_fd_def)

lemma net_out_cs_h:
  "net fd (snd (out_cs_h x p ocs np st)) \<le> net fd st - log_fds (procs st x) fd - pair_fds p fd - opt_fds ocs fd - opt_fds np fd"
  by (cases ocs; cases np)
    (auto simp: out_cs_h_def out_cs_def net_out_lfd opt_fds_def pair_fds_def Let_def split: prod.splits)

lemma fork_process_fails:
  assumes "fork_process E x c p ocs np st = (False, st')"
  shows "net fd st' \<le> net fd st - log_fds (procs st x) fd - pair_fds p fd - opt_fds ocs fd - opt_fds np fd"
  using assms net_out_cs_h [of fd x p ocs np "snd (ask (os_add_watch E) st)"]
    net_out_cs_h [of fd x p ocs np "snd (ask (os_fork E) (snd (ask (os_add_watch E) st)))"]
  by (auto simp: fork_process_def Let_def split: prod.splits option.splits if_splits)

lemma append_restart_note_fields:
  "net fd (append_restart_note E x st) = net fd st" "log_fds (procs (append_restart_note E x st) x) = log_fds (procs st x)"
proof -
  have *: "net fd (snd (ensure_log_buffer_backing E x k s)) = net fd s \<and>
      log_input_fd (procs (snd (ensure_log_buffer_backing E x k s)) x) = log_input_fd (procs s x) \<and>
      log_output_fd (procs (snd (ensure_log_buffer_backing E x k s)) x) = log_output_fd (procs s x)" for k s
    by (auto simp: ensure_log_buffer_backing_def Let_def split: prod.splits) (auto simp: ask_def)
  show "net fd (append_restart_note E x st) = net fd st" "log_fds (procs (append_restart_note E x st) x) = log_fds (procs st x)"
    using * by (auto simp: append_restart_note_def Let_def log_fds_def fun_eq_iff split: prod.splits bool.splits) (metis snd_conv)+
qed

lemma open_pair_fields:
  assumes "open_pair q st = (r, st')"
  shows "net fd st' = net fd st + opt_fds r fd" "procs st' = procs st" "svcs st' = svcs st"
  using assms by (auto simp: open_pair_def ask_def opt_fds_def pair_fds_def emit_def split: option.splits prod.splits)

lemma open_notify_pipe_fails:
  assumes "open_notify_pipe E x c p ocs st = (False, st')"
  shows "net fd st' \<le> net fd st - log_fds (procs st x) fd - pair_fds p fd - opt_fds ocs fd"
proof (cases "notification_var (procs st x) \<noteq> [] \<or> force_notification_fd (procs st x) \<noteq> -1")
  case False
  with assms have "fork_process E x c p ocs None (append_restart_note E x st) = (False, st')"
    by (simp add: open_notify_pipe_def)
  from fork_process_fails [OF this, of fd] show ?thesis by (simp add: append_restart_note_fields opt_fds_def)
next
  case True
  obtain np st1 where np: "open_pair (os_pipe2 E) st = (np, st1)" by fastforce
  note o = open_pair_fields [OF np]
  let ?st2 = "snd (ask (os_add_watch E) st1)"
  have "(np = None \<and> st' = snd (out_cs_h x p ocs None st1)) \<or> (np \<noteq> None \<and> st' = snd (out_cs_h x p ocs np ?st2)) \<or>
      (np \<noteq> None \<and> fork_process E x c p ocs np (append_restart_note E x ?st2) = (False, st'))"
    using assms True np by (auto simp: open_notify_pipe_def Let_def split: option.splits prod.splits if_splits)
  then show ?thesis
    using net_out_cs_h [of fd x p ocs None st1] net_out_cs_h [of fd x p ocs np ?st2]
      fork_process_fails [of E x c p ocs np "append_restart_note E x ?st2" st' fd] o(1) [of fd]
    by (auto simp: o(2) append_restart_note_fields opt_fds_def)
qed

lemma open_control_socket_fails:
  assumes "open_control_socket E x c p st = (False, st')"
  shows "net fd st' \<le> net fd st - log_fds (procs st x) fd - pair_fds p fd"
proof (cases "pass_cs_fd (onstart_flags (svcs st x))")
  case False
  with assms open_notify_pipe_fails [of E x c p None st st' fd] show ?thesis
    by (simp add: open_control_socket_def opt_fds_def)
next
  case True
  obtain cs st1 where cs: "open_pair (os_socketpair E) st = (cs, st1)" by fastforce
  note o = open_pair_fields [OF cs]
  let ?st2 = "snd (ask (os_alloc E) st1)"
  have "(cs = None \<and> st' = snd (out_lfd x p st1)) \<or> (cs \<noteq> None \<and> st' = snd (out_cs x p (the cs) ?st2)) \<or>
      (cs \<noteq> None \<and> open_notify_pipe E x c p cs ?st2 = (False, st'))"
    using assms True cs by (auto simp: open_control_socket_def Let_def split: option.splits prod.splits if_splits)
  then show ?thesis
    using open_notify_pipe_fails [of E x c p cs ?st2 st' fd] o(1) [of fd]
    by (auto simp: o(2) net_out_lfd out_cs_def opt_fds_def pair_fds_def)
qed

lemma log_fds_nonneg: "0 \<le> log_fds p fd"
  by (simp add: log_fds_def)

text \<open>The log pipe has been created and recorded.\<close>

lemma new_log_pipe_fails:
  assumes "(if log_type (procs st x) = LOG_BUFFER
      then let (watch_ok, st) = ask (os_add_watch E) st
           in if watch_ok then open_control_socket E x c p st
              else out_p p (upd_proc x (\<lambda>p. p\<lparr>log_input_fd := -1, log_output_fd := -1\<rparr>) (close_fd w (close_fd r st)))
      else open_control_socket E x c p st) = (False, st')"
    and "log_fds (procs st x) fd = pair_fds (r, w) fd"
  shows "net fd st' \<le> net fd st - pair_fds (r, w) fd - pair_fds p fd"
proof -
  let ?st1 = "snd (ask (os_add_watch E) st)"
  consider "open_control_socket E x c p st = (False, st')" | "open_control_socket E x c p ?st1 = (False, st')"
    | "st' = snd (out_p p (upd_proc x (\<lambda>p. p\<lparr>log_input_fd := -1, log_output_fd := -1\<rparr>) (close_fd w (close_fd r ?st1))))"
    using assms(1) by (auto simp: case_prod_beta Let_def split: if_splits)
  then show ?thesis
  proof cases
    case 1
    then show ?thesis using open_control_socket_fails [OF 1, of fd] assms(2) by simp
  next
    case 2
    then show ?thesis using open_control_socket_fails [OF 2, of fd] assms(2) by simp
  next
    case 3
    then show ?thesis by (simp add: net_out_p pair_fds_def)
  qed
qed

lemma open_log_pipe_fails:
  assumes "open_log_pipe E x c p st = (False, st')" and "\<And>n r w. os_pipe2 E n = Some (r, w) \<Longrightarrow> r \<ge> 0"
  shows "net fd st' \<le> net fd st - pair_fds p fd"
proof (cases "(log_type (procs st x) = LOG_BUFFER \<or> log_type (procs st x) = LOG_PIPE) \<and> log_output_fd (procs st x) = -1")
  case False
  then have "open_control_socket E x c p st = (False, st')" using assms(1) by (auto simp: open_log_pipe_def)
  from open_control_socket_fails [OF this, of fd] log_fds_nonneg [of "procs st x" fd] show ?thesis by simp
next
  case True
  obtain lp st1 where lp: "open_pair (os_pipe2 E) st = (lp, st1)" by fastforce
  note o = open_pair_fields [OF lp]
  show ?thesis
  proof (cases lp)
    case None
    then have "st' = snd (out_p p st1)" using assms(1) True lp by (auto simp: open_log_pipe_def)
    then show ?thesis using o(1) [of fd] None by (simp add: net_out_p opt_fds_def)
  next
    case (Some rw)
    obtain r w where rw: "rw = (r, w)" by (cases rw)
    have "r \<ge> 0" using lp Some rw assms(2) by (auto simp: open_pair_def ask_def split: option.splits)
    then show ?thesis
      using new_log_pipe_fails [of "upd_proc x (\<lambda>p. p\<lparr>log_input_fd := r, log_output_fd := w\<rparr>) st1" x E c p w r st' fd]
        assms(1) True lp Some rw o(1) [of fd]
      by (simp add: open_log_pipe_def Let_def log_fds_def opt_fds_def)
  qed
qed



text \<open>
  The exception: if the input of a consumer service cannot be set up (its producer has no output
  pipe yet and none can be created), the launch fails and both ends of the exec status pipe stay open.
\<close>

theorem consumer_launch_leaks:
  assumes "os_pipe2 E (Suc (os_calls st)) = Some (r, w)" "r \<noteq> w"
    and "record_type (svcs st x) = PROCESS" "consumer_for (procs st x) = Some y" "y \<noteq> x"
    and "record_type (svcs st y) = PROCESS" "log_input_fd (procs st y) = -1" "os_pipe2 E (Suc (Suc (os_calls st))) = None"
  shows "\<exists>st'. start_ps_process E x on_console st = (False, st') \<and>
    net_open r (effects st') = net_open r (effects st) + 1 \<and> net_open w (effects st') = net_open w (effects st) + 1"
  using assms
  by (simp add: start_ps_process_def get_input_fd_def get_output_pipe_fd_def open_pair_def ask_def upd_proc_def emit_def Let_def)

theorem consumer_launch_leaks_witness:
  "\<exists>st'. start_ps_process (sample_os\<lparr>os_pipe2 := (\<lambda>n. if n = 1 then Some (5, 6) else None)\<rparr>) 1 False
           (upd_proc 1 (\<lambda>p. p\<lparr>consumer_for := Some 3\<rparr>) (upd_svc 3 (\<lambda>s. s\<lparr>record_type := PROCESS\<rparr>) sample_set)) = (False, st') \<and>
         net_open 5 (effects st') = 1"
proof -
  let ?E = "sample_os\<lparr>os_pipe2 := (\<lambda>n. if n = 1 then Some (5, 6) else None)\<rparr>"
  let ?s = "upd_proc 1 (\<lambda>p. p\<lparr>consumer_for := Some 3\<rparr>) (upd_svc 3 (\<lambda>s. s\<lparr>record_type := PROCESS\<rparr>) sample_set)"
  have "os_calls ?s = 0" "effects ?s = []" "record_type (svcs ?s 1) = PROCESS" "consumer_for (procs ?s 1) = Some 3"
    "record_type (svcs ?s 3) = PROCESS" "log_input_fd (procs ?s 3) = -1"
    by code_simp+
  then show ?thesis using consumer_launch_leaks [of ?E ?s 5 6 1 3 False] by auto
qed

end
