(* ===== verification/Control_Buffer.thy ===== *)
theory Control_Buffer
  imports Prelude
begin

text \<open>
  The circular buffer of the control protocol (\<^verbatim>\<open>cpbuffer.h\<close>) and its refinement to plain lists.
  Indices are below twice the buffer size, which fits \<^verbatim>\<open>unsigned\<close> for the sizes the program uses,
  so natural numbers represent them exactly; a write or read beyond the array is an error.
\<close>

record cpbuffer =
  cp_buf :: string
  cur_idx :: nat
  cp_length :: nat

abbreviation cp_size :: "cpbuffer \<Rightarrow> nat" where
  "cp_size b \<equiv> length (cp_buf b)"

text \<open>The array is not initialised by the constructor; its contents are a parameter.\<close>

definition cp_new :: "string \<Rightarrow> cpbuffer" where
  "cp_new a = \<lparr>cp_buf = a, cur_idx = 0, cp_length = 0\<rparr>"

definition get_free :: "cpbuffer \<Rightarrow> nat" where
  "get_free b = cp_size b - cp_length b"

text \<open>The position of index \<open>i\<close>: one conditional subtraction, as in the code.\<close>

definition cp_pos :: "cpbuffer \<Rightarrow> nat \<Rightarrow> nat" where
  "cp_pos b i = (let pos = cur_idx b + i in if pos \<ge> cp_size b then pos - cp_size b else pos)"

definition cp_index :: "cpbuffer \<Rightarrow> nat \<Rightarrow> char option" where
  "cp_index b i = (if cp_pos b i < cp_size b then Some (cp_buf b ! cp_pos b i) else None)"

text \<open>\<^verbatim>\<open>get_contiguous_length\<close>, its pointer argument as a position in the array.\<close>

definition get_contiguous_length :: "cpbuffer \<Rightarrow> nat \<Rightarrow> nat" where
  "get_contiguous_length b ptr =
     (if cp_length b = 0 then 0
      else let eidx = cp_pos b (cp_length b)
           in if eidx > ptr then eidx - ptr else cp_size b - ptr)"

text \<open>\<^verbatim>\<open>memcpy\<close> into the array; \<open>None\<close> if it runs over the end.\<close>

definition cp_memcpy :: "string \<Rightarrow> nat \<Rightarrow> string \<Rightarrow> string option" where
  "cp_memcpy a i s = (if i + length s \<le> length a then Some (take i a @ s @ drop (i + length s) a) else None)"

definition cp_read_array :: "string \<Rightarrow> nat \<Rightarrow> nat \<Rightarrow> string option" where
  "cp_read_array a i n = (if i + n \<le> length a then Some (take n (drop i a)) else None)"

text \<open>
  \<^verbatim>\<open>fill(fd)\<close>: \<open>rd k\<close> is what a read of at most \<open>k\<close> bytes returns, \<open>None\<close> an error. The results are the
  return value of \<^verbatim>\<open>fill\<close> and the new buffer; the outer \<open>None\<close> is a read beyond the array.
\<close>

definition cp_fill_count :: "cpbuffer \<Rightarrow> nat" where
  "cp_fill_count b = min (cp_size b - cp_pos b (cp_length b)) (cp_size b - cp_length b)"

definition cp_fill_max :: "nat \<Rightarrow> (nat \<Rightarrow> string option) \<Rightarrow> cpbuffer \<Rightarrow> (int \<times> cpbuffer) option" where
  "cp_fill_max max_count rd b =
     (case rd max_count of
        None \<Rightarrow> Some (-1, b)
      | Some s \<Rightarrow>
          do {
            a \<leftarrow> cp_memcpy (cp_buf b) (cp_pos b (cp_length b)) s;
            Some (int (length s), b\<lparr>cp_buf := a, cp_length := cp_length b + length s\<rparr>)
          })"

definition cp_fill :: "(nat \<Rightarrow> string option) \<Rightarrow> cpbuffer \<Rightarrow> (int \<times> cpbuffer) option" where
  "cp_fill rd b = cp_fill_max (cp_fill_count b) rd b"

definition cp_fill_limit :: "nat \<Rightarrow> (nat \<Rightarrow> string option) \<Rightarrow> cpbuffer \<Rightarrow> (int \<times> cpbuffer) option" where
  "cp_fill_limit limit rd b = cp_fill_max (min (cp_fill_count b) limit) rd b"

text \<open>
  \<^verbatim>\<open>fill_to\<close>: the list holds the answers of the successive reads; if it runs out the call has not
  returned yet.
\<close>

fun cp_fill_to :: "nat \<Rightarrow> (nat \<Rightarrow> string option) list \<Rightarrow> cpbuffer \<Rightarrow> (int \<times> cpbuffer) option" where
  "cp_fill_to rlength rds b =
     (if cp_length b < rlength then
        (case rds of
           [] \<Rightarrow> None
         | rd # rds \<Rightarrow>
             do {
               (r, b) \<leftarrow> cp_fill rd b;
               if r \<le> 0 then Some (r, b) else cp_fill_to rlength rds b
             })
      else Some (1, b))"

definition trim_to :: "nat \<Rightarrow> cpbuffer \<Rightarrow> cpbuffer" where
  "trim_to n b = b\<lparr>cp_length := n\<rparr>"

definition consume :: "nat \<Rightarrow> cpbuffer \<Rightarrow> cpbuffer" where
  "consume n b =
     b\<lparr>cur_idx := (if cur_idx b + n \<ge> cp_size b then cur_idx b + n - cp_size b else cur_idx b + n),
       cp_length := cp_length b - n\<rparr>"

definition cp_extract :: "nat \<Rightarrow> nat \<Rightarrow> cpbuffer \<Rightarrow> string option" where
  "cp_extract index len b =
     (let index = cp_pos b index
      in if index + len > cp_size b then
           (let half = cp_size b - index
            in do {
                 x \<leftarrow> cp_read_array (cp_buf b) index half;
                 y \<leftarrow> cp_read_array (cp_buf b) 0 (len - half);
                 Some (x @ y)
               })
         else cp_read_array (cp_buf b) index len)"

definition cp_extract_string :: "nat \<Rightarrow> nat \<Rightarrow> cpbuffer \<Rightarrow> string option" where
  "cp_extract_string index len b =
     (let index = cp_pos b index
      in if index + len > cp_size b then
           do {
             r \<leftarrow> cp_read_array (cp_buf b) index (cp_size b - index);
             y \<leftarrow> cp_read_array (cp_buf b) 0 (len - (cp_size b - index));
             Some (r @ y)
           }
         else cp_read_array (cp_buf b) index len)"

definition cp_append :: "string \<Rightarrow> cpbuffer \<Rightarrow> cpbuffer option" where
  "cp_append s b =
     (let index = cp_pos b (cp_length b);
          room = cp_size b - index
      in do {
           a \<leftarrow> cp_memcpy (cp_buf b) index (take (min room (length s)) s);
           a \<leftarrow> (if length s > room then cp_memcpy a 0 (drop room s) else Some a);
           Some (b\<lparr>cp_buf := a, cp_length := cp_length b + length s\<rparr>)
         })"

definition cp_reset :: "cpbuffer \<Rightarrow> cpbuffer" where
  "cp_reset b = b\<lparr>cur_idx := 0, cp_length := 0\<rparr>"

section \<open>Refinement\<close>

definition cp_ok :: "cpbuffer \<Rightarrow> bool" where
  "cp_ok b \<longleftrightarrow> cur_idx b < cp_size b \<and> cp_length b \<le> cp_size b"

definition cp_contents :: "cpbuffer \<Rightarrow> string" where
  "cp_contents b = take (cp_length b) (rotate (cur_idx b) (cp_buf b))"

lemma cp_contents_length [simp]: "cp_ok b \<Longrightarrow> length (cp_contents b) = cp_length b"
  by (simp add: cp_contents_def cp_ok_def)

lemma cp_pos_alt: "cp_ok b \<Longrightarrow> i \<le> cp_size b \<Longrightarrow> cp_pos b i = (cur_idx b + i) mod cp_size b"
  by (auto simp: cp_pos_def cp_ok_def Let_def mod_if)

lemma cp_pos_less: "cp_ok b \<Longrightarrow> i \<le> cp_size b \<Longrightarrow> cp_pos b i < cp_size b"
  by (auto simp: cp_pos_def cp_ok_def Let_def)

lemma cp_contents_nth: "cp_ok b \<Longrightarrow> i < cp_length b \<Longrightarrow> cp_contents b ! i = cp_buf b ! cp_pos b i"
  using cp_pos_alt [of b i] by (simp add: cp_contents_def cp_ok_def nth_rotate)

lemma contents_eqI:
  assumes "cp_ok b" "length s = cp_length b" "\<And>i. i < cp_length b \<Longrightarrow> cp_buf b ! cp_pos b i = s ! i"
  shows "cp_contents b = s"
  using assms by (auto simp: list_eq_iff_nth_eq cp_contents_nth)

lemma cp_index_contents: "cp_ok b \<Longrightarrow> i < cp_length b \<Longrightarrow> cp_index b i = Some (cp_contents b ! i)"
  using cp_pos_less [of b i] by (simp add: cp_index_def cp_contents_nth cp_ok_def)

lemma consume_contents:
  assumes "cp_ok b" "n \<le> cp_length b"
  shows "cp_ok (consume n b)" "cp_contents (consume n b) = drop n (cp_contents b)"
proof -
  show ok: "cp_ok (consume n b)" using assms by (auto simp: cp_ok_def consume_def)
  show "cp_contents (consume n b) = drop n (cp_contents b)"
  proof (rule contents_eqI [OF ok])
    fix i assume "i < cp_length (consume n b)"
    then have i: "n + i < cp_length b" by (simp add: consume_def)
    have "cp_pos (consume n b) i = cp_pos b (n + i)"
      using assms i by (auto simp: cp_pos_def consume_def cp_ok_def Let_def)
    then show "cp_buf (consume n b) ! cp_pos (consume n b) i = drop n (cp_contents b) ! i"
      using assms i cp_contents_nth [OF assms(1) i] by (simp add: consume_def)
  qed (use assms in \<open>simp add: consume_def\<close>)
qed

lemma cp_memcpy_nth:
  assumes "i + length s \<le> length a"
  obtains a' where "cp_memcpy a i s = Some a'" "length a' = length a"
    "\<And>j. j < length a \<Longrightarrow> a' ! j = (if i \<le> j \<and> j < i + length s then s ! (j - i) else a ! j)"
proof
  show "cp_memcpy a i s = Some (take i a @ s @ drop (i + length s) a)"
    "length (take i a @ s @ drop (i + length s) a) = length a"
    using assms by (simp_all add: cp_memcpy_def)
  show "(take i a @ s @ drop (i + length s) a) ! j = (if i \<le> j \<and> j < i + length s then s ! (j - i) else a ! j)"
    if "j < length a" for j
    using assms that by (auto simp: nth_append)
qed

text \<open>The position of an index relative to the position behind the contents.\<close>

lemma cp_pos_cases:
  assumes "cp_ok b" "i \<le> cp_size b"
  obtains "i < cp_length b" "cp_pos b (cp_length b) \<le> cp_pos b i" "cp_pos b i = cur_idx b + i"
      "cp_pos b (cp_length b) \<le> cur_idx b" "cp_pos b (cp_length b) + cp_size b = cur_idx b + cp_length b"
    | "i < cp_length b" "cp_pos b i < cp_pos b (cp_length b)" "cp_pos b (cp_length b) - cp_pos b i = cp_length b - i"
    | "cp_length b \<le> i" "cp_pos b i = cp_pos b (cp_length b) + (i - cp_length b)"
    | "cp_length b \<le> i" "cp_pos b (cp_length b) = cur_idx b + cp_length b"
      "cp_pos b i + cp_size b = cp_pos b (cp_length b) + (i - cp_length b)"
proof -
  consider "cur_idx b + cp_length b < cp_size b" | "cp_size b \<le> cur_idx b + cp_length b" by linarith
  then show thesis
  proof cases
    case 1
    then have p: "cp_pos b (cp_length b) = cur_idx b + cp_length b" by (simp add: cp_pos_def)
    show thesis
    proof (cases "i < cp_length b")
      case True
      then show thesis using that(2) p 1 by (simp add: cp_pos_def)
    next
      case False
      then show thesis using that(3,4) p assms by (cases "cur_idx b + i < cp_size b") (simp_all add: cp_pos_def)
    qed
  next
    case 2
    then have p: "cp_pos b (cp_length b) = cur_idx b + cp_length b - cp_size b" by (simp add: cp_pos_def)
    show thesis
    proof (cases "i < cp_length b")
      case True
      then show thesis using that(1,2) p 2 assms
        by (cases "cur_idx b + i < cp_size b") (simp_all add: cp_pos_def cp_ok_def)
    next
      case False
      then show thesis using that(3) p 2 assms by (simp add: cp_pos_def cp_ok_def)
    qed
  qed
qed

text \<open>Writing behind the contents, in one piece (up to the end of the array) or in two.\<close>

lemma cp_append_contents:
  assumes ok: "cp_ok b" and room: "cp_length b + length s \<le> cp_size b"
  obtains b' where "cp_append s b = Some b'" "cp_ok b'" "cp_contents b' = cp_contents b @ s" "cp_size b' = cp_size b"
proof -
  let ?p = "cp_pos b (cp_length b)" and ?S = "cp_size b"
  have p: "?p < ?S" using cp_pos_less [OF ok, of "cp_length b"] ok by (simp add: cp_ok_def)
  let ?s1 = "take (min (?S - ?p) (length s)) s"
  obtain a1 where a1: "cp_memcpy (cp_buf b) ?p ?s1 = Some a1" "length a1 = ?S"
    "\<And>j. j < ?S \<Longrightarrow> a1 ! j = (if ?p \<le> j \<and> j < ?p + length ?s1 then ?s1 ! (j - ?p) else cp_buf b ! j)"
    by (rule cp_memcpy_nth [of ?p ?s1 "cp_buf b"]) (use p in auto)
  obtain a2 where a2: "cp_memcpy a1 0 (drop (?S - ?p) s) = Some a2" "length a2 = ?S"
    "\<And>j. j < ?S \<Longrightarrow> a2 ! j = (if j < length s - (?S - ?p) then drop (?S - ?p) s ! j else a1 ! j)"
    by (rule cp_memcpy_nth [of 0 "drop (?S - ?p) s" a1]) (use a1(2) room in auto)
  define a where "a = (if length s > ?S - ?p then a2 else a1)"
  define b' where "b' = b\<lparr>cp_buf := a, cp_length := cp_length b + length s\<rparr>"
  have a: "length a = ?S" using a1 a2 by (simp add: a_def)
  then have ok': "cp_ok b'" using ok room by (simp add: cp_ok_def b'_def)
  have "cp_append s b = Some b'"
    using a1(1) a2(1) by (simp add: cp_append_def b'_def a_def Let_def)
  moreover have "cp_contents b' = cp_contents b @ s"
  proof (rule contents_eqI [OF ok'])
    fix i assume "i < cp_length b'"
    then have i: "i < cp_length b + length s" by (simp add: b'_def)
    have pos: "cp_pos b' i = cp_pos b i" by (simp add: cp_pos_def b'_def a Let_def)
    have ppos: "cp_pos b i < ?S" using cp_pos_less [OF ok, of i] i room by simp
    have "a ! cp_pos b i = (if i < cp_length b then cp_buf b ! cp_pos b i else s ! (i - cp_length b))"
    proof (rule cp_pos_cases [OF ok, of i])
      assume 4: "cp_length b \<le> i" "?p = cur_idx b + cp_length b" "cp_pos b i + ?S = ?p + (i - cp_length b)"
      then have "cp_pos b i < length s - (?S - ?p)" "(?S - ?p) + cp_pos b i = i - cp_length b" "length s > ?S - ?p"
        using i p by linarith+
      then show ?thesis using a2(3) [OF ppos] 4(1) by (simp add: a_def)
    qed (use room i ppos ok a1(3) [OF ppos] a2(3) [OF ppos] in \<open>auto simp: a_def cp_ok_def min_def\<close>)
    then show "cp_buf b' ! cp_pos b' i = (cp_contents b @ s) ! i"
      using ok by (simp add: pos nth_append cp_contents_nth) (simp add: b'_def)
  qed (use ok in \<open>simp add: b'_def\<close>)
  ultimately show thesis using that ok' a by (simp add: b'_def)
qed

lemma cp_read_array_nth:
  "cp_read_array a i n = Some s \<Longrightarrow> length s = n \<and> (\<forall>j<n. s ! j = a ! (i + j))"
  by (auto simp: cp_read_array_def split: if_splits)

lemma cp_extract_contents:
  assumes ok: "cp_ok b" and len: "index + len \<le> cp_length b"
  shows "cp_extract index len b = Some (take len (drop index (cp_contents b)))"
proof -
  let ?p = "cp_pos b index" and ?S = "cp_size b"
  have S: "index + len \<le> ?S" using ok len by (simp add: cp_ok_def)
  have p: "?p < ?S" using cp_pos_less [OF ok, of index] S by simp
  have nth: "cp_contents b ! (index + j) = cp_buf b ! cp_pos b (index + j)" if "j < len" for j
    using cp_contents_nth [OF ok, of "index + j"] that len by simp
  show ?thesis
  proof (cases "?p + len > ?S")
    case True
    let ?h = "?S - ?p"
    have x: "cp_read_array (cp_buf b) ?p ?h = Some (drop ?p (cp_buf b))"
      using p by (simp add: cp_read_array_def)
    have y: "cp_read_array (cp_buf b) 0 (len - ?h) = Some (take (len - ?h) (cp_buf b))"
      using S p by (simp add: cp_read_array_def)
    have "cp_pos b (index + j) = (if j < ?h then ?p + j else j - ?h)" if "j < len" for j
      using True ok S that by (auto simp: cp_pos_def cp_ok_def Let_def split: if_splits)
    then have "drop ?p (cp_buf b) @ take (len - ?h) (cp_buf b) = take len (drop index (cp_contents b))"
      using True p len ok S nth
      by (intro nth_equalityI) (auto simp: nth_append)
    then show ?thesis using True x y by (simp add: cp_extract_def Let_def)
  next
    case False
    then have x: "cp_read_array (cp_buf b) ?p len = Some (take len (drop ?p (cp_buf b)))"
      by (simp add: cp_read_array_def)
    have "cp_pos b (index + j) = ?p + j" if "j < len" for j
      using False ok S that by (auto simp: cp_pos_def cp_ok_def Let_def split: if_splits)
    then have "take len (drop ?p (cp_buf b)) = take len (drop index (cp_contents b))"
      using False p len ok S nth by (intro nth_equalityI) auto
    then show ?thesis using False x by (simp add: cp_extract_def Let_def)
  qed
qed

lemma cp_extract_string_eq: "cp_extract_string index len b = cp_extract index len b"
  by (simp add: cp_extract_def cp_extract_string_def Let_def)

lemma cp_fill_max_contents:
  assumes ok: "cp_ok b" and s: "rd k = Some s" "length s \<le> cp_fill_count b"
  obtains b' where "cp_fill_max k rd b = Some (int (length s), b')" "cp_ok b'" "cp_contents b' = cp_contents b @ s"
    "cp_size b' = cp_size b"
proof -
  have room: "length s \<le> cp_size b - cp_pos b (cp_length b)" "cp_length b + length s \<le> cp_size b"
    using s(2) ok by (auto simp: cp_fill_count_def cp_ok_def)
  obtain b' where b': "cp_append s b = Some b'" "cp_ok b'" "cp_contents b' = cp_contents b @ s" "cp_size b' = cp_size b"
    by (rule cp_append_contents [OF ok room(2)])
  have "cp_fill_max k rd b = Some (int (length s), b')"
    using s(1) b'(1) room by (auto simp: cp_fill_max_def cp_append_def Let_def split: Option.bind_split_asm)
  then show thesis using that b' by blast
qed

lemma contiguous_length:
  assumes "cp_ok b" "i < cp_length b"
  shows "get_contiguous_length b (cp_pos b i) = min (cp_length b - i) (cp_size b - cp_pos b i)"
  by (rule cp_pos_cases [OF assms(1), of i])
    (use assms cp_pos_less [OF assms(1), of i] cp_pos_less [OF assms(1), of "cp_length b"] in
      \<open>auto simp: get_contiguous_length_def cp_ok_def Let_def min_def\<close>)

section \<open>Histories\<close>

text \<open>
  A history of uses of the buffer within the preconditions its comments state: appended bytes fit,
  no more is consumed, extracted or kept than is there. The result is what the extractions yield.
\<close>

datatype cp_use = Put string | Receive "nat \<Rightarrow> string option" | Drop nat | Trim nat | Clear | Peek nat nat

fun cp_run :: "cp_use list \<Rightarrow> cpbuffer \<Rightarrow> string list option" where
  "cp_run [] b = Some []"
| "cp_run (Put s # us) b = Option.bind (cp_append s b) (cp_run us)"
| "cp_run (Receive rd # us) b = Option.bind (cp_fill rd b) (\<lambda>(_, b). cp_run us b)"
| "cp_run (Drop n # us) b = cp_run us (consume n b)"
| "cp_run (Trim n # us) b = cp_run us (trim_to n b)"
| "cp_run (Clear # us) b = cp_run us (cp_reset b)"
| "cp_run (Peek i n # us) b = Option.bind (cp_extract_string i n b) (\<lambda>s. map_option (Cons s) (cp_run us b))"

text \<open>The same on a plain string; a step outside the preconditions, or a \<^verbatim>\<open>read\<close> that returns more than
  was asked for, gives \<open>None\<close>. \<open>ks\<close> are the amounts the successive reads ask for.\<close>

fun text_run :: "nat \<Rightarrow> nat list \<Rightarrow> cp_use list \<Rightarrow> string \<Rightarrow> string list option" where
  "text_run cap ks [] q = Some []"
| "text_run cap ks (Put s # us) q = (if length q + length s \<le> cap then text_run cap ks us (q @ s) else None)"
| "text_run cap (k # ks) (Receive rd # us) q =
     (case rd k of None \<Rightarrow> text_run cap ks us q
      | Some s \<Rightarrow> if length s \<le> k then text_run cap ks us (q @ s) else None)"
| "text_run cap [] (Receive rd # us) q = None"
| "text_run cap ks (Drop n # us) q = (if n \<le> length q then text_run cap ks us (drop n q) else None)"
| "text_run cap ks (Trim n # us) q = (if n \<le> length q then text_run cap ks us (take n q) else None)"
| "text_run cap ks (Clear # us) q = text_run cap ks us []"
| "text_run cap ks (Peek i n # us) q =
     (if i + n \<le> length q then map_option (Cons (take n (drop i q))) (text_run cap ks us q) else None)"

text \<open>The amounts the buffer asks the successive reads for.\<close>

fun cp_requests :: "cp_use list \<Rightarrow> cpbuffer \<Rightarrow> nat list" where
  "cp_requests [] b = []"
| "cp_requests (Put s # us) b = (case cp_append s b of None \<Rightarrow> [] | Some b \<Rightarrow> cp_requests us b)"
| "cp_requests (Receive rd # us) b =
     cp_fill_count b # (case cp_fill rd b of None \<Rightarrow> [] | Some (_, b) \<Rightarrow> cp_requests us b)"
| "cp_requests (Drop n # us) b = cp_requests us (consume n b)"
| "cp_requests (Trim n # us) b = cp_requests us (trim_to n b)"
| "cp_requests (Clear # us) b = cp_requests us (cp_reset b)"
| "cp_requests (Peek i n # us) b = cp_requests us b"

lemma trim_contents: "cp_ok b \<Longrightarrow> n \<le> cp_length b \<Longrightarrow> cp_ok (trim_to n b) \<and> cp_contents (trim_to n b) = take n (cp_contents b)"
  by (simp add: cp_ok_def cp_contents_def trim_to_def)

lemma reset_contents: "cp_ok b \<Longrightarrow> cp_ok (cp_reset b) \<and> cp_contents (cp_reset b) = []"
  by (auto simp: cp_ok_def cp_contents_def cp_reset_def)

lemma cp_size_simps [simp]:
  "cp_size (consume n b) = cp_size b" "cp_size (trim_to n b) = cp_size b" "cp_size (cp_reset b) = cp_size b"
  by (simp_all add: consume_def trim_to_def cp_reset_def)

lemma cp_run_text:
  "cp_ok b \<Longrightarrow> text_run (cp_size b) (cp_requests us b) us (cp_contents b) = Some out \<Longrightarrow> cp_run us b = Some out"
proof (induction us b arbitrary: out rule: cp_run.induct)
  case (2 s us b)
  then have fits: "cp_length b + length s \<le> cp_size b" by (auto split: if_splits)
  obtain b' where "cp_append s b = Some b'" "cp_ok b'" "cp_contents b' = cp_contents b @ s" "cp_size b' = cp_size b"
    by (rule cp_append_contents [OF 2(2) fits])
  with 2 fits show ?case by simp
next
  case (3 rd us b)
  show ?case
  proof (cases "rd (cp_fill_count b)")
    case None
    then show ?thesis using 3 by (simp add: cp_fill_def cp_fill_max_def)
  next
    case (Some s)
    with 3 have "length s \<le> cp_fill_count b" by (auto split: if_splits)
    then obtain b' where "cp_fill rd b = Some (int (length s), b')" "cp_ok b'" "cp_contents b' = cp_contents b @ s"
      "cp_size b' = cp_size b"
      unfolding cp_fill_def using cp_fill_max_contents [of b rd "cp_fill_count b" s, OF 3(2) Some] by blast
    with 3 Some show ?thesis by (simp split: if_splits)
  qed
next
  case (4 n us b)
  then have n: "n \<le> cp_length b" by (auto split: if_splits)
  show ?case using 4 n consume_contents [OF 4(2) n] by simp
next
  case (5 n us b)
  then have n: "n \<le> cp_length b" by (auto split: if_splits)
  show ?case using 5 n trim_contents [OF 5(2) n] by simp
next
  case (6 us b)
  then show ?case using reset_contents [OF 6(2)] by simp
next
  case (7 i n us b)
  then have "cp_extract_string i n b = Some (take n (drop i (cp_contents b)))"
    by (auto simp: cp_extract_string_eq cp_extract_contents split: if_splits)
  then show ?case using 7 by (auto split: if_splits)
qed simp

text \<open>
  C18. The circular buffer behaves as a plain string: over any history within the preconditions, no
  access leaves the array and every extraction yields the bytes a string of the same history holds.
\<close>

theorem cpbuffer_refines_string:
  assumes "a \<noteq> []" and "text_run (length a) (cp_requests us (cp_new a)) us [] = Some out"
  shows "cp_run us (cp_new a) = Some out"
proof -
  have "cp_ok (cp_new a)" "cp_contents (cp_new a) = []" "cp_size (cp_new a) = length a"
    using assms(1) by (simp_all add: cp_ok_def cp_contents_def cp_new_def)
  with assms(2) show ?thesis by (simp add: cp_run_text)
qed

theorem cpbuffer_refines_string_witness:
  "cp_run [Put ''abcd'', Drop 3, Put ''efg'', Peek 0 4] (cp_new ''_____'') = Some [''defg'']"
  by (rule cpbuffer_refines_string) (simp_all add: cp_new_def)

end
