(* ===== verification/Environment.thy ===== *)
theory Environment
  imports Prelude
begin

text \<open>
  Environments for service processes (\<^verbatim>\<open>dinit-env.h\<close>): which variables are set, imported from or
  removed relative to a parent environment, how the list handed to \<^verbatim>\<open>exec\<close> is built, and the
  environment file reader. The hashed sets are lists here; their iteration order is unspecified in
  the source and the theorems hold for every order. The process environment (\<^verbatim>\<open>environ\<close>) is a
  parameter.
\<close>

section \<open>Names and values\<close>

text \<open>The name of a \<^verbatim>\<open>NAME=VALUE\<close> string, as \<^verbatim>\<open>find_var_name\<close> and the hash and comparison functors take it.\<close>

definition env_name :: "string \<Rightarrow> string" where
  "env_name s = takeWhile (\<lambda>c. c \<noteq> CHR ''='') s"

definition env_value :: "string \<Rightarrow> string" where
  "env_value s = drop (length (env_name s) + 1) s"

definition is_assignment :: "string \<Rightarrow> bool" where
  "is_assignment s \<longleftrightarrow> CHR ''='' \<in> set s"

definition getenv :: "string list \<Rightarrow> string \<Rightarrow> string option" where
  "getenv environ name = map_option env_value (find (\<lambda>e. is_assignment e \<and> env_name e = name) environ)"

section \<open>Environment objects\<close>

record environment =
  keep_parent_env :: bool
  import_from_parent :: "string list"
  undefine :: "string list"
  set_vars :: "string list"

definition new_environment :: environment where
  "new_environment = \<lparr>keep_parent_env = True, import_from_parent = [], undefine = [], set_vars = []\<rparr>"

definition find_set_var :: "environment \<Rightarrow> string \<Rightarrow> string option" where
  "find_set_var env name = find (\<lambda>s. env_name s = name) (set_vars env)"

text \<open>\<^verbatim>\<open>get\<close>: the variable as \<^verbatim>\<open>NAME=VALUE\<close>, empty if there is none.\<close>

definition env_get :: "string list \<Rightarrow> environment \<Rightarrow> string \<Rightarrow> string" where
  "env_get environ env name =
     (case find_set_var env name of
        Some s \<Rightarrow> s
      | None \<Rightarrow>
          if \<not> keep_parent_env env \<and> name \<notin> set (import_from_parent env) then []
          else case getenv environ name of None \<Rightarrow> [] | Some v \<Rightarrow> name @ CHR ''='' # v)"

text \<open>Inserting into the set of assignments replaces the one with the same name.\<close>

definition insert_assignment :: "string \<Rightarrow> string list \<Rightarrow> string list" where
  "insert_assignment s xs =
     (if \<exists>x\<in>set xs. env_name x = env_name s
      then map (\<lambda>x. if env_name x = env_name s then s else x) xs else xs @ [s])"

text \<open>What listeners are told: the variable and whether an earlier value is overridden.\<close>

definition set_var :: "string list \<Rightarrow> string \<Rightarrow> bool \<Rightarrow> environment \<Rightarrow> (string \<times> bool) option \<times> environment" where
  "set_var environ s notify env =
     (let name = env_name s;
          n_removed = (if name \<in> set (undefine env) then 1 else 0 :: nat);
          in_sysenv = (notify \<and> n_removed = 0 \<and> getenv environ name \<noteq> None);
          overridden = (in_sysenv \<or> find_set_var env name \<noteq> None)
      in (if notify then Some (s, overridden) else None,
          env\<lparr>import_from_parent := removeAll name (import_from_parent env),
              undefine := removeAll name (undefine env),
              set_vars := insert_assignment s (set_vars env)\<rparr>))"

definition import_parent_var :: "string \<Rightarrow> environment \<Rightarrow> environment" where
  "import_parent_var name env =
     (let env = env\<lparr>undefine := removeAll name (undefine env),
                    set_vars := filter (\<lambda>s. env_name s \<noteq> name) (set_vars env)\<rparr>
      in if \<not> keep_parent_env env
         then env\<lparr>import_from_parent := List.insert name (import_from_parent env)\<rparr> else env)"

definition undefine_var :: "string list \<Rightarrow> string \<Rightarrow> bool \<Rightarrow> environment \<Rightarrow> (string \<times> bool) option \<times> environment" where
  "undefine_var environ name notify env =
     (let was_set = (find_set_var env name \<noteq> None \<or> (notify \<and> getenv environ name \<noteq> None));
          env = env\<lparr>import_from_parent := removeAll name (import_from_parent env),
                    set_vars := filter (\<lambda>s. env_name s \<noteq> name) (set_vars env)\<rparr>;
          env = (if keep_parent_env env then env\<lparr>undefine := List.insert name (undefine env)\<rparr> else env)
      in (if notify then Some (name, was_set) else None, env))"

definition clear_no_inherit :: "environment \<Rightarrow> environment" where
  "clear_no_inherit env =
     env\<lparr>keep_parent_env := False, import_from_parent := [], undefine := [], set_vars := []\<rparr>"

section \<open>Building the environment of a process\<close>

text \<open>The list for \<^verbatim>\<open>exec\<close> (\<open>None\<close> is the null pointer at its end) and the index of each name in it.\<close>

record env_map =
  env_list :: "string option list"
  var_map :: "string \<rightharpoonup> nat"

definition env_lookup :: "env_map \<Rightarrow> string \<Rightarrow> string option" where
  "env_lookup m name =
     (case var_map m name of
        None \<Rightarrow> None
      | Some i \<Rightarrow> if i < length (env_list m) then map_option (drop (length name + 1)) (env_list m ! i) else None)"

text \<open>\<^verbatim>\<open>var_map.insert\<close> keeps an entry that is already there.\<close>

definition push_import :: "string \<Rightarrow> string \<Rightarrow> env_map \<Rightarrow> env_map" where
  "push_import name s m =
     m\<lparr>env_list := env_list m @ [Some s],
       var_map := (if var_map m name = None then (var_map m)(name \<mapsto> length (env_list m)) else var_map m)\<rparr>"

definition push_own :: "string \<Rightarrow> env_map \<Rightarrow> env_map" where
  "push_own s m =
     (case var_map m (env_name s) of
        Some pos \<Rightarrow> m\<lparr>env_list := (env_list m)[pos := Some s]\<rparr>
      | None \<Rightarrow> m\<lparr>var_map := (var_map m)(env_name s \<mapsto> length (env_list m)), env_list := env_list m @ [Some s]\<rparr>)"

definition empty_env_map :: env_map where
  "empty_env_map = \<lparr>env_list = [], var_map = Map.empty\<rparr>"

definition import_all :: "string list \<Rightarrow> environment \<Rightarrow> string list \<Rightarrow> env_map \<Rightarrow> env_map" where
  "import_all exclude env environ =
     fold (\<lambda>e m. if is_assignment e \<and> env_name e \<notin> set (undefine env) \<and> env_name e \<notin> set exclude
                 then push_import (env_name e) e m else m) environ"

definition import_named :: "(string \<Rightarrow> string) \<Rightarrow> string list \<Rightarrow> env_map \<Rightarrow> env_map" where
  "import_named get = fold (\<lambda>name m. if get name = [] then m else push_import name (get name) m)"

definition getenv_pair :: "string list \<Rightarrow> string \<Rightarrow> string" where
  "getenv_pair environ name = (case getenv environ name of None \<Rightarrow> [] | Some v \<Rightarrow> name @ CHR ''='' # v)"

definition end_env_list :: "env_map \<Rightarrow> env_map" where
  "end_env_list m = m\<lparr>env_list := env_list m @ [None]\<rparr>"

text \<open>\<^verbatim>\<open>build(exclude)\<close>: the parent is the process environment.\<close>

definition build_excluding :: "string list \<Rightarrow> string list \<Rightarrow> environment \<Rightarrow> env_map" where
  "build_excluding environ exclude env =
     (let m = (if keep_parent_env env then import_all exclude env environ empty_env_map
               else import_named (getenv_pair environ) (import_from_parent env) empty_env_map);
          m = fold (\<lambda>s m. if env_name s \<notin> set exclude then push_own s m else m) (set_vars env) m
      in end_env_list m)"

definition build :: "string list \<Rightarrow> environment \<Rightarrow> env_map" where
  "build environ env = build_excluding environ [] env"

text \<open>\<^verbatim>\<open>build(parent_env)\<close>: the parent is another environment object.\<close>

definition build_child :: "string list \<Rightarrow> environment \<Rightarrow> environment \<Rightarrow> env_map" where
  "build_child environ parent env =
     (let m = (if keep_parent_env env
               then (let m = build_excluding environ (undefine env) parent in m\<lparr>env_list := butlast (env_list m)\<rparr>)
               else import_named (env_get environ parent) (import_from_parent env) empty_env_map);
          m = fold push_own (set_vars env) m
      in end_env_list m)"

section \<open>Environment files\<close>

datatype env_warning = Invalid_setting nat | Bad_command nat

fun words_of :: "nat \<Rightarrow> string \<Rightarrow> string list" where
  "words_of 0 s = []"
| "words_of (Suc n) s =
     (let s = dropWhile c_isspace s
      in if s = [] then []
         else takeWhile (\<lambda>c. \<not> c_isspace c) s # words_of n (dropWhile (\<lambda>c. \<not> c_isspace c) s))"

definition env_command :: "nat \<Rightarrow> string \<Rightarrow> string list \<Rightarrow> environment \<Rightarrow> environment \<times> env_warning list" where
  "env_command linenum cmd args env =
     (if cmd = ''clear'' then (clear_no_inherit env, [])
      else if cmd = ''unset'' then (fold (\<lambda>a env. snd (undefine_var [] a False env)) args env, [])
      else if cmd = ''import'' then (fold import_parent_var args env, [])
      else (env, [Bad_command linenum]))"

text \<open>
  One line. A line that ends right after \<^verbatim>\<open>!\<close> makes the scan for the end of the command start behind
  the end of the line: \<open>None\<close>. (Listeners are not notified here, so the process environment does
  not matter.)
\<close>

definition read_env_line :: "nat \<Rightarrow> string \<Rightarrow> environment \<Rightarrow> (environment \<times> env_warning list) option" where
  "read_env_line linenum line env =
     (let l = dropWhile c_isspace line
      in case l of
           [] \<Rightarrow> Some (env, [])
         | c # rest \<Rightarrow>
             if c = CHR ''#'' then Some (env, [])
             else if c = CHR ''='' then Some (env, [Invalid_setting linenum])
             else if c = CHR ''!'' then
               (case rest of
                  [] \<Rightarrow> None
                | d # rest \<Rightarrow>
                    let cmd = d # takeWhile (\<lambda>c. \<not> c_isspace c) rest;
                        args = words_of (length rest) (dropWhile (\<lambda>c. \<not> c_isspace c) rest)
                    in Some (env_command linenum cmd args env))
             else
               (let name = c # takeWhile (\<lambda>c. c \<noteq> CHR ''='' \<and> \<not> c_isspace c) rest;
                    r = dropWhile c_isspace (dropWhile (\<lambda>c. c \<noteq> CHR ''='' \<and> \<not> c_isspace c) rest)
                in case r of
                     [] \<Rightarrow> Some (env, [Invalid_setting linenum])
                   | e # val \<Rightarrow>
                       if e \<noteq> CHR ''='' then Some (env, [Invalid_setting linenum])
                       else Some (snd (set_var [] (name @ CHR ''='' # val) False env), [])))"

text \<open>\<^verbatim>\<open>read_env_file_inline\<close> on the lines the stream yields.\<close>

fun read_env_lines :: "nat \<Rightarrow> string list \<Rightarrow> environment \<Rightarrow> (environment \<times> env_warning list) option" where
  "read_env_lines k [] env = Some (env, [])"
| "read_env_lines k (l # ls) env =
     do {
       (env, w) \<leftarrow> read_env_line k l env;
       (env, ws) \<leftarrow> read_env_lines (k + 1) ls env;
       Some (env, w @ ws)
     }"

section \<open>What a process sees\<close>

definition env_ok :: "environment \<Rightarrow> bool" where
  "env_ok env \<longleftrightarrow> (\<forall>s\<in>set (set_vars env). is_assignment s) \<and> distinct (map env_name (set_vars env)) \<and>
     (\<forall>n\<in>set (import_from_parent env). CHR ''='' \<notin> set n)"

definition map_ok :: "env_map \<Rightarrow> bool" where
  "map_ok m \<longleftrightarrow> (\<forall>n i. var_map m n = Some i \<longrightarrow>
     i < length (env_list m) \<and> (\<exists>s. env_list m ! i = Some s \<and> is_assignment s \<and> env_name s = n))"

lemma env_name_pair [simp]: "CHR ''='' \<notin> set n \<Longrightarrow> env_name (n @ CHR ''='' # v) = n"
  by (induction n) (auto simp: env_name_def)

lemma env_value_pair [simp]: "CHR ''='' \<notin> set n \<Longrightarrow> env_value (n @ CHR ''='' # v) = v"
  by (simp add: env_value_def)

lemma is_assignment_pair [simp]: "is_assignment (n @ CHR ''='' # v)"
  by (simp add: is_assignment_def)

lemma map_ok_empty [simp]: "map_ok empty_env_map" "env_lookup empty_env_map n = None"
  by (simp_all add: map_ok_def empty_env_map_def env_lookup_def)

lemma map_okD:
  assumes "map_ok m" "var_map m n = Some i"
  obtains s where "i < length (env_list m)" "env_list m ! i = Some s" "is_assignment s" "env_name s = n"
  using assms by (auto simp: map_ok_def)

lemma map_ok_lookup_None: "map_ok m \<Longrightarrow> env_lookup m n = None \<longleftrightarrow> var_map m n = None"
  by (cases "var_map m n") (auto simp: env_lookup_def elim: map_okD)

lemma lookup_at: "var_map m (env_name s) = Some i \<Longrightarrow> i < length (env_list m) \<Longrightarrow> env_list m ! i = Some s \<Longrightarrow>
    env_lookup m (env_name s) = Some (env_value s)"
  by (simp add: env_lookup_def env_value_def)

lemma lookup_cong:
  assumes "var_map m' n = var_map m n"
    and "\<And>i. var_map m n = Some i \<Longrightarrow> i < length (env_list m) \<Longrightarrow> i < length (env_list m') \<and> env_list m' ! i = env_list m ! i"
    and "map_ok m"
  shows "env_lookup m' n = env_lookup m n"
  using assms by (cases "var_map m n") (auto simp: env_lookup_def elim!: map_okD)

lemma push_import:
  assumes ok: "map_ok m" and s: "is_assignment s" "env_name s = name"
  shows "map_ok (push_import name s m)"
    "env_lookup (push_import name s m) n = (if n = name \<and> env_lookup m n = None then Some (env_value s) else env_lookup m n)"
proof -
  show "map_ok (push_import name s m)"
    unfolding map_ok_def push_import_def
    using s by (auto simp: nth_append split: if_splits elim!: map_okD [OF ok])
  show "env_lookup (push_import name s m) n = (if n = name \<and> env_lookup m n = None then Some (env_value s) else env_lookup m n)"
  proof (cases "n = name \<and> env_lookup m n = None")
    case True
    then have "env_lookup (push_import name s m) (env_name s) = Some (env_value s)"
      using s map_ok_lookup_None [OF ok] by (intro lookup_at [where i = "length (env_list m)"]) (auto simp: push_import_def)
    with True s show ?thesis by auto
  next
    case False
    then have "env_lookup (push_import name s m) n = env_lookup m n"
      using map_ok_lookup_None [OF ok] by (intro lookup_cong [OF _ _ ok]) (auto simp: push_import_def nth_append)
    with False show ?thesis by auto
  qed
qed

lemma push_own:
  assumes ok: "map_ok m" and s: "is_assignment s"
  shows "map_ok (push_own s m)"
    "env_lookup (push_own s m) n = (if n = env_name s then Some (env_value s) else env_lookup m n)"
proof -
  show "map_ok (push_own s m)"
  proof (cases "var_map m (env_name s)")
    case None
    then show ?thesis
      unfolding map_ok_def push_own_def using s by (auto simp: nth_append split: if_splits elim!: map_okD [OF ok])
  next
    case (Some p)
    then show ?thesis
      unfolding map_ok_def push_own_def
      using s by (auto simp: nth_list_update split: if_splits elim!: map_okD [OF ok])
  qed
  show "env_lookup (push_own s m) n = (if n = env_name s then Some (env_value s) else env_lookup m n)"
  proof (cases "var_map m (env_name s)")
    case None
    then show ?thesis
      using lookup_at [of "push_own s m" s "length (env_list m)"] lookup_cong [of "push_own s m" n m] ok
      by (auto simp: push_own_def nth_append)
  next
    case (Some p)
    then obtain t where p: "p < length (env_list m)" "env_list m ! p = Some t" "env_name t = env_name s"
      by (rule map_okD [OF ok])
    have "n \<noteq> env_name s \<Longrightarrow> var_map m n \<noteq> Some p"
      using p by (metis map_okD [OF ok] option.inject)
    then have "n \<noteq> env_name s \<Longrightarrow> env_lookup (push_own s m) n = env_lookup m n"
      using Some by (intro lookup_cong [OF _ _ ok]) (auto simp: push_own_def nth_list_update)
    then show ?thesis
      using Some p lookup_at [of "push_own s m" s p] by (auto simp: push_own_def)
  qed
qed

lemma import_all_lookup:
  assumes "map_ok m"
  shows "map_ok (import_all exclude env environ m)"
    "env_lookup (import_all exclude env environ m) n =
       (case env_lookup m n of
          Some v \<Rightarrow> Some v
        | None \<Rightarrow> if n \<in> set (undefine env) \<union> set exclude then None else getenv environ n)"
proof -
  have "map_ok (import_all exclude env environ m) \<and>
    env_lookup (import_all exclude env environ m) n =
       (case env_lookup m n of
          Some v \<Rightarrow> Some v
        | None \<Rightarrow> if n \<in> set (undefine env) \<union> set exclude then None else getenv environ n)"
    using assms
  proof (induction environ arbitrary: m)
    case Nil
    then show ?case by (simp add: import_all_def getenv_def split: option.split)
  next
    case (Cons e es)
    let ?take = "is_assignment e \<and> env_name e \<notin> set (undefine env) \<and> env_name e \<notin> set exclude"
    let ?m = "if ?take then push_import (env_name e) e m else m"
    have m: "map_ok ?m" "env_lookup ?m n = (if ?take \<and> n = env_name e \<and> env_lookup m n = None then Some (env_value e) else env_lookup m n)"
      using push_import [OF Cons.prems] Cons.prems by auto
    have "import_all exclude env (e # es) m = import_all exclude env es ?m" by (simp add: import_all_def)
    then show ?case using Cons.IH [OF m(1)] m(2) by (auto simp: getenv_def split: option.split)
  qed
  then show "map_ok (import_all exclude env environ m)"
    "env_lookup (import_all exclude env environ m) n =
       (case env_lookup m n of
          Some v \<Rightarrow> Some v
        | None \<Rightarrow> if n \<in> set (undefine env) \<union> set exclude then None else getenv environ n)"
    by simp_all
qed

lemma import_named_lookup:
  assumes "map_ok m" "\<And>n. n \<in> set names \<Longrightarrow> get n \<noteq> [] \<Longrightarrow> is_assignment (get n) \<and> env_name (get n) = n"
  shows "map_ok (import_named get names m) \<and> env_lookup (import_named get names m) n =
    (case env_lookup m n of
       Some v \<Rightarrow> Some v
     | None \<Rightarrow> if n \<in> set names \<and> get n \<noteq> [] then Some (env_value (get n)) else None)"
  using assms
proof (induction names arbitrary: m)
  case Nil
  then show ?case by (simp add: import_named_def split: option.split)
next
  case (Cons a as)
  let ?m = "if get a = [] then m else push_import a (get a) m"
  have m: "map_ok ?m" "env_lookup ?m n = (if get a \<noteq> [] \<and> n = a \<and> env_lookup m n = None then Some (env_value (get a)) else env_lookup m n)"
    using push_import [OF Cons.prems(1)] Cons.prems by auto
  have IH: "map_ok (import_named get as ?m) \<and> env_lookup (import_named get as ?m) n =
      (case env_lookup ?m n of Some v \<Rightarrow> Some v
       | None \<Rightarrow> if n \<in> set as \<and> get n \<noteq> [] then Some (env_value (get n)) else None)"
    by (rule Cons.IH [OF m(1)]) (use Cons.prems(2) in simp)
  have "import_named get (a # as) m = import_named get as ?m" by (simp add: import_named_def)
  then show ?case using IH m(2) by (cases "env_lookup m n"; cases "n = a"; cases "get a = []") simp_all
qed

lemma own_vars_lookup:
  assumes "map_ok m" "\<And>s. s \<in> set xs \<Longrightarrow> is_assignment s" "distinct (map env_name xs)"
  shows "map_ok (fold (\<lambda>s m. if env_name s \<notin> set ex then push_own s m else m) xs m) \<and>
    env_lookup (fold (\<lambda>s m. if env_name s \<notin> set ex then push_own s m else m) xs m) n =
      (case find (\<lambda>s. env_name s = n) xs of
         Some s \<Rightarrow> if n \<in> set ex then env_lookup m n else Some (env_value s)
       | None \<Rightarrow> env_lookup m n)"
  using assms
proof (induction xs arbitrary: m)
  case (Cons a as)
  let ?f = "\<lambda>s m. if env_name s \<notin> set ex then push_own s m else m"
  let ?m = "if env_name a \<notin> set ex then push_own a m else m"
  have m: "map_ok ?m" "env_lookup ?m n = (if env_name a \<notin> set ex \<and> n = env_name a then Some (env_value a) else env_lookup m n)"
    using push_own [OF Cons.prems(1)] Cons.prems by auto
  have "n = env_name a \<Longrightarrow> find (\<lambda>s. env_name s = n) as = None"
    using Cons.prems(3) by (simp add: find_None_iff) (metis image_eqI)
  moreover have IH: "map_ok (fold ?f as ?m) \<and> env_lookup (fold ?f as ?m) n =
      (case find (\<lambda>s. env_name s = n) as of
         Some s \<Rightarrow> if n \<in> set ex then env_lookup ?m n else Some (env_value s) | None \<Rightarrow> env_lookup ?m n)"
    by (rule Cons.IH [OF m(1)]) (use Cons.prems in simp_all)
  ultimately show ?case using m(2) by (cases "n = env_name a") (auto split: option.split)
qed simp

lemma end_env_list_lookup: "map_ok m \<Longrightarrow> env_lookup (end_env_list m) n = env_lookup m n"
  by (rule lookup_cong) (auto simp: end_env_list_def nth_append)

text \<open>
  Specification: the value a process started with this environment sees, when the parent is the
  process environment.
\<close>

definition effective :: "string list \<Rightarrow> environment \<Rightarrow> string \<Rightarrow> string option" where
  "effective environ env n =
     (case find_set_var env n of
        Some s \<Rightarrow> Some (env_value s)
      | None \<Rightarrow>
          if keep_parent_env env then (if n \<in> set (undefine env) then None else getenv environ n)
          else if n \<in> set (import_from_parent env) then getenv environ n else None)"

lemma getenv_pair:
  assumes "CHR ''='' \<notin> set n"
  shows "getenv_pair environ n \<noteq> [] \<Longrightarrow> is_assignment (getenv_pair environ n) \<and> env_name (getenv_pair environ n) = n"
    "getenv_pair environ n \<noteq> [] \<longleftrightarrow> getenv environ n \<noteq> None"
    "getenv environ n = Some v \<Longrightarrow> env_value (getenv_pair environ n) = v"
  using assms by (auto simp: getenv_pair_def split: option.splits)

lemma build_excluding_lookup:
  assumes "env_ok env"
  shows "env_lookup (build_excluding environ ex env) n =
    (case find_set_var env n of
       Some s \<Rightarrow> if n \<in> set ex then (if keep_parent_env env \<or> n \<notin> set (import_from_parent env) then None else getenv environ n)
                else Some (env_value s)
     | None \<Rightarrow>
         if keep_parent_env env then (if n \<in> set (undefine env) \<union> set ex then None else getenv environ n)
         else if n \<in> set (import_from_parent env) then getenv environ n else None)"
proof -
  let ?base = "if keep_parent_env env then import_all ex env environ empty_env_map
      else import_named (getenv_pair environ) (import_from_parent env) empty_env_map"
  have imp: "CHR ''='' \<notin> set k" if "k \<in> set (import_from_parent env)" for k
    using assms that by (simp add: env_ok_def)
  have named: "map_ok (import_named (getenv_pair environ) (import_from_parent env) empty_env_map)"
    "env_lookup (import_named (getenv_pair environ) (import_from_parent env) empty_env_map) n =
       (if n \<in> set (import_from_parent env) then getenv environ n else None)"
    using import_named_lookup [of empty_env_map "import_from_parent env" "getenv_pair environ" n] getenv_pair [OF imp]
    by (auto split: option.splits)
  have base: "map_ok ?base" "env_lookup ?base n =
      (if keep_parent_env env then (if n \<in> set (undefine env) \<union> set ex then None else getenv environ n)
       else if n \<in> set (import_from_parent env) then getenv environ n else None)"
    using named import_all_lookup [of empty_env_map ex env environ] by simp_all
  show ?thesis
    using own_vars_lookup [OF base(1), of "set_vars env" ex n] base(2) assms
    by (auto simp: build_excluding_def Let_def find_set_var_def env_ok_def end_env_list_lookup split: option.split)
qed

lemma build_effective: "env_ok env \<Longrightarrow> env_lookup (build environ env) n = effective environ env n"
  by (auto simp: build_def build_excluding_lookup effective_def split: option.split)



section \<open>Changing an environment\<close>

text \<open>The contract of a store of variables, relative to a well-formedness condition and to the admissible names.\<close>

locale var_store =
  fixes inv :: "'e \<Rightarrow> bool" and ok :: "string \<Rightarrow> bool"
    and look :: "'e \<Rightarrow> string \<Rightarrow> string option"
    and put :: "string \<Rightarrow> string \<Rightarrow> 'e \<Rightarrow> 'e" and del :: "string \<Rightarrow> 'e \<Rightarrow> 'e"
  assumes put_inv: "inv e \<Longrightarrow> ok n \<Longrightarrow> inv (put n v e)"
    and del_inv: "inv e \<Longrightarrow> inv (del n e)"
    and look_put: "inv e \<Longrightarrow> ok n \<Longrightarrow> look (put n v e) k = (if k = n then Some v else look e k)"
    and look_del: "inv e \<Longrightarrow> look (del n e) k = (if k = n then None else look e k)"
begin

lemma puts:
  "inv e \<Longrightarrow> (\<And>n v. (n, v) \<in> set xs \<Longrightarrow> ok n) \<Longrightarrow>
     inv (fold (\<lambda>(n, v). put n v) xs e) \<and>
     look (fold (\<lambda>(n, v). put n v) xs e) k = (case map_of (rev xs) k of Some v \<Rightarrow> Some v | None \<Rightarrow> look e k)"
proof (induction xs arbitrary: e)
  case (Cons x xs)
  obtain n v where x: "x = (n, v)" by (cases x)
  have ok: "ok n" using Cons.prems(2) x by auto
  have "inv (fold (\<lambda>(n, v). put n v) xs (put n v e)) \<and> look (fold (\<lambda>(n, v). put n v) xs (put n v e)) k =
      (case map_of (rev xs) k of Some v \<Rightarrow> Some v | None \<Rightarrow> look (put n v e) k)"
    by (rule Cons.IH [OF put_inv [OF Cons.prems(1) ok]]) (use Cons.prems(2) in auto)
  then show ?case
    using look_put [OF Cons.prems(1) ok] x by (auto simp: map_add_def split: option.splits)
qed simp

lemma del_put: "inv e \<Longrightarrow> ok n \<Longrightarrow> look (del n (put n v e)) k = (if k = n then None else look e k)"
  by (simp add: look_del look_put put_inv)

end

lemma find_insert_assignment:
  "find (\<lambda>s. env_name s = k) (insert_assignment s xs) = (if k = env_name s then Some s else find (\<lambda>s. env_name s = k) xs)"
proof (cases "\<exists>x\<in>set xs. env_name x = env_name s")
  case True
  have "find (\<lambda>s. env_name s = k) (map (\<lambda>x. if env_name x = env_name s then s else x) xs) =
      (if k = env_name s \<and> (\<exists>x\<in>set xs. env_name x = env_name s) then Some s else find (\<lambda>s. env_name s = k) xs)"
    by (induction xs) auto
  with True show ?thesis by (simp add: insert_assignment_def)
next
  case False
  then have "find (\<lambda>s. env_name s = k) (xs @ [s]) =
      (if k = env_name s then Some s else find (\<lambda>s. env_name s = k) xs)"
    by (induction xs) auto
  with False show ?thesis by (simp add: insert_assignment_def)
qed

lemma find_filter_name:
  "find (\<lambda>s. env_name s = k) (filter (\<lambda>s. env_name s \<noteq> n) xs) = (if k = n then None else find (\<lambda>s. env_name s = k) xs)"
  by (induction xs) auto

lemma env_ok_insert:
  assumes "distinct (map env_name xs)" shows "distinct (map env_name (insert_assignment s xs))"
proof -
  have "map env_name (map (\<lambda>x. if env_name x = env_name s then s else x) xs) = map env_name xs" by simp
  with assms show ?thesis by (auto simp: insert_assignment_def simp del: map_map)
qed

lemma env_ok_set_var: "env_ok env \<Longrightarrow> is_assignment s \<Longrightarrow> env_ok (snd (set_var environ s b env))"
  using env_ok_insert [of "set_vars env" s]
  by (auto simp: env_ok_def set_var_def Let_def insert_assignment_def split: if_splits)

lemma env_ok_undefine: "env_ok env \<Longrightarrow> env_ok (snd (undefine_var environ n b env))"
  by (auto simp: env_ok_def undefine_var_def Let_def distinct_map inj_on_def)

lemma effective_set_var:
  "CHR ''='' \<notin> set n \<Longrightarrow> effective environ (snd (set_var environ' (n @ CHR ''='' # v) b env)) k =
     (if k = n then Some v else effective environ env k)"
  by (auto simp: effective_def set_var_def find_set_var_def Let_def find_insert_assignment)

lemma effective_undefine:
  "effective environ (snd (undefine_var environ' n b env)) k = (if k = n then None else effective environ env k)"
  by (auto simp: effective_def undefine_var_def find_set_var_def Let_def find_filter_name split: option.split)

interpretation vars: var_store env_ok "\<lambda>n. CHR ''='' \<notin> set n" "effective environ"
  "\<lambda>n v e. snd (set_var environ' (n @ CHR ''='' # v) b e)" "\<lambda>n e. snd (undefine_var environ' n b e)"
  by unfold_locales (simp_all add: env_ok_set_var env_ok_undefine effective_set_var effective_undefine)

definition file_name_ok :: "string \<Rightarrow> bool" where
  "file_name_ok n \<longleftrightarrow> n \<noteq> [] \<and> hd n \<noteq> CHR ''#'' \<and> hd n \<noteq> CHR ''!'' \<and>
     list_all (\<lambda>c. c \<noteq> CHR ''='' \<and> \<not> c_isspace c) n"

lemma file_name_ok_name: "file_name_ok n \<Longrightarrow> CHR ''='' \<notin> set n"
  by (auto simp: file_name_ok_def list_all_iff)

lemma read_env_line_assignment:
  assumes "file_name_ok n"
  shows "read_env_line k (n @ CHR ''='' # v) env = Some (snd (set_var [] (n @ CHR ''='' # v) False env), [])"
proof -
  obtain c cs where n: "n = c # cs" using assms by (cases n) (auto simp: file_name_ok_def)
  let ?P = "\<lambda>c. c \<noteq> CHR ''='' \<and> \<not> c_isspace c"
  have cs: "\<forall>x\<in>set cs. ?P x" and c: "?P c" "c \<noteq> CHR ''#''" "c \<noteq> CHR ''!''"
    using assms by (auto simp: n file_name_ok_def list_all_iff)
  have "takeWhile ?P (cs @ CHR ''='' # v) = cs" "dropWhile ?P (cs @ CHR ''='' # v) = CHR ''='' # v"
    using cs by (simp_all add: takeWhile_append2 dropWhile_append2)
  moreover have "\<not> c_isspace (CHR ''='')" by (simp add: c_isspace_def)
  ultimately show ?thesis using c by (simp add: read_env_line_def n Let_def)
qed

lemma read_env_lines_assignments:
  "(\<And>n v. (n, v) \<in> set xs \<Longrightarrow> file_name_ok n) \<Longrightarrow>
     read_env_lines k (map (\<lambda>(n, v). n @ CHR ''='' # v) xs) env =
       Some (fold (\<lambda>(n, v) e. snd (set_var [] (n @ CHR ''='' # v) False e)) xs env, [])"
proof (induction xs arbitrary: k env)
  case (Cons x xs)
  obtain n v where x: "x = (n, v)" by (cases x)
  have "read_env_lines (k + 1) (map (\<lambda>(n, v). n @ CHR ''='' # v) xs) e =
       Some (fold (\<lambda>(n, v) e. snd (set_var [] (n @ CHR ''='' # v) False e)) xs e, [])" for e
    by (rule Cons.IH) (use Cons.prems in auto)
  moreover have "file_name_ok n" using Cons.prems x by auto
  ultimately show ?case by (simp add: x read_env_line_assignment)
qed simp

text \<open>
  C27. Reading a file of assignments has the effect of the assignments: if every line is a name (that
  is not empty, holds no white space and no \<^verbatim>\<open>=\<close>, and does not begin with \<^verbatim>\<open>#\<close> or \<^verbatim>\<open>!\<close>), \<^verbatim>\<open>=\<close> and any
  value, then no warning is given and a process sees, under every name assigned in the file, the
  last value assigned to it, and every other variable as before.
\<close>

theorem read_env_file_assigns:
  assumes "env_ok env" and "\<And>n v. (n, v) \<in> set xs \<Longrightarrow> file_name_ok n"
  shows "\<exists>env'. read_env_lines k (map (\<lambda>(n, v). n @ CHR ''='' # v) xs) env = Some (env', []) \<and>
    env_lookup (build environ env') m =
      (case map_of (rev xs) m of Some v \<Rightarrow> Some v | None \<Rightarrow> env_lookup (build environ env) m)"
proof -
  let ?e = "fold (\<lambda>(n, v) e. snd (set_var [] (n @ CHR ''='' # v) False e)) xs env"
  have "env_ok ?e \<and> effective environ ?e m = (case map_of (rev xs) m of Some v \<Rightarrow> Some v | None \<Rightarrow> effective environ env m)"
    by (rule vars.puts [OF assms(1)]) (use assms(2) file_name_ok_name in blast)
  then have "env_lookup (build environ ?e) m =
      (case map_of (rev xs) m of Some v \<Rightarrow> Some v | None \<Rightarrow> env_lookup (build environ env) m)"
    using assms(1) by (simp add: build_effective split: option.split)
  moreover have "read_env_lines k (map (\<lambda>(n, v). n @ CHR ''='' # v) xs) env = Some (?e, [])"
    by (rule read_env_lines_assignments) (rule assms(2))
  ultimately show ?thesis by blast
qed

theorem read_env_file_assigns_witness:
  "\<exists>env'. read_env_lines 1 [''A=1'', ''B=x y'', ''A=2''] new_environment = Some (env', []) \<and>
          env_lookup (build [''HOME=/root''] env') ''A'' = Some ''2''"
proof -
  let ?xs = "[(''A'', ''1''), (''B'', ''x y''), (''A'', ''2'')]"
  have e: "env_ok new_environment" by (simp add: env_ok_def new_environment_def)
  have n: "file_name_ok n" if "(n, v) \<in> set ?xs" for n v
    using that by (auto simp: file_name_ok_def c_isspace_def)
  show ?thesis using read_env_file_assigns [of new_environment ?xs 1 "[''HOME=/root'']" "''A''", OF e n] by simp
qed

section \<open>Where the views disagree\<close>

text \<open>
  A variable that was removed (\<^verbatim>\<open>undefine_var\<close>) is still reported by \<^verbatim>\<open>get\<close> if the process
  environment has it, although no process started with the environment sees it: \<^verbatim>\<open>get\<close> does not
  consult the set of removed variables.
\<close>

theorem get_ignores_undefine:
  fixes environ env n notify
  assumes "env_ok env" "keep_parent_env env" and "getenv environ n = Some v"
  defines "env' \<equiv> snd (undefine_var environ n notify env)"
  shows "env_lookup (build environ env') n = None \<and> env_get environ env' n = n @ CHR ''='' # v"
proof -
  have "env_ok env'" using assms(1) by (simp add: env'_def env_ok_undefine)
  then show ?thesis
    using assms(2,3) by (simp add: env'_def build_effective effective_undefine)
      (simp add: env_get_def undefine_var_def find_set_var_def find_filter_name Let_def)
qed

theorem get_ignores_undefine_witness:
  "env_get [''LANG=C''] (snd (undefine_var [''LANG=C''] ''LANG'' False new_environment)) ''LANG'' = ''LANG=C''"
proof -
  have "env_ok new_environment" "keep_parent_env new_environment" "getenv [''LANG=C''] ''LANG'' = Some ''C''"
    by (simp_all add: env_ok_def new_environment_def getenv_def env_name_def env_value_def is_assignment_def)
  from get_ignores_undefine [OF this, where notify = False] show ?thesis by simp
qed

text \<open>
  A child environment cannot remove what its parent imports by name: if the parent does not keep
  the process environment but imports the variable, the variable reaches the process although the
  child has removed it (the set of excluded names is not consulted for imported variables).
\<close>

theorem child_cannot_remove_import:
  assumes "env_ok parent" "\<not> keep_parent_env parent" "n \<in> set (import_from_parent parent)" "find_set_var parent n = None"
    and "env_ok env" "keep_parent_env env" "n \<in> set (undefine env)" "find_set_var env n = None"
  shows "env_lookup (build_child environ parent env) n = getenv environ n"
proof -
  let ?m = "build_excluding environ (undefine env) parent"
  let ?c = "?m\<lparr>env_list := butlast (env_list ?m)\<rparr>"
  define base where "base = fold (\<lambda>s m. if env_name s \<notin> set (undefine env) then push_own s m else m) (set_vars parent)
      (import_named (getenv_pair environ) (import_from_parent parent) empty_env_map)"
  have "map_ok (import_named (getenv_pair environ) (import_from_parent parent) empty_env_map)"
    using assms(1) by (intro import_named_lookup [THEN conjunct1]) (auto simp: env_ok_def getenv_pair)
  then have base: "map_ok base"
    using assms(1) unfolding base_def by (intro own_vars_lookup [THEN conjunct1]) (auto simp: env_ok_def)
  have m: "?m = end_env_list base" using assms(2) by (simp add: build_excluding_def base_def Let_def)
  then have c: "?c = base" by (simp add: end_env_list_def)
  have "env_lookup base n = getenv environ n"
    using assms(1-4,7) build_excluding_lookup [OF assms(1), of environ "undefine env" n] end_env_list_lookup [OF base, of n]
    by (simp add: m)
  then show ?thesis
    using own_vars_lookup [OF base, of "set_vars env" "[]" n] assms(5,6,8)
    by (simp add: build_child_def c Let_def env_ok_def find_set_var_def end_env_list_lookup)
qed

theorem child_cannot_remove_import_witness:
  "env_lookup (build_child [''LANG=C''] \<lparr>keep_parent_env = False, import_from_parent = [''LANG''], undefine = [], set_vars = []\<rparr>
     (snd (undefine_var [] ''LANG'' False new_environment))) ''LANG'' = Some ''C''"
proof -
  let ?p = "\<lparr>keep_parent_env = False, import_from_parent = [''LANG''], undefine = [], set_vars = []\<rparr>"
  let ?c = "snd (undefine_var [] ''LANG'' False new_environment)"
  have "env_lookup (build_child [''LANG=C''] ?p ?c) ''LANG'' = getenv [''LANG=C''] ''LANG''"
    by (rule child_cannot_remove_import)
      (simp_all add: env_ok_def find_set_var_def undefine_var_def new_environment_def)
  then show ?thesis by (simp add: getenv_def env_name_def env_value_def is_assignment_def)
qed

end
