(* ===== verification/Setting_Text.thy ===== *)
theory Setting_Text
  imports Prelude
begin

text \<open>
  The lexical layer of service descriptions (\<^verbatim>\<open>load-service.h\<close>): skipping white space and comments,
  names, signal names, and setting values with quoting, escapes and part positions. An iterator is
  the text that is left before \<^verbatim>\<open>end\<close>; a computation that would read behind \<^verbatim>\<open>end\<close> is \<open>Overrun\<close>.
\<close>

section \<open>Results\<close>

text \<open>
  \<open>Description_exc ln s\<close> is \<^verbatim>\<open>service_description_exc\<close> with the line number and the description;
  \<open>Setting_exc n s\<close> the form that names the setting instead, and \<open>Setting_pos_exc\<close> the form with both.
  \<open>Fuel_spent\<close> is no exception of the program: it marks a computation of the model that needs more fuel.
\<close>

datatype load_exc =
    Description_exc nat string | Setting_exc string string | Setting_pos_exc string nat string
  | Load_exc string | Length_error | System_error
  | Service_not_found string | Cyclic_dependency string | Load_error string nat | Bad_alloc | Fuel_spent

datatype 'a outcome = Overrun | Throws load_exc | Done 'a

primrec bind_outcome :: "'a outcome \<Rightarrow> ('a \<Rightarrow> 'b outcome) \<Rightarrow> 'b outcome" where
  "bind_outcome Overrun f = Overrun"
| "bind_outcome (Throws e) f = Throws e"
| "bind_outcome (Done x) f = f x"

lemma bind_outcome_Done_iff: "bind_outcome m f = Done y \<longleftrightarrow> (\<exists>x. m = Done x \<and> f x = Done y)"
  by (cases m) simp_all

lemma bind_outcome_Overrun_iff: "bind_outcome m f = Overrun \<longleftrightarrow> m = Overrun \<or> (\<exists>x. m = Done x \<and> f x = Overrun)"
  by (cases m) simp_all

lemma bind_outcome_assoc: "bind_outcome (bind_outcome m f) g = bind_outcome m (\<lambda>x. bind_outcome (f x) g)"
  by (cases m) simp_all

section \<open>White space, comments and names\<close>

datatype setting_op_t = ASSIGN | COLON | PLUSASSIGN

fun skip_comment_from :: "bool \<Rightarrow> nat \<Rightarrow> string \<Rightarrow> nat \<times> string" where
  "skip_comment_from comment count [] = (count, [])"
| "skip_comment_from comment count (c # cs) =
     (let (comment, count) = (if c = CHR ''#'' then (True, count)
                              else if c = CHR 0x0A then (False, Suc count) else (comment, count))
      in if \<not> comment \<and> \<not> c_isspace c then (count, c # cs) else skip_comment_from comment count cs)"

definition skip_comment :: "nat \<Rightarrow> string \<Rightarrow> nat \<times> string" where
  "skip_comment count s = skip_comment_from False count s"

definition skip_ws :: "string \<Rightarrow> string" where
  "skip_ws s = dropWhile c_isspace s"

fun skip_ws_ln :: "nat \<Rightarrow> string \<Rightarrow> nat \<times> string" where
  "skip_ws_ln count [] = (count, [])"
| "skip_ws_ln count (c # cs) =
     (let count = (if c = CHR 0x0A then Suc count else count)
      in if \<not> c_isspace c then (count, c # cs) else skip_ws_ln count cs)"

text \<open>\<^verbatim>\<open>find_ws\<close>: the text before the first white space, and the text from there on.\<close>

definition find_ws :: "string \<Rightarrow> string \<times> string" where
  "find_ws s = (takeWhile (\<lambda>c. \<not> c_isspace c) s, dropWhile (\<lambda>c. \<not> c_isspace c) s)"

definition signal_to_int_map :: "(string \<times> int) list" where
  "signal_to_int_map =
     [(''none'', 0), (''NONE'', 0), (''HUP'', 1), (''INT'', 2), (''QUIT'', 3), (''KILL'', 9), (''USR1'', 10),
      (''USR2'', 12), (''TERM'', 15), (''CONT'', 18), (''STOP'', 19)]"

definition signal_name_to_number :: "string \<Rightarrow> int" where
  "signal_name_to_number signame = (case map_of signal_to_int_map signame of Some n \<Rightarrow> n | None \<Rightarrow> -1)"

text \<open>The classes of the classic locale that \<^verbatim>\<open>read_config_name\<close> asks for.\<close>

definition is_digit :: "char \<Rightarrow> bool" where
  "is_digit c \<longleftrightarrow> 48 \<le> char_code c \<and> char_code c \<le> 57"

definition is_cntrl :: "char \<Rightarrow> bool" where
  "is_cntrl c \<longleftrightarrow> char_code c < 32 \<or> char_code c = 127"

definition is_alpha :: "char \<Rightarrow> bool" where
  "is_alpha c \<longleftrightarrow> (65 \<le> char_code c \<and> char_code c \<le> 90) \<or> (97 \<le> char_code c \<and> char_code c \<le> 122)"

definition is_punct :: "char \<Rightarrow> bool" where
  "is_punct c \<longleftrightarrow> 33 \<le> char_code c \<and> char_code c \<le> 126 \<and> \<not> is_digit c \<and> \<not> is_alpha c"

definition name_char :: "bool \<Rightarrow> char \<Rightarrow> bool" where
  "name_char env c \<longleftrightarrow>
     ((c = CHR ''-'' \<or> c = CHR ''.'') \<and> \<not> env) \<or> c = CHR ''_'' \<or>
     (\<not> is_cntrl c \<and> \<not> is_punct c \<and> \<not> c_isspace c)"

text \<open>
  \<^verbatim>\<open>read_config_name\<close>: the name, whether it is numeric, and the rest. A numeric name is not bounded by
  \<^verbatim>\<open>end\<close> in the code, only by the first character that is not a digit; \<open>s\<close> is therefore the text up
  to the end of the string and \<open>k\<close> the number of characters before \<^verbatim>\<open>end\<close>.
\<close>

definition read_config_name :: "bool \<Rightarrow> nat \<Rightarrow> string \<Rightarrow> string \<times> bool \<times> string" where
  "read_config_name env k s =
     (if env \<and> s \<noteq> [] \<and> is_digit (hd s) then (takeWhile is_digit s, True, dropWhile is_digit s)
      else if k = 0 \<or> s = [] \<or> hd s = CHR ''-'' \<or> hd s = CHR ''.'' \<or> is_digit (hd s) then ([], False, s)
      else (let name = takeWhile (name_char env) (take k s) in (name, False, drop (length name) s)))"

section \<open>Setting values\<close>

text \<open>Inside quotation marks: the value so far and the text behind the closing mark.\<close>

fun read_quoted :: "nat \<Rightarrow> string \<Rightarrow> string \<Rightarrow> (string \<times> string) outcome" where
  "read_quoted ln val [] = Throws (Description_exc ln ''unterminated quoted string'')"
| "read_quoted ln val (c # cs) =
     (if c = CHR 0x22 then Done (val, cs)
      else if c = CHR 0x5C then (case cs of [] \<Rightarrow> Overrun | e # cs' \<Rightarrow> read_quoted ln (val @ [e]) cs')
      else read_quoted ln (val @ [c]) cs)"

lemma read_quoted_shorter: "read_quoted ln val cs = Done (val', rest) \<Longrightarrow> length rest \<le> length cs"
  by (induction ln val cs rule: read_quoted.induct) (auto split: if_splits list.splits)

lemma skip_comment_from_le: "skip_comment_from b n cs = (m, rest) \<Longrightarrow> length rest \<le> length cs"
  by (induction cs arbitrary: b n) (fastforce simp: Let_def split: if_splits prod.splits)+

lemma skip_comment_shorter:
  assumes "skip_comment ln (c # cs) = (ln', rest)" "c_isspace c"
  shows "length rest \<le> length cs"
proof -
  have "c \<noteq> CHR ''#''" using assms(2) by (auto simp: c_isspace_def)
  with assms have "skip_comment_from False (if c = CHR 0x0A then Suc ln else ln) cs = (ln', rest)"
    by (simp add: skip_comment_def split: if_splits)
  then show ?thesis by (rule skip_comment_from_le)
qed

text \<open>
  The loop of \<^verbatim>\<open>read_setting_value\<close>. The value and the part positions (if \<open>want\<close>ed) are accumulated;
  \<open>part\<close> is the start of the current part, if there is one.
\<close>

function read_parts ::
  "bool \<Rightarrow> nat \<Rightarrow> nat option \<Rightarrow> string \<Rightarrow> (nat \<times> nat) list \<Rightarrow> string \<Rightarrow> (string \<times> (nat \<times> nat) list) outcome" where
  "read_parts want ln part val parts [] =
     Done (val, (case part of Some b \<Rightarrow> if want then parts @ [(b, length val)] else parts | None \<Rightarrow> parts))"
| "read_parts want ln part val parts (c # cs) =
     (let part' = Some (case part of Some b \<Rightarrow> b | None \<Rightarrow> length val)
      in if c = CHR 0x22 then
           (case read_quoted ln val cs of
              Overrun \<Rightarrow> Overrun
            | Throws e \<Rightarrow> Throws e
            | Done (val, rest) \<Rightarrow> read_parts want ln part' val parts rest)
         else if c = CHR 0x5C then
           (case cs of [] \<Rightarrow> Overrun | e # rest \<Rightarrow> read_parts want ln part' (val @ [e]) parts rest)
         else if c_isspace c then
           (let (part, parts) = (case part of Some b \<Rightarrow> if want then (None, parts @ [(b, length val)]) else (part, parts)
                                 | None \<Rightarrow> (None, parts))
            in case skip_comment ln (c # cs) of
                 (ln, rest) \<Rightarrow>
                   if rest = [] then
                     Done (val, (case part of Some b \<Rightarrow> if want then parts @ [(b, length val)] else parts | None \<Rightarrow> parts))
                   else read_parts want ln part (val @ '' '') parts rest)
         else if c = CHR ''#'' then
           Throws (Description_exc ln ''hashmark (`#') comment must be separated from setting value by whitespace'')
         else read_parts want ln part' (val @ [c]) parts cs)"
  by pat_completeness auto
termination
  by (relation "measure (\<lambda>(_, _, _, _, _, s). length s)")
    (auto dest!: read_quoted_shorter skip_comment_shorter [OF sym] simp: le_imp_less_Suc)

definition read_setting_value ::
  "setting_op_t \<Rightarrow> bool \<Rightarrow> char \<Rightarrow> nat \<Rightarrow> string \<Rightarrow> (nat \<times> nat) list \<Rightarrow> string \<Rightarrow> (string \<times> (nat \<times> nat) list) outcome" where
  "read_setting_value operation want delimiter ln val parts s =
     (let (ln, s) = skip_ws_ln ln s;
          (val, parts) = (if operation = PLUSASSIGN then ((if val \<noteq> [] then val @ [delimiter] else val), parts)
                          else ([], if want then [] else parts))
      in read_parts want ln None val parts s)"


section \<open>Quoting\<close>

text \<open>The text between two offsets, and the parts of a value.\<close>

definition slice :: "string \<Rightarrow> nat \<times> nat \<Rightarrow> string" where
  "slice s p = take (snd p - fst p) (drop (fst p) s)"

definition parts_in :: "string \<Rightarrow> (nat \<times> nat) list \<Rightarrow> bool" where
  "parts_in s ps \<longleftrightarrow> list_all (\<lambda>(a, b). a \<le> b \<and> b \<le> length s) ps"

text \<open>Writing a part so that it is read back as it is: in quotation marks, with marks and backslashes escaped.\<close>

fun escape :: "string \<Rightarrow> string" where
  "escape [] = []"
| "escape (c # cs) = (if c = CHR 0x22 \<or> c = CHR 0x5C then [CHR 0x5C, c] else [c]) @ escape cs"

definition quote :: "string \<Rightarrow> string" where
  "quote s = CHR 0x22 # escape s @ [CHR 0x22]"

fun quote_parts :: "string list \<Rightarrow> string" where
  "quote_parts [] = []"
| "quote_parts [p] = quote p"
| "quote_parts (p # ps) = quote p @ '' '' @ quote_parts ps"

lemma read_quoted_escape: "read_quoted ln val (escape s @ CHR 0x22 # rest) = Done (val @ s, rest)"
  by (induction s arbitrary: val) auto

lemma slice_append: "a \<le> b \<Longrightarrow> b \<le> length s \<Longrightarrow> slice (s @ t) (a, b) = slice s (a, b)"
  by (simp add: slice_def)

lemma slice_end: "slice (s @ t) (length s, length s + length t) = t"
  by (simp add: slice_def)

lemma map_slice_append: "parts_in s ps \<Longrightarrow> map (slice (s @ t)) ps = map (slice s) ps"
  by (auto simp: parts_in_def list_all_iff slice_append split: prod.splits)

lemma parts_in_append: "parts_in s ps \<Longrightarrow> parts_in (s @ t) ps"
  by (auto simp: parts_in_def list_all_iff)

lemma skip_comment_mark: "skip_comment ln ('' '' @ CHR 0x22 # rest) = (ln, CHR 0x22 # rest)"
  by (simp add: skip_comment_def c_isspace_def)

lemma quote_parts_Cons: "\<exists>rest. quote_parts (p # ps) = CHR 0x22 # rest"
  by (cases ps) (simp_all add: quote_def)

text \<open>The parts are read back, and the new value is the old one with the parts, separated by single blanks.\<close>

fun join_blank :: "string list \<Rightarrow> string" where
  "join_blank [] = []"
| "join_blank [p] = p"
| "join_blank (p # ps) = p @ '' '' @ join_blank ps"

lemma read_parts_blank:
  assumes "c_isspace c" "skip_comment ln (c # cs) = (ln', rest)" "rest \<noteq> []"
  shows "read_parts True ln (Some b) val parts (c # cs) = read_parts True ln' None (val @ '' '') (parts @ [(b, length val)]) rest"
proof -
  have "c \<noteq> CHR 0x22" "c \<noteq> CHR 0x5C" using assms(1) by (auto simp: c_isspace_def)
  with assms show ?thesis by (subst read_parts.simps) simp
qed

fun part_offs :: "nat \<Rightarrow> string list \<Rightarrow> (nat \<times> nat) list" where
  "part_offs n [] = []"
| "part_offs n (p # ps) = (n, n + length p) # part_offs (n + length p + 1) ps"

lemma read_parts_quoted:
  assumes "ps \<noteq> []"
  shows "read_parts True ln None val parts (quote_parts ps) = Done (val @ join_blank ps, parts @ part_offs (length val) ps)"
  using assms
proof (induction ps arbitrary: val parts rule: quote_parts.induct)
  case (2 p)
  show ?case by (simp add: quote_def read_quoted_escape [of ln val p "[]", simplified])
next
  case (3 p q ps)
  let ?rest = "'' '' @ quote_parts (q # ps)"
  obtain r where r: "quote_parts (q # ps) = CHR 0x22 # r" using quote_parts_Cons by blast
  have "read_parts True ln None val parts (quote p @ ?rest) =
      read_parts True ln (Some (length val)) (val @ p) parts ?rest"
    by (simp add: quote_def read_quoted_escape)
  also have "\<dots> = read_parts True ln None (val @ p @ '' '') (parts @ [(length val, length val + length p)]) (quote_parts (q # ps))"
    using read_parts_blank [where c = "CHR '' ''" and cs = "quote_parts (q # ps)" and val = "val @ p"] skip_comment_mark [of ln r]
    by (simp add: r c_isspace_def del: quote_parts.simps read_parts.simps)
  also have "\<dots> = Done ((val @ p @ '' '') @ join_blank (q # ps),
      (parts @ [(length val, length val + length p)]) @ part_offs (length (val @ p @ '' '')) (q # ps))"
    by (rule 3(1)) simp
  finally show ?case by simp
qed simp

lemma part_offs_slices:
  "ps \<noteq> [] \<Longrightarrow> parts_in (val @ join_blank ps) (part_offs (length val) ps) \<and> map (slice (val @ join_blank ps)) (part_offs (length val) ps) = ps"
proof (induction ps arbitrary: val rule: join_blank.induct)
  case (2 p)
  show ?case by (simp add: parts_in_def slice_end)
next
  case (3 p q ps)
  then show ?case using 3(1) [of "val @ p @ '' ''"] by (simp add: parts_in_def slice_def)
qed simp

lemma quote_parts_skip: "ps \<noteq> [] \<Longrightarrow> skip_ws_ln ln (quote_parts ps) = (ln, quote_parts ps)"
proof (cases ps)
  case (Cons p ps)
  obtain r where "quote_parts (p # ps) = CHR 0x22 # r" using quote_parts_Cons by blast
  then show ?thesis by (simp add: Cons c_isspace_def)
qed simp

lemma read_quoted_longer: "read_quoted ln val cs = Done (val', rest) \<Longrightarrow> \<exists>w. val' = val @ w"
  by (induction ln val cs rule: read_quoted.induct) (auto split: if_splits list.splits)

lemma parts_in_snoc: "parts_in val parts \<Longrightarrow> a \<le> length val \<Longrightarrow> parts_in val (parts @ [(a, length val)])"
  by (simp add: parts_in_def)

lemma read_parts_in:
  assumes "read_parts want ln part val parts s = Done (val', parts')" "parts_in val parts" "\<forall>a. part = Some a \<longrightarrow> a \<le> length val"
  shows "parts_in val' parts'"
  using assms
proof (induction "length s" arbitrary: ln part val parts s rule: less_induct)
  case less
  show ?case
  proof (cases s)
    case Nil
    with less.prems show ?thesis by (auto simp: parts_in_snoc split: option.splits if_splits)
  next
    case (Cons c cs)
    let ?part = "Some (case part of Some b \<Rightarrow> b | None \<Rightarrow> length val)"
    have pl: "(case part of Some b \<Rightarrow> b | None \<Rightarrow> length val) \<le> length val" using less.prems(3) by (auto split: option.splits)
    have go: ?thesis if "read_parts want ln' ?part (val @ w) parts r = Done (val', parts')" "length r < length s" for ln' w r
      using less.hyps [OF that(2,1)] less.prems(2) pl by (simp add: parts_in_append)
    consider (q) "c = CHR 0x22" | (e) "c = CHR 0x5C" | (w) "c_isspace c" | (h) "c = CHR ''#''"
      | (pl) "c \<noteq> CHR 0x22" "c \<noteq> CHR 0x5C" "\<not> c_isspace c" "c \<noteq> CHR ''#''" by blast
    then show ?thesis
    proof cases
      case q
      then obtain v r where r: "read_quoted ln val cs = Done (v, r)" "read_parts want ln ?part v parts r = Done (val', parts')"
        using less.prems(1) Cons by (auto split: outcome.splits)
      then show ?thesis using read_quoted_longer [OF r(1)] read_quoted_shorter [OF r(1)] go Cons by auto
    next
      case e
      then obtain x r where "cs = x # r" "read_parts want ln ?part (val @ [x]) parts r = Done (val', parts')"
        using less.prems(1) Cons by (auto split: list.splits)
      then show ?thesis using go Cons by auto
    next
      case w
      then have nc: "c \<noteq> CHR 0x22" "c \<noteq> CHR 0x5C" by (auto simp: c_isspace_def)
      define part2 parts2 where "part2 = (case part of Some b \<Rightarrow> if want then None else part | None \<Rightarrow> None)"
        and "parts2 = (case part of Some b \<Rightarrow> if want then parts @ [(b, length val)] else parts | None \<Rightarrow> parts)"
      have eq: "(case part of Some b \<Rightarrow> if want then (None, parts @ [(b, length val)]) else (part, parts) | None \<Rightarrow> (None, parts)) = (part2, parts2)"
        by (auto simp: part2_def parts2_def split: option.splits)
      have p2: "parts_in val parts2" "\<forall>a. part2 = Some a \<longrightarrow> a \<le> length val"
        using less.prems(2,3) by (auto simp: part2_def parts2_def parts_in_snoc split: option.splits)
      obtain ln2 r where sk: "skip_comment ln (c # cs) = (ln2, r)" by (cases "skip_comment ln (c # cs)")
      show ?thesis
      proof (cases "r = []")
        case True
        then have "val' = val" "parts' = (case part2 of Some b \<Rightarrow> if want then parts2 @ [(b, length val)] else parts2 | None \<Rightarrow> parts2)"
          using less.prems(1) Cons w nc sk eq by auto
        with p2 show ?thesis by (auto simp: parts_in_snoc split: option.splits)
      next
        case False
        then have "read_parts want ln2 part2 (val @ '' '') parts2 r = Done (val', parts')"
          using less.prems(1) Cons w nc sk eq by simp
        moreover have "length r < length s" using skip_comment_shorter [OF sk w] Cons by simp
        ultimately show ?thesis using less.hyps p2 by (fastforce intro: parts_in_append)
      qed
    next
      case h
      then show ?thesis using less.prems(1) Cons by (auto simp: c_isspace_def)
    next
      case pl
      then have "read_parts want ln ?part (val @ [c]) parts cs = Done (val', parts')" using less.prems(1) Cons by simp
      then show ?thesis using go Cons by simp
    qed
  qed
qed

lemma read_setting_value_in:
  assumes "read_setting_value operation True delim ln val parts s = Done (val', parts')" "parts_in val parts"
  shows "parts_in val' parts'"
proof -
  obtain ln' s' where s: "skip_ws_ln ln s = (ln', s')" by (cases "skip_ws_ln ln s")
  show ?thesis
    using assms s parts_in_append [OF assms(2), of "[delim]"]
    by (auto simp: read_setting_value_def parts_in_def [of "[]" "[]"] dest!: read_parts_in split: if_splits)
qed



end
