(* ===== verification/Setting_Params.thy ===== *)
theory Setting_Params
  imports Setting_Text Numbers
begin

text \<open>
  The parameters of settings (\<^verbatim>\<open>load-service.h\<close>): user and group ids, permissions, times, numbers and
  resource limits. The user and group databases are parameters.
\<close>

section \<open>User and group ids\<close>

datatype 'a db_reply = Db_missing | Db_error string | Db_entry 'a

record passwd =
  pw_name :: string
  pw_uid :: nat
  pw_gid :: nat
  pw_dir :: string
  pw_shell :: string

record user_db =
  getpwnam :: "string \<Rightarrow> passwd db_reply"
  getpwuid :: "nat \<Rightarrow> passwd db_reply"
  getgrnam :: "string \<Rightarrow> nat db_reply"

definition id_max :: int where "id_max = 2 ^ 32 - 1"

text \<open>The invalid id, \<^verbatim>\<open>(uid_t)-1\<close>.\<close>

definition no_id :: nat where "no_id = 4294967295"

definition uid_err_msg :: string where
  "uid_err_msg = ''specified user id contains invalid numeric characters or is outside allowed range.''"

definition gid_err_msg :: string where
  "gid_err_msg = ''specified group id contains invalid numeric characters or is outside allowed range.''"

text \<open>The user id, and the primary group if the user was given by name.\<close>

definition parse_uid_param :: "user_db \<Rightarrow> nat \<Rightarrow> string \<Rightarrow> string \<Rightarrow> (nat \<times> nat option) outcome" where
  "parse_uid_param db ln param setting_name =
     (case stoull 0 param of
        Number v rest \<Rightarrow>
          if v > id_max \<or> rest \<noteq> [] then Throws (Description_exc ln (setting_name @ '': '' @ uid_err_msg))
          else Done (nat v, None)
      | Out_of_range \<Rightarrow> Throws (Description_exc ln uid_err_msg)
      | Invalid_argument \<Rightarrow>
          (case getpwnam db param of
             Db_missing \<Rightarrow>
               Throws (Description_exc ln (setting_name @ '': specified user '' @ [CHR 0x22] @ param @ [CHR 0x22] @
                 '' does not exist in system database.''))
           | Db_error e \<Rightarrow> Throws (Description_exc ln (''error accessing user database: '' @ e))
           | Db_entry p \<Rightarrow> Done (pw_uid p, Some (pw_gid p))))"

definition parse_gid_param :: "user_db \<Rightarrow> nat \<Rightarrow> string \<Rightarrow> string \<Rightarrow> nat outcome" where
  "parse_gid_param db ln param setting_name =
     (case stoull 0 param of
        Number v rest \<Rightarrow>
          if v > id_max \<or> rest \<noteq> [] then Throws (Description_exc ln (setting_name @ '': '' @ gid_err_msg))
          else Done (nat v)
      | Out_of_range \<Rightarrow> Throws (Description_exc ln (setting_name @ '': '' @ gid_err_msg))
      | Invalid_argument \<Rightarrow>
          (case getgrnam db param of
             Db_missing \<Rightarrow>
               Throws (Description_exc ln (setting_name @ '': specified group '' @ [CHR 0x22] @ param @ [CHR 0x22] @
                 '' does not exist in system database.''))
           | Db_error e \<Rightarrow> Throws (Description_exc ln (''error accessing group database: '' @ e))
           | Db_entry g \<Rightarrow> Done g))"

section \<open>Numbers\<close>

text \<open>
  \<^verbatim>\<open>parse_perms\<close>. The exception is constructed with the parameter name in the place of the
  description, and the description in the place of the setting name.
\<close>

definition parse_perms :: "nat \<Rightarrow> string \<Rightarrow> string \<Rightarrow> int outcome" where
  "parse_perms ln paramval paramname =
     (case stoi 8 paramval of
        Number v rest \<Rightarrow>
          if rest \<noteq> [] then Throws (Setting_pos_exc ''badly-formed or out-of-range numeric value'' ln paramname) else Done v
      | _ \<Rightarrow> Throws (Setting_pos_exc ''badly-formed or out-of-range numeric value'' ln paramname))"

definition num_err_msg :: string where
  "num_err_msg = ''specified value contains invalid numeric characters or is outside allowed range.''"

definition parse_unum_param :: "nat \<Rightarrow> string \<Rightarrow> int \<Rightarrow> int outcome" where
  "parse_unum_param ln param max_v =
     (case stoull 0 param of
        Number v rest \<Rightarrow>
          if v > max_v \<or> rest \<noteq> [] then Throws (Description_exc ln num_err_msg) else Done v
      | _ \<Rightarrow> Throws (Description_exc ln num_err_msg))"

definition parse_snum_param :: "nat \<Rightarrow> string \<Rightarrow> int \<Rightarrow> int \<Rightarrow> int outcome" where
  "parse_snum_param ln param min_v max_v =
     (case stoll 0 param of
        Number v rest \<Rightarrow>
          if v < min_v \<or> v > max_v \<or> rest \<noteq> [] then Throws (Description_exc ln num_err_msg) else Done v
      | _ \<Rightarrow> Throws (Description_exc ln num_err_msg))"

section \<open>Times\<close>

text \<open>\<^verbatim>\<open>parse_timespec\<close>: seconds, then (behind a point or a comma) the fraction in nanoseconds.\<close>

definition max_secs :: nat where "max_secs = (2 ^ 63 - 1) div 10"

fun parse_secs :: "nat \<Rightarrow> string \<Rightarrow> nat \<Rightarrow> string \<Rightarrow> (nat \<times> string) outcome" where
  "parse_secs ln paramname isec [] = Done (isec, [])"
| "parse_secs ln paramname isec (ch # cs) =
     (if ch = CHR ''.'' \<or> ch = CHR '','' then Done (isec, cs)
      else if \<not> is_digit ch then Throws (Description_exc ln (''bad value for '' @ paramname))
      else if isec \<ge> max_secs then Throws (Description_exc ln (''too-large value for '' @ paramname))
      else parse_secs ln paramname (isec * 10 + (char_code ch - 48)) cs)"

fun parse_nanos :: "nat \<Rightarrow> string \<Rightarrow> nat \<Rightarrow> nat \<Rightarrow> string \<Rightarrow> nat outcome" where
  "parse_nanos ln paramname insec insec_m [] = Done insec"
| "parse_nanos ln paramname insec insec_m (ch # cs) =
     (if \<not> is_digit ch then Throws (Description_exc ln (''bad value for '' @ paramname))
      else parse_nanos ln paramname (insec + (char_code ch - 48) * insec_m) (insec_m div 10) cs)"

definition parse_timespec :: "nat \<Rightarrow> string \<Rightarrow> string \<Rightarrow> (nat \<times> nat) outcome" where
  "parse_timespec ln paramval paramname =
     bind_outcome (parse_secs ln paramname 0 paramval) (\<lambda>(isec, rest).
       bind_outcome (parse_nanos ln paramname 0 (10 ^ 8) rest) (\<lambda>insec. Done (isec, insec)))"

section \<open>Resource limits\<close>

record service_rlimits =
  resource_id :: nat
  soft_set :: bool
  hard_set :: bool
  rlim_cur :: int
  rlim_max :: int

definition new_rlimits :: "nat \<Rightarrow> service_rlimits" where
  "new_rlimits r = \<lparr>resource_id = r, soft_set = False, hard_set = False, rlim_cur = 0, rlim_max = 0\<rparr>"

definition RLIM_INFINITY :: int where "RLIM_INFINITY = 2 ^ 64 - 1"

text \<open>The text of a string as \<^verbatim>\<open>c_str\<close> shows it.\<close>

definition c_str :: "string \<Rightarrow> string" where
  "c_str s = takeWhile (\<lambda>c. c \<noteq> CHR 0x00) s"

definition parse_hard_limit :: "nat \<Rightarrow> string \<Rightarrow> service_rlimits \<Rightarrow> string \<Rightarrow> service_rlimits outcome" where
  "parse_hard_limit ln param_name rl s =
     (if s = [] then Done rl
      else if hd s = CHR ''-'' then
        (if tl s \<noteq> [] then Throws (Description_exc ln (param_name @ '': bad value.''))
         else Done (rl\<lparr>hard_set := True, rlim_max := RLIM_INFINITY\<rparr>))
      else
        (case stoull 0 s of
           Invalid_argument \<Rightarrow> Throws (Description_exc ln (param_name @ '': bad value.''))
         | Out_of_range \<Rightarrow> Throws (Description_exc ln (param_name @ '': too-large value.''))
         | Number v _ \<Rightarrow> Done (rl\<lparr>hard_set := True, rlim_max := v\<rparr>)))"

definition behind_soft_limit :: "nat \<Rightarrow> string \<Rightarrow> service_rlimits \<Rightarrow> string \<Rightarrow> service_rlimits outcome" where
  "behind_soft_limit ln param_name rl s =
     (if s = [] then Done (rl\<lparr>hard_set := True, rlim_max := rlim_cur rl\<rparr>)
      else if hd s \<noteq> CHR '':'' then Throws (Description_exc ln (param_name @ '': bad value.''))
      else parse_hard_limit ln param_name rl (tl s))"

definition parse_rlimit :: "nat \<Rightarrow> string \<Rightarrow> string \<Rightarrow> service_rlimits \<Rightarrow> service_rlimits outcome" where
  "parse_rlimit ln line param_name rl =
     (if line = [] then Throws (Description_exc ln (param_name @ '': bad value.''))
      else
        (let cline = c_str line;
             rl = rl\<lparr>hard_set := False, soft_set := False\<rparr>
         in if cline \<noteq> [] \<and> hd cline = CHR '':'' then parse_hard_limit ln param_name rl (tl cline)
            else
              (let rl = rl\<lparr>soft_set := True\<rparr>
               in if cline \<noteq> [] \<and> hd cline = CHR ''-'' then
                    behind_soft_limit ln param_name (rl\<lparr>rlim_cur := RLIM_INFINITY\<rparr>) (tl cline)
                  else
                    (case stoull 0 cline of
                       Invalid_argument \<Rightarrow> Throws (Description_exc ln (param_name @ '': bad value.''))
                     | Out_of_range \<Rightarrow> Throws (Description_exc ln (param_name @ '': too-large value.''))
                     | Number v rest \<Rightarrow> behind_soft_limit ln param_name (rl\<lparr>rlim_cur := v\<rparr>) rest))))"

text \<open>\<^verbatim>\<open>find_rlimits\<close> followed by \<^verbatim>\<open>parse_rlimit\<close> on what it found or created.\<close>

fun update_rlimits :: "(service_rlimits \<Rightarrow> service_rlimits outcome) \<Rightarrow> nat \<Rightarrow> service_rlimits list \<Rightarrow> service_rlimits list outcome" where
  "update_rlimits f r [] = bind_outcome (f (new_rlimits r)) (\<lambda>l. Done [l])"
| "update_rlimits f r (l # ls) =
     (if resource_id l = r then bind_outcome (f l) (\<lambda>l. Done (l # ls))
      else bind_outcome (update_rlimits f r ls) (\<lambda>ls. Done (l # ls)))"

section \<open>Numbers read as they are written\<close>

text \<open>
  Every number within the bounds of a setting is accepted in decimal notation and read exactly.
\<close>

theorem parse_unum_param_decimal:
  assumes "int n \<le> max_v" "max_v < 2 ^ 64"
  shows "parse_unum_param ln (to_dec_digits (int n)) max_v = Done (int n)"
proof (cases "n = 0")
  case True
  then show ?thesis using assms by (simp add: parse_unum_param_def to_dec_digits_def stoull_def scan_zero)
next
  case False
  have "n < 2 ^ 64" using assms by (simp flip: of_nat_less_iff)
  then show ?thesis
    using assms False scan_decimal [of n "[]"] by (simp add: parse_unum_param_def to_dec_digits_def stoull_def)
qed

theorem parse_unum_param_decimal_witness: "parse_unum_param 1 (to_dec_digits 4096) 2147483647 = Done 4096"
  using parse_unum_param_decimal [of 4096 2147483647 1] by simp

section \<open>Times are read exactly\<close>

lemma is_digit_val: "is_digit ch \<Longrightarrow> digit_val ch = Some (char_code ch - 48)"
  by (simp add: is_digit_def digit_val_def)

lemma is_digit_bound: "is_digit ch \<Longrightarrow> char_code ch - 48 \<le> 9"
  by (auto simp: is_digit_def)

lemma parse_secs_Done:
  assumes "parse_secs ln name isec s = Done (r, rest)" "isec < 2 ^ 63"
  shows "\<exists>a. (s = a \<and> rest = [] \<or> (\<exists>p. (p = CHR ''.'' \<or> p = CHR '','') \<and> s = a @ p # rest)) \<and>
    list_all is_digit a \<and> r = foldl (\<lambda>v c. v * 10 + the (digit_val c)) isec a \<and> r < 2 ^ 63"
  using assms
proof (induction ln name isec s rule: parse_secs.induct)
  case (1 ln name isec)
  then show ?case by (intro exI [of _ "[]"]) simp
next
  case (2 ln name isec ch cs)
  show ?case
  proof (cases "ch = CHR ''.'' \<or> ch = CHR '',''")
    case True
    with 2 show ?thesis by (intro exI [of _ "[]"]) auto
  next
    case False
    with 2 have d: "is_digit ch" "isec < max_secs" and rec: "parse_secs ln name (isec * 10 + (char_code ch - 48)) cs = Done (r, rest)"
      by (auto split: if_splits)
    have "isec * 10 + (char_code ch - 48) < 2 ^ 63"
      using d(2) is_digit_bound [OF d(1)] by (simp add: max_secs_def)
    from 2(1) [OF _ _ _ rec this] False d obtain a where
      "(cs = a \<and> rest = [] \<or> (\<exists>p. (p = CHR ''.'' \<or> p = CHR '','') \<and> cs = a @ p # rest)) \<and> list_all is_digit a \<and>
       r = foldl (\<lambda>v c. v * 10 + the (digit_val c)) (isec * 10 + (char_code ch - 48)) a \<and> r < 2 ^ 63"
      by auto
    with d is_digit_val [OF d(1)] show ?thesis by (intro exI [of _ "ch # a"]) auto
  qed
qed

text \<open>The first digits of a fraction, padded with zeros.\<close>

fun first_digits :: "nat \<Rightarrow> string \<Rightarrow> string" where
  "first_digits 0 s = []"
| "first_digits (Suc k) [] = CHR ''0'' # first_digits k []"
| "first_digits (Suc k) (c # cs) = c # first_digits k cs"

fun weigh :: "nat \<Rightarrow> string \<Rightarrow> nat" where
  "weigh m [] = 0"
| "weigh m (c # cs) = (char_code c - 48) * m + weigh (m div 10) cs"

lemma parse_nanos_Done:
  "parse_nanos ln name insec m s = Done r \<Longrightarrow> list_all is_digit s \<and> r = insec + weigh m s"
  by (induction ln name insec m s rule: parse_nanos.induct) (auto split: if_splits)

lemma foldl_digits: "foldl (\<lambda>v c. v * 10 + the (digit_val c)) a ds = a * 10 ^ length ds + digits_value 10 ds"
proof (induction ds arbitrary: a)
  case (Cons c ds)
  show ?case using Cons [of "a * 10 + the (digit_val c)"] Cons [of "the (digit_val c)"]
    by (simp add: digits_value_def algebra_simps)
qed (simp add: digits_value_def)

lemma digits_value_Cons: "digits_value 10 (c # ds) = the (digit_val c) * 10 ^ length ds + digits_value 10 ds"
  using foldl_digits [of "the (digit_val c)" ds] by (simp add: digits_value_def)

lemma length_first_digits [simp]: "length (first_digits k s) = k"
  by (induction k s rule: first_digits.induct) simp_all

lemma weigh_0: "weigh 0 s = 0"
  by (induction s) simp_all

lemma first_digits_Nil: "digits_value 10 (first_digits k []) = 0"
  by (induction k) (simp_all add: digits_value_Cons digit_val_def char_code_def, simp add: digits_value_def)

lemma weigh_value: "list_all is_digit s \<Longrightarrow> weigh (10 ^ k) s = digits_value 10 (first_digits (Suc k) s)"
proof (induction k arbitrary: s)
  case 0
  have "digits_value 10 [] = 0" by (simp add: digits_value_def)
  then show ?case
    using 0 first_digits_Nil [of "Suc 0"] by (cases s) (simp_all add: digits_value_Cons is_digit_val weigh_0)
next
  case (Suc k)
  show ?case
  proof (cases s)
    case Nil
    then show ?thesis using first_digits_Nil [of "Suc (Suc k)"] by simp
  next
    case (Cons c cs)
    then show ?thesis using Suc.IH [of cs] Suc.prems by (simp add: digits_value_Cons is_digit_val)
  qed
qed

lemma digits_bound: "list_all is_digit ds \<Longrightarrow> digits_value 10 ds < 10 ^ length ds"
proof (induction ds)
  case (Cons c ds)
  then have "the (digit_val c) \<le> 9" "digits_value 10 ds < 10 ^ length ds"
    using is_digit_val is_digit_bound by simp_all
  then have "the (digit_val c) * 10 ^ length ds \<le> 9 * 10 ^ length ds" using mult_le_mono1 by blast
  with \<open>digits_value 10 ds < 10 ^ length ds\<close> show ?case
    unfolding digits_value_Cons list.size(4) power_add power_one_right One_nat_def [symmetric] by linarith
qed (simp add: digits_value_def)

lemma first_digits_digits: "list_all is_digit s \<Longrightarrow> list_all is_digit (first_digits k s)"
  by (induction k s rule: first_digits.induct) (auto simp: is_digit_def char_code_def)

lemma parse_timespec_value:
  assumes "parse_timespec ln s name = Done (sec, nsec)"
  shows "\<exists>a b. (s = a \<and> b = [] \<or> s = a @ CHR ''.'' # b \<or> s = a @ CHR '','' # b) \<and>
    list_all is_digit a \<and> list_all is_digit b \<and>
    sec = digits_value 10 a \<and> nsec = digits_value 10 (first_digits 9 b) \<and> sec < 2 ^ 63 \<and> nsec < 10 ^ 9"
proof -
  obtain rest where r: "parse_secs ln name 0 s = Done (sec, rest)" "parse_nanos ln name 0 (10 ^ 8) rest = Done nsec"
    using assms by (auto simp: parse_timespec_def bind_outcome_Done_iff)
  have b: "list_all is_digit rest" "nsec = weigh (10 ^ 8) rest" using parse_nanos_Done [OF r(2)] by auto
  have n: "nsec = digits_value 10 (first_digits 9 rest)" using weigh_value [OF b(1), of 8] b(2) by simp
  moreover have "nsec < 10 ^ 9"
    using digits_bound [OF first_digits_digits [OF b(1), of 9]] by (simp add: n)
  moreover obtain a where
    "s = a \<and> rest = [] \<or> (\<exists>p. (p = CHR ''.'' \<or> p = CHR '','') \<and> s = a @ p # rest)" "list_all is_digit a"
    "sec = digits_value 10 a" "sec < 2 ^ 63"
    using parse_secs_Done [OF r(1)] by (auto simp: digits_value_def)
  ultimately show ?thesis using b(1) by (intro exI [of _ a] exI [of _ rest]) auto
qed

text \<open>
  C31. A time is accepted only as decimal digits, optionally with a point or comma and a fraction; the
  result is the value of the digits in front of it and the first nine digits of the fraction, and
  both fit their fields: no arithmetic overflows, and there are less than a billion nanoseconds.
\<close>

theorem parse_timespec_exact:
  assumes "parse_timespec ln s name = Done (sec, nsec)"
  shows "\<exists>a b. (s = a \<and> b = [] \<or> s = a @ CHR ''.'' # b \<or> s = a @ CHR '','' # b) \<and>
    list_all is_digit a \<and> list_all is_digit b \<and>
    sec = digits_value 10 a \<and> nsec = digits_value 10 (first_digits 9 b) \<and> sec < 2 ^ 63 \<and> nsec < 10 ^ 9"
  using assms by (rule parse_timespec_value)

lemma parse_timespec_sample: "parse_timespec 1 ''1.25'' ''restart-delay'' = Done (1, 250000000)"
  by (simp add: parse_timespec_def is_digit_def char_code_def max_secs_def)

theorem parse_timespec_exact_witness:
  "\<exists>a b. (''1.25'' = a \<and> b = [] \<or> ''1.25'' = a @ CHR ''.'' # b \<or> ''1.25'' = a @ CHR '','' # b) \<and>
    list_all is_digit a \<and> list_all is_digit b \<and> 1 = digits_value 10 a \<and> 250000000 = digits_value 10 (first_digits 9 b)"
  using parse_timespec_exact [OF parse_timespec_sample] by blast

section \<open>Trailing text of a resource limit\<close>

text \<open>
  Behind the hard limit of a resource limit any text is accepted and ignored, provided it does not
  begin with a digit: the limit is as if the text were not there.
\<close>

theorem rlimit_trailing_ignored:
  assumes "0 < soft" "soft < 2 ^ 64" "0 < hard" "hard < 2 ^ 64"
    and "CHR 0x00 \<notin> set junk" "junk = [] \<or> \<not> is_digit_of 10 (hd junk)"
  shows "parse_rlimit ln (to_dec_digits (int soft) @ '':'' @ to_dec_digits (int hard) @ junk) name rl =
    Done (rl\<lparr>soft_set := True, hard_set := True, rlim_cur := int soft, rlim_max := int hard\<rparr>)"
proof -
  let ?s = "rev (rev_digits soft)" and ?h = "rev (rev_digits hard)"
  have plain: "c \<noteq> CHR 0x00" if "c \<in> set (rev_digits n)" for c n
    using rev_digits_all [OF that] digit_char_plain(8) by auto
  have z: "c_str (?s @ '':'' @ ?h @ junk) = ?s @ '':'' @ ?h @ junk"
    unfolding c_str_def using plain assms(5) by (subst takeWhile_eq_all_conv) auto
  obtain d where d: "d < 10" "hd ?s = digit_char d" "?s \<noteq> []" using rev_digits_last [OF assms(1)] by (auto simp: hd_rev)
  obtain e where e: "e < 10" "hd ?h = digit_char e" "?h \<noteq> []" using rev_digits_last [OF assms(3)] by (auto simp: hd_rev)
  have hs: "hd (?s @ t) = digit_char d" and hh: "hd (?h @ t) = digit_char e" for t using d e by simp_all
  have soft: "stoull 0 (?s @ '':'' @ ?h @ junk) = Number (int soft) ('':'' @ ?h @ junk)"
    using scan_decimal [OF assms(1), of "'':'' @ ?h @ junk"] assms(2)
    by (simp add: stoull_def is_digit_of_def digit_val_def char_code_def)
  have hard: "stoull 0 (?h @ junk) = Number (int hard) junk"
    using scan_decimal [OF assms(3,6)] assms(4) by (simp add: stoull_def)
  have "parse_hard_limit ln name rl' (?h @ junk) = Done (rl'\<lparr>hard_set := True, rlim_max := int hard\<rparr>)" for rl'
    using e(3) digit_char_plain(2) [OF e(1)] by (simp add: parse_hard_limit_def hard hh)
  then have "behind_soft_limit ln name rl' ('':'' @ ?h @ junk) = Done (rl'\<lparr>hard_set := True, rlim_max := int hard\<rparr>)" for rl'
    by (simp add: behind_soft_limit_def)
  then show ?thesis
    using assms(1,3) d(3) digit_char_plain(2,7) [OF d(1)] z soft
    by (simp add: parse_rlimit_def to_dec_digits_def Let_def hs)
qed

theorem rlimit_trailing_ignored_witness:
  "parse_rlimit 1 (to_dec_digits 4 @ '':'' @ to_dec_digits 5 @ '' apples'') ''rlimit-core'' (new_rlimits 4) =
     Done \<lparr>resource_id = 4, soft_set = True, hard_set = True, rlim_cur = 4, rlim_max = 5\<rparr>"
  using rlimit_trailing_ignored [of 4 5 "'' apples''" 1 "''rlimit-core''" "new_rlimits 4"]
  by (simp add: new_rlimits_def is_digit_of_def digit_val_def char_code_def)

section \<open>Bounds\<close>

lemma stoull_range: "stoull b s = Number v rest \<Longrightarrow> 0 \<le> v"
  by (auto simp: stoull_def split: option.splits if_splits)

lemma parse_unum_range: "parse_unum_param ln s m = Done n \<Longrightarrow> 0 \<le> n \<and> n \<le> m"
  by (auto simp: parse_unum_param_def dest: stoull_range split: number_result.splits if_splits)

lemma parse_snum_range: "parse_snum_param ln s lo hi = Done n \<Longrightarrow> lo \<le> n \<and> n \<le> hi"
  by (auto simp: parse_snum_param_def split: number_result.splits if_splits)

lemma parse_perms_range: "parse_perms ln s name = Done n \<Longrightarrow> - (2 ^ 31) \<le> n \<and> n < 2 ^ 31"
  by (auto simp: parse_perms_def sto_signed_def Let_def split: number_result.splits option.splits if_splits)

lemma parse_timespec_range: "parse_timespec ln s name = Done ts \<Longrightarrow> fst ts < 2 ^ 63 \<and> snd ts < 10 ^ 9"
  using parse_timespec_value [of ln s name "fst ts" "snd ts"] by auto

lemma parse_rlimit_id: "parse_rlimit ln s name rl = Done rl' \<Longrightarrow> resource_id rl' = resource_id rl"
  by (auto simp: parse_rlimit_def behind_soft_limit_def parse_hard_limit_def Let_def split: if_splits number_result.splits)

lemma update_rlimits_ids:
  assumes "\<And>rl rl'. f rl = Done rl' \<Longrightarrow> resource_id rl' = resource_id rl" "update_rlimits f r ls = Done ls'"
  shows "map resource_id ls' = (if r \<in> set (map resource_id ls) then map resource_id ls else map resource_id ls @ [r])"
  using assms(2)
proof (induction ls arbitrary: ls')
  case Nil
  then show ?case using assms(1) by (auto simp: bind_outcome_Done_iff new_rlimits_def)
next
  case (Cons l ls)
  then show ?case using assms(1) by (cases "resource_id l = r") (auto simp: bind_outcome_Done_iff)
qed

end
