(* ===== verification/Var_Subst.thy ===== *)
theory Var_Subst
  imports Setting_Text
begin

text \<open>
  Variable substitution in setting values (\<^verbatim>\<open>value_var_subst\<close>): the line is rewritten from left to right
  while the offsets of its parts are adjusted, split and dropped along the way. The text that is
  still to be copied is kept as the suffix of the line at \<^verbatim>\<open>xpos\<close>. The main result is that all this
  bookkeeping amounts to expanding each part on its own.
\<close>

section \<open>A variable reference\<close>

definition INT_MAX :: nat where "INT_MAX = 2147483647"

text \<open>The character at a position of a string; at the end there is the terminator.\<close>

definition char_at :: "string \<Rightarrow> nat \<Rightarrow> char" where
  "char_at s n = (if n < length s then s ! n else CHR 0x00)"

record var_env =
  var_resolve :: "string \<Rightarrow> string option"
  argval :: "string option"
  var_setting :: string

definition subst_error :: "var_env \<Rightarrow> string \<Rightarrow> 'a outcome" where
  "subst_error V msg = Throws (Setting_exc (var_setting V) msg)"

text \<open>
  The part in braces behind the name: the mode character (if any), whether a colon precedes it, the
  alternative value, and the text behind the closing brace. \<open>k\<close> characters are left of the token.
\<close>

definition alternative_value :: "nat \<Rightarrow> string \<Rightarrow> char option \<times> string \<times> string" where
  "alternative_value k s =
     (if char_at s 0 = CHR ''+'' \<or> char_at s 0 = CHR ''-'' then
        (let a = takeWhile (\<lambda>c. c \<noteq> CHR ''}'') (take (k - 1) (tl s))
         in (Some (char_at s 0), a, drop (length a) (tl s)))
      else (None, [], s))"

definition read_alternative :: "var_env \<Rightarrow> nat \<Rightarrow> string \<Rightarrow> (char option \<times> bool \<times> string \<times> string) outcome" where
  "read_alternative V k s =
     (let colon = (char_at s 0 = CHR '':'');
          (s, k) = (if colon then (tl s, k - 1) else (s, k))
      in if colon \<and> char_at s 0 \<noteq> CHR ''+'' \<and> char_at s 0 \<noteq> CHR ''-''
         then subst_error V ''invalid syntax in variable substitution''
         else
           (let (mode, alt, s) = alternative_value k s
            in if char_at s 0 \<noteq> CHR ''}'' then subst_error V ''unmatched '{' in variable substitution''
               else Done (mode, colon, alt, tl s)))"

text \<open>The value substituted for a reference; an unset argument without alternative is an error.\<close>

definition resolve_reference :: "var_env \<Rightarrow> string \<Rightarrow> bool \<Rightarrow> char option \<Rightarrow> bool \<Rightarrow> string \<Rightarrow> string outcome" where
  "resolve_reference V name is_arg mode colon alt =
     (let resolved = (if is_arg then argval V else var_resolve V name);
          plain = (case resolved of None \<Rightarrow> [] | Some v \<Rightarrow> v)
      in if mode = Some (CHR ''-'') then
           Done (if resolved = None \<or> (colon \<and> resolved = Some []) then alt else plain)
         else if mode = Some (CHR ''+'') then
           Done (if resolved \<noteq> None \<and> (\<not> colon \<or> resolved \<noteq> Some []) then alt else plain)
         else if is_arg \<and> argval V = None then subst_error V ''missing value in argument substitution''
         else Done plain)"

text \<open>
  A reference, from the name on: whether its value is split into words, the value, and the text
  behind the reference.
\<close>

definition read_named :: "var_env \<Rightarrow> bool \<Rightarrow> bool \<Rightarrow> nat \<Rightarrow> string \<Rightarrow> (bool \<times> string \<times> string) outcome" where
  "read_named V wsplit brace k s =
     (let (name, is_arg, r) = read_config_name True k s
      in if name = [] then subst_error V (''invalid/missing variable name after '$'' @ [CHR 0x27])
         else if is_arg \<and> name \<noteq> ''1'' then subst_error V ''only one service argument may be present''
         else
           bind_outcome (if brace then read_alternative V (k - length name) r else Done (None, False, [], r))
             (\<lambda>(mode, colon, alt, r).
                bind_outcome (resolve_reference V name is_arg mode colon alt) (\<lambda>v. Done (wsplit, v, r))))"

text \<open>A reference, from the character behind the dollar sign on.\<close>

definition read_reference :: "var_env \<Rightarrow> nat \<Rightarrow> string \<Rightarrow> (bool \<times> string \<times> string) outcome" where
  "read_reference V k s =
     (let wsplit = (char_at s 0 = CHR ''/'');
          (s, k) = (if wsplit then (tl s, k - 1) else (s, k));
          brace = (char_at s 0 = CHR ''{'');
          (s, k) = (if brace then (tl s, k - 1) else (s, k))
      in read_named V wsplit brace k s)"

section \<open>Word splitting\<close>

lemma find_ws_skip_shorter: "snd (find_ws v) \<noteq> [] \<Longrightarrow> length (skip_ws (snd (find_ws v))) < length v"
proof -
  assume ne: "snd (find_ws v) \<noteq> []"
  let ?r = "dropWhile (\<lambda>c. \<not> c_isspace c) v"
  have "c_isspace (hd ?r)" using ne hd_dropWhile [of "\<lambda>c. \<not> c_isspace c" v] by (simp add: find_ws_def)
  then have "length (dropWhile c_isspace ?r) < length ?r"
    using ne by (cases ?r) (auto simp: find_ws_def length_dropWhile_le le_imp_less_Suc)
  moreover have "length ?r \<le> length v" by (rule length_dropWhile_le)
  ultimately show ?thesis by (simp add: find_ws_def skip_ws_def)
qed

text \<open>
  The state of the rewriting: the new line, the difference of positions, the offsets that are done,
  the start of the current part, and the two flags about empty parts.
\<close>

record subst_state =
  r_line :: string
  offadj :: int
  done_offs :: "(nat \<times> nat) list"
  part_first :: nat
  inhibit_collapse :: bool
  do_collapse :: bool

function split_words :: "var_env \<Rightarrow> nat \<Rightarrow> string \<Rightarrow> subst_state \<Rightarrow> subst_state outcome" where
  "split_words V len_before v s =
     (let (w, rest) = find_ws v
      in if rest = [] then
           (let s = s\<lparr>r_line := r_line s @ v, do_collapse := \<not> inhibit_collapse s\<rparr>
            in if length (r_line s) > INT_MAX then subst_error V ''value too long (after substitution)''
               else Done (s\<lparr>offadj := offadj s + int (length (r_line s)) - int len_before\<rparr>))
         else
           (let s = s\<lparr>r_line := r_line s @ w\<rparr>
            in if part_first s = length (r_line s) \<and> \<not> inhibit_collapse s
               then split_words V len_before (skip_ws rest) (s\<lparr>inhibit_collapse := False\<rparr>)
               else
                 (let line' = r_line s @ '' ''
                  in if length line' > INT_MAX then subst_error V ''value too long (after substitution)''
                     else
                       split_words V (length line') (skip_ws rest)
                         (s\<lparr>r_line := line', done_offs := done_offs s @ [(part_first s, length (r_line s))],
                            part_first := length line',
                            offadj := offadj s + int (length line') - int len_before,
                            inhibit_collapse := False\<rparr>))))"
  by pat_completeness auto
termination
  by (relation "measure (\<lambda>(_, _, v, _). length v)") (auto dest: find_ws_skip_shorter simp: prod_eq_iff)

declare split_words.simps [simp del]

section \<open>The parts of a line\<close>

text \<open>
  The inner loop, over the dollar signs of the current part, which ends at \<open>second\<close>. Result: the
  position and text from which to go on copying, and the state.
\<close>

lemma read_config_name_rest: "read_config_name e k s = (name, num, r) \<Longrightarrow> r = drop (length name) s \<and> take (length name) s = name"
proof -
  have "takeWhile P (take k s) = take (length (takeWhile P (take k s))) s" for P
    by (metis (no_types) append_take_drop_id takeWhile_dropWhile_id takeWhile_eq_take take_append take_take length_takeWhile_le length_take min.absorb1 min.bounded_iff)
  then show "read_config_name e k s = (name, num, r) \<Longrightarrow> r = drop (length name) s \<and> take (length name) s = name"
    by (auto simp: read_config_name_def Let_def dropWhile_eq_drop takeWhile_eq_take [symmetric] split: if_splits)
qed

lemma read_alternative_shorter:
  "read_alternative V k s = Done (m, c, a, r) \<Longrightarrow> length r \<le> length s"
  by (auto simp: read_alternative_def alternative_value_def subst_error_def Let_def split: if_splits)

lemma read_named_shorter:
  assumes "read_named V w b k s = Done (sp, v, r)"
  shows "length r \<le> length s"
  using assms read_alternative_shorter read_config_name_rest
  by (fastforce simp: read_named_def subst_error_def Let_def bind_outcome_Done_iff split: if_splits prod.splits)

lemma read_reference_shorter:
  assumes "read_reference V k s = Done (sp, v, r)"
  shows "length r \<le> length s"
  using assms by (fastforce simp: read_reference_def Let_def split: if_splits dest: read_named_shorter)

function subst_part ::
  "var_env \<Rightarrow> nat \<Rightarrow> nat \<Rightarrow> string \<Rightarrow> subst_state \<Rightarrow> (nat \<times> string \<times> subst_state) outcome" where
  "subst_part V second xpos text s =
     (let pre = takeWhile (\<lambda>c. c \<noteq> CHR ''$'') text;
          rest = dropWhile (\<lambda>c. c \<noteq> CHR ''$'') text;
          dindx = xpos + length pre
      in if rest = [] \<or> second \<le> dindx then Done (xpos, text, s)
         else
           (let s = s\<lparr>r_line := r_line s @ pre\<rparr>
            in if char_at rest 1 = CHR ''$'' then
                 subst_part V second (dindx + 2) (drop 2 rest) (s\<lparr>r_line := r_line s @ ''$'', offadj := offadj s - 1\<rparr>)
               else
                 (case read_reference V (second - (dindx + 1)) (tl rest) of
                    Overrun \<Rightarrow> Overrun
                  | Throws e \<Rightarrow> Throws e
                  | Done (wsplit, v, r) \<Rightarrow>
                      (let name_len = length rest - length r;
                           s = s\<lparr>offadj := offadj s - int name_len\<rparr>
                       in case (if wsplit then split_words V (length (r_line s)) v s
                                else
                                  (let line' = r_line s @ v
                                   in if length line' > INT_MAX then subst_error V ''value too long (after substitution)''
                                      else Done (s\<lparr>r_line := line', offadj := offadj s + int (length v),
                                                   inhibit_collapse := True, do_collapse := False\<rparr>))) of
                            Overrun \<Rightarrow> Overrun
                          | Throws e \<Rightarrow> Throws e
                          | Done s \<Rightarrow> subst_part V second (dindx + name_len) r s))))"
  by pat_completeness auto
termination
proof (relation "measure (\<lambda>(_, _, _, text, _). length text)", goal_cases)
  case (2 V second xpos tx s pre rest)
  then have "length rest \<le> length tx" "rest \<noteq> []" by (simp_all add: length_dropWhile_le)
  then show ?case by (cases rest) auto
next
  case (3 V second xpos tx s pre rest)
  then have "length rest \<le> length tx" "rest \<noteq> []" by (simp_all add: length_dropWhile_le)
  then have "length (tl rest) < length tx" by (cases rest) auto
  with 3 show ?case by (fastforce dest!: read_reference_shorter)
qed simp

declare subst_part.simps [simp del]

definition adjust :: "int \<Rightarrow> nat \<Rightarrow> nat" where
  "adjust d n = nat (int n + d)"

text \<open>
  The outer loop, over the offsets that are left. Between two parts with references the offsets are
  only adjusted.
\<close>

definition next_dollar :: "nat \<Rightarrow> string \<Rightarrow> nat option" where
  "next_dollar xpos text =
     (let pre = takeWhile (\<lambda>c. c \<noteq> CHR ''$'') text
      in if length pre = length text then None else Some (xpos + length pre))"

definition before_dollar :: "nat \<Rightarrow> nat option \<Rightarrow> bool" where
  "before_dollar n d = (case d of None \<Rightarrow> True | Some k \<Rightarrow> n < k)"

function subst_parts ::
  "var_env \<Rightarrow> (nat \<times> nat) list \<Rightarrow> nat \<Rightarrow> string \<Rightarrow> subst_state \<Rightarrow> (nat \<times> string \<times> subst_state) outcome" where
  "subst_parts V [] xpos text s = Done (xpos, text, s)"
| "subst_parts V ((first, second) # offs) xpos text s =
     (case subst_part V second xpos text
             (s\<lparr>part_first := adjust (offadj s) first, inhibit_collapse := False, do_collapse := False\<rparr>) of
        Overrun \<Rightarrow> Overrun
      | Throws e \<Rightarrow> Throws e
      | Done (xpos, text, s) \<Rightarrow>
          (let second = adjust (offadj s) second;
               done = (if do_collapse s \<and> part_first s = second then [] else [(part_first s, second)]);
               dindx = next_dollar xpos text;
               skipped = takeWhile (\<lambda>(a, b). before_dollar b dindx) offs;
               moved = map (\<lambda>(a, b). (adjust (offadj s) a, adjust (offadj s) b)) skipped
           in subst_parts V (drop (length skipped) offs) xpos text (s\<lparr>done_offs := done_offs s @ done @ moved\<rparr>)))"
  by pat_completeness auto
termination
  by (relation "measure (\<lambda>(_, offs, _, _, _). length offs)") auto

definition start_state :: subst_state where
  "start_state = \<lparr>r_line = [], offadj = 0, done_offs = [], part_first = 0, inhibit_collapse = False, do_collapse = False\<rparr>"

definition value_var_subst :: "var_env \<Rightarrow> string \<Rightarrow> (nat \<times> nat) list \<Rightarrow> (string \<times> (nat \<times> nat) list) outcome" where
  "value_var_subst V line offsets =
     (if CHR ''$'' \<notin> set line then Done (line, offsets)
      else if length line > INT_MAX then Throws Length_error
      else bind_outcome (subst_parts V offsets 0 line start_state) (\<lambda>(xpos, text, s). Done (r_line s @ text, done_offs s)))"

text \<open>\<^verbatim>\<open>read_value_resolved\<close> and \<^verbatim>\<open>read_include_path\<close>.\<close>

definition read_value_resolved :: "var_env \<Rightarrow> nat \<Rightarrow> string \<Rightarrow> string outcome" where
  "read_value_resolved V ln s =
     bind_outcome (read_setting_value ASSIGN False (CHR '' '') ln [] [] s) (\<lambda>(rval, _).
       bind_outcome (value_var_subst V rval [(0, length rval)]) (\<lambda>(v, _). Done v))"

definition read_include_path :: "var_env \<Rightarrow> string \<Rightarrow> nat \<Rightarrow> string \<Rightarrow> string outcome" where
  "read_include_path V meta_cmd ln s =
     bind_outcome (read_setting_value ASSIGN True (CHR '' '') ln [] [] s) (\<lambda>(rval, parts).
       if length parts \<noteq> 1 then Throws (Description_exc ln ([CHR 0x27] @ ''@'' @ meta_cmd @ [CHR 0x27] @ '' requires a single argument''))
       else bind_outcome (value_var_subst (V\<lparr>var_setting := meta_cmd\<rparr>) rval [(0, length rval)]) (\<lambda>(v, _). Done v))"

section \<open>Expanding one part on its own\<close>

text \<open>
  Specification. A part is a sequence of plain text and references. The value of a plain reference
  joins the current word, which then counts even if it is empty; the value of a splitting reference
  is divided at white space. A current word that is empty at the end is dropped if it consists of
  splitting references only.
\<close>

function split_value :: "string \<Rightarrow> string list \<Rightarrow> string \<Rightarrow> bool \<Rightarrow> string list \<times> string \<times> bool" where
  "split_value v ws cur solid =
     (if snd (find_ws v) = [] then (ws, cur @ v, solid)
      else if cur @ fst (find_ws v) = [] \<and> \<not> solid then split_value (skip_ws (snd (find_ws v))) ws [] False
      else split_value (skip_ws (snd (find_ws v))) (ws @ [cur @ fst (find_ws v)]) [] False)"
  by pat_completeness auto
termination
  by (relation "measure (\<lambda>(v, _). length v)") (auto dest: find_ws_skip_shorter)

declare split_value.simps [simp del]

function expand :: "var_env \<Rightarrow> string \<Rightarrow> string list \<Rightarrow> string \<Rightarrow> bool \<Rightarrow> bool \<Rightarrow> string list outcome" where
  "expand V tok ws cur solid vanish =
     (let pre = takeWhile (\<lambda>c. c \<noteq> CHR ''$'') tok;
          rest = dropWhile (\<lambda>c. c \<noteq> CHR ''$'') tok
      in if rest = [] then Done (if vanish \<and> cur @ tok = [] then ws else ws @ [cur @ tok])
         else if char_at rest 1 = CHR ''$'' then expand V (drop 2 rest) ws (cur @ pre @ ''$'') solid vanish
         else
           (case read_reference V (length rest - 1) (tl rest) of
              Overrun \<Rightarrow> Overrun
            | Throws e \<Rightarrow> Throws e
            | Done (wsplit, v, r) \<Rightarrow>
                (if wsplit then
                   (case split_value v ws (cur @ pre) solid of
                      (ws, cur, solid) \<Rightarrow> expand V r ws cur solid (\<not> solid))
                 else expand V r ws (cur @ pre @ v) True False)))"
  by pat_completeness auto
termination
proof (relation "measure (\<lambda>(_, tok, _). length tok)", goal_cases)
  case (2 V tok ws cur solid vanish pre rest)
  then have "length rest \<le> length tok" "rest \<noteq> []" by (simp_all add: length_dropWhile_le)
  then show ?case by (cases rest) auto
next
  case (3 V tok ws cur solid vanish pre rest)
  then have "length rest \<le> length tok" "rest \<noteq> []" by (simp_all add: length_dropWhile_le)
  then have "length (tl rest) < length tok" by (cases rest) auto
  with 3 show ?case by (fastforce dest!: read_reference_shorter)
next
  case (4 V tok ws cur solid vanish pre rest)
  then have "length rest \<le> length tok" "rest \<noteq> []" by (simp_all add: length_dropWhile_le)
  then have "length (tl rest) < length tok" by (cases rest) auto
  with 4 show ?case by (fastforce dest!: read_reference_shorter)
qed simp

declare expand.simps [simp del]

definition expand_part :: "var_env \<Rightarrow> string \<Rightarrow> string list outcome" where
  "expand_part V tok = expand V tok [] [] False False"

fun expand_parts :: "var_env \<Rightarrow> string list \<Rightarrow> string list outcome" where
  "expand_parts V [] = Done []"
| "expand_parts V (tok # toks) =
     bind_outcome (expand_part V tok) (\<lambda>ws. bind_outcome (expand_parts V toks) (\<lambda>vs. Done (ws @ vs)))"

section \<open>A reference does not look behind its part\<close>

definition part_end :: "string \<Rightarrow> bool" where
  "part_end s \<longleftrightarrow> s = [] \<or> hd s = CHR '' ''"

definition extend :: "string \<Rightarrow> ('a \<times> string) outcome \<Rightarrow> ('a \<times> string) outcome" where
  "extend s m = bind_outcome m (\<lambda>(x, r). Done (x, r @ s))"

lemma char_at_part:
  assumes "part_end s" "c \<noteq> CHR 0x00" "c \<noteq> CHR '' ''"
  shows "char_at (t @ s) 0 = c \<longleftrightarrow> char_at t 0 = c"
  using assms by (cases t; cases s) (auto simp: char_at_def part_end_def)

lemma read_config_name_part:
  assumes "part_end s"
  shows "read_config_name True (length t) (t @ s) =
    (case read_config_name True (length t) t of (name, num, r) \<Rightarrow> (name, num, r @ s))"
proof -
  have sp: "\<not> is_digit (CHR '' '')" by (simp add: is_digit_def char_code_def)
  have tw: "takeWhile is_digit (t @ s) = takeWhile is_digit t" "dropWhile is_digit (t @ s) = dropWhile is_digit t @ s"
    using assms sp by (induction t) (cases s; auto simp: part_end_def)+
  show ?thesis
  proof (cases "t = []")
    case True
    then show ?thesis using assms sp by (cases s) (auto simp: read_config_name_def part_end_def)
  next
    case False
    then show ?thesis
      using tw length_takeWhile_le [of "name_char True" t] by (simp add: read_config_name_def Let_def)
  qed
qed

lemma tl_part: "char_at t 0 = c \<Longrightarrow> c \<noteq> CHR 0x00 \<Longrightarrow> tl (t @ s) = tl t @ s \<and> length t - 1 = length (tl t)"
  by (cases t) (auto simp: char_at_def)

lemmas part_simps = char_at_part tl_part [THEN conjunct1] tl_part [THEN conjunct2]

lemma takeWhile_brace:
  "takeWhile P (take (length t) (t @ s)) = takeWhile P t" "drop (length (takeWhile P t)) (t @ s) = drop (length (takeWhile P t)) t @ s"
  using length_takeWhile_le [of P t] by simp_all

lemma alternative_value_part:
  assumes "part_end s"
  shows "alternative_value (length t) (t @ s) = (case alternative_value (length t) t of (m, a, r) \<Rightarrow> (m, a, r @ s))"
proof (cases "char_at t 0 = CHR ''+'' \<or> char_at t 0 = CHR ''-''")
  case True
  then obtain c t' where "t = c # t'" by (cases t) (auto simp: char_at_def)
  with True show ?thesis
    using length_takeWhile_le [of "\<lambda>c. c \<noteq> CHR ''}''" t'] by (auto simp: alternative_value_def char_at_def Let_def)
next
  case False
  then show ?thesis by (simp add: alternative_value_def char_at_part [OF assms])
qed

lemma read_alternative_part:
  assumes "part_end s"
  shows "read_alternative V (length t) (t @ s) =
    bind_outcome (read_alternative V (length t) t) (\<lambda>(m, c, a, r). Done (m, c, a, r @ s))"
proof -
  note at = char_at_part [OF assms]
  have close: "char_at (r @ s) 0 = CHR ''}'' \<Longrightarrow> tl (r @ s) = tl r @ s" for r
    using at [of "CHR ''}''" r] tl_part [of r "CHR ''}''" s] by simp
  show ?thesis
  proof (cases "char_at t 0 = CHR '':''")
    case True
    then obtain t' where t: "t = CHR '':'' # t'" by (cases t) (auto simp: char_at_def)
    obtain m a r where "alternative_value (length t') t' = (m, a, r)" by (cases "alternative_value (length t') t'")
    then show ?thesis
      using at [of "CHR ''+''" t'] at [of "CHR ''-''" t'] at [of "CHR ''}''" r] close [of r] alternative_value_part [OF assms, of t']
      by (simp add: t read_alternative_def subst_error_def Let_def, simp add: char_at_def [of "_ # _"])
  next
    case False
    obtain m a r where "alternative_value (length t) t = (m, a, r)" by (cases "alternative_value (length t) t")
    with False show ?thesis
      using at [of "CHR '':''" t] at [of "CHR ''}''" r] close [of r] alternative_value_part [OF assms, of t]
      by (simp add: read_alternative_def subst_error_def)
  qed
qed

lemma read_named_part:
  assumes "part_end s"
  shows "read_named V w b (length t) (t @ s) =
    bind_outcome (read_named V w b (length t) t) (\<lambda>(w, v, r). Done (w, v, r @ s))"
proof -
  obtain name num r where n: "read_config_name True (length t) t = (name, num, r)"
    by (cases "read_config_name True (length t) t")
  have "r = drop (length name) t" using read_config_name_rest [OF n] by simp
  then have k: "length t - length name = length r" by simp
  note defs = read_named_def n read_config_name_part [OF assms] subst_error_def k read_alternative_part [OF assms] bind_outcome_assoc
  show ?thesis
    by (cases b; cases "read_alternative V (length r) r") (simp_all add: defs split: prod.split)
qed

lemma read_reference_part:
  assumes "part_end s"
  shows "read_reference V (length t) (t @ s) =
    bind_outcome (read_reference V (length t) t) (\<lambda>(w, v, r). Done (w, v, r @ s))"
proof -
  have brace: "(let b = (char_at (u @ s) 0 = CHR ''{''); (x, k) = (if b then (tl (u @ s), length u - 1) else (u @ s, length u)) in read_named V w b k x) =
      bind_outcome (let b = (char_at u 0 = CHR ''{''); (x, k) = (if b then (tl u, length u - 1) else (u, length u)) in read_named V w b k x)
        (\<lambda>(w, v, r). Done (w, v, r @ s))" for u w
    using char_at_part [OF assms, of "CHR ''{''" u] tl_part [of u "CHR ''{''" s] read_named_part [OF assms, of V w True "tl u"]
      read_named_part [OF assms, of V w False u]
    by (cases "char_at u 0 = CHR ''{''") simp_all
  show ?thesis
  proof (cases "char_at t 0 = CHR ''/''")
    case True
    then obtain t' where "t = CHR ''/'' # t'" by (cases t) (auto simp: char_at_def)
    then show ?thesis using brace [of t' True] by (simp add: read_reference_def char_at_def [of "_ # _"])
  next
    case False
    then show ?thesis using char_at_part [OF assms, of "CHR ''/''" t] brace [of t False] by (simp add: read_reference_def)
  qed
qed

section \<open>The rewriting follows the expansion\<close>

text \<open>
  The state \<open>s\<close> of the rewriting, with the text \<open>g\<close> next to be copied, has produced the words \<open>ws\<close> and is
  at the current word \<open>cur\<close>.
\<close>

definition tracks :: "subst_state \<Rightarrow> string \<Rightarrow> string list \<Rightarrow> string \<Rightarrow> bool" where
  "tracks s g ws cur \<longleftrightarrow>
     (\<exists>p. r_line s @ g = p @ cur \<and> part_first s = length p \<and> parts_in p (done_offs s) \<and> map (slice p) (done_offs s) = ws)"

definition too_long :: "var_env \<Rightarrow> 'a outcome" where
  "too_long V = subst_error V ''value too long (after substitution)''"

lemma tracks_append: "tracks s [] ws cur \<Longrightarrow> tracks (s\<lparr>r_line := r_line s @ w\<rparr>) [] ws (cur @ w)"
  by (auto simp: tracks_def)

lemma tracks_extend:
  assumes "tracks s g ws cur"
  shows "tracks s (g @ w) ws (cur @ w)"
proof -
  obtain p where "r_line s @ g = p @ cur" "part_first s = length p" "parts_in p (done_offs s)" "map (slice p) (done_offs s) = ws"
    using assms by (auto simp: tracks_def)
  moreover from this have "r_line s @ g @ w = p @ cur @ w" by (metis append_assoc)
  ultimately show ?thesis unfolding tracks_def by blast
qed

lemma tracks_copy: "tracks s g ws cur \<Longrightarrow> tracks (s\<lparr>r_line := r_line s @ g\<rparr>) [] ws cur"
  by (simp add: tracks_def)

lemma tracks_cur: "tracks s [] ws cur \<Longrightarrow> part_first s = length (r_line s) \<longleftrightarrow> cur = []"
  by (auto simp: tracks_def)

lemma tracks_break:
  assumes "tracks s [] ws cur"
  shows "tracks (s\<lparr>r_line := r_line s @ '' '', done_offs := done_offs s @ [(part_first s, length (r_line s))],
      part_first := length (r_line s @ '' '')\<rparr>) [] (ws @ [cur]) []"
proof -
  obtain p where p: "r_line s = p @ cur" "part_first s = length p" "parts_in p (done_offs s)" "map (slice p) (done_offs s) = ws"
    using assms by (auto simp: tracks_def)
  have "parts_in (p @ cur @ '' '') (done_offs s @ [(length p, length p + length cur)])"
    using parts_in_append [OF p(3), of "cur @ '' ''"] by (simp add: parts_in_def)
  moreover have "slice (p @ cur @ '' '') (length p, length p + length cur) = cur" by (simp add: slice_def)
  ultimately show ?thesis
    using map_slice_append [OF p(3), of "cur @ '' ''"] p by (auto simp: tracks_def)
qed

lemma tracks_cong:
  "r_line s' = r_line s \<Longrightarrow> part_first s' = part_first s \<Longrightarrow> done_offs s' = done_offs s \<Longrightarrow> tracks s' g ws cur = tracks s g ws cur"
  by (simp add: tracks_def)

lemma split_words_tracks:
  assumes "tracks s [] ws cur" "split_value v ws cur (inhibit_collapse s) = (ws', cur', solid')"
  shows "split_words V lb v s = too_long V \<or>
    (\<exists>s'. split_words V lb v s = Done s' \<and> tracks s' [] ws' cur' \<and> inhibit_collapse s' = solid' \<and> do_collapse s' = (\<not> solid') \<and>
       offadj s' = offadj s + int (length (r_line s')) - int lb)"
  using assms
proof (induction V lb v s arbitrary: ws cur rule: split_words.induct)
  case (1 V lb v s)
  obtain w rest where f: "find_ws v = (w, rest)" by (cases "find_ws v")
  let ?s = "s\<lparr>r_line := r_line s @ w\<rparr>"
  have tw: "tracks ?s [] ws (cur @ w)" by (rule tracks_append) (rule 1(3))
  show ?case
  proof (cases "rest = []")
    case True
    with 1(4) f have "ws' = ws" "cur' = cur @ v" "solid' = inhibit_collapse s" by (simp_all add: split_value.simps)
    moreover have "split_words V lb v s =
        (if length (r_line s @ v) > INT_MAX then too_long V
         else Done (s\<lparr>r_line := r_line s @ v, do_collapse := \<not> inhibit_collapse s,
                      offadj := offadj s + int (length (r_line s @ v)) - int lb\<rparr>))"
      using f True by (subst split_words.simps) (simp add: too_long_def Let_def)
    ultimately show ?thesis
      using tracks_append [OF 1(3), of v] by (simp add: tracks_def)
  next
    case False
    show ?thesis
    proof (cases "cur @ w = [] \<and> \<not> inhibit_collapse s")
      case True
      then have c: "part_first ?s = length (r_line ?s) \<and> \<not> inhibit_collapse ?s" using tracks_cur [OF tw] by simp
      have sv: "split_value (skip_ws rest) ws [] False = (ws', cur', solid')"
        using 1(4) f False True by (subst (asm) split_value.simps) simp
      have "tracks (?s\<lparr>inhibit_collapse := False\<rparr>) [] ws []" using tw True by (simp add: tracks_def)
      from 1(1) [OF f [symmetric] HOL.refl False HOL.refl c this] sv show ?thesis
        using split_words.simps [of V lb v s] f False c by simp
    next
      case neg: False
      then have c: "\<not> (part_first ?s = length (r_line ?s) \<and> \<not> inhibit_collapse ?s)" using tracks_cur [OF tw] by auto
      have sv: "split_value (skip_ws rest) (ws @ [cur @ w]) [] False = (ws', cur', solid')"
        using 1(4) f False neg by (subst (asm) split_value.simps) auto
      show ?thesis
      proof (cases "length (r_line ?s @ '' '') > INT_MAX")
        case True
        then show ?thesis using split_words.simps [of V lb v s] f False c by (auto simp: too_long_def Let_def)
      next
        case short: False
        let ?s' = "?s\<lparr>r_line := r_line ?s @ '' '', done_offs := done_offs ?s @ [(part_first ?s, length (r_line ?s))],
            part_first := length (r_line ?s @ '' ''), offadj := offadj ?s + int (length (r_line ?s @ '' '')) - int lb, inhibit_collapse := False\<rparr>"
        have "tracks ?s' [] (ws @ [cur @ w]) []" using tracks_break [OF tw] by (simp add: tracks_def)
        then have "split_words V (length (r_line ?s @ '' '')) (skip_ws rest) ?s' = too_long V \<or>
          (\<exists>s'. split_words V (length (r_line ?s @ '' '')) (skip_ws rest) ?s' = Done s' \<and> tracks s' [] ws' cur' \<and>
             inhibit_collapse s' = solid' \<and> do_collapse s' = (\<not> solid') \<and>
             offadj s' = offadj ?s' + int (length (r_line s')) - int (length (r_line ?s @ '' '')))"
          using 1(2) [OF f [symmetric] HOL.refl False HOL.refl c HOL.refl short] sv by simp
        moreover have "split_words V lb v s = split_words V (length (r_line ?s @ '' '')) (skip_ws rest) ?s'"
          using split_words.simps [of V lb v s] f False c short by (auto simp: Let_def)
        ultimately show ?thesis by auto
      qed
    qed
  qed
qed

lemma read_reference_no_overrun: "read_reference V k s \<noteq> Overrun"
proof -
  have "resolve_reference V n a m c l \<noteq> Overrun" for n a m c l by (simp add: resolve_reference_def subst_error_def Let_def)
  moreover have "read_alternative V j u \<noteq> Overrun" for j u
    by (simp add: read_alternative_def subst_error_def Let_def split: prod.split)
  ultimately have "read_named V w b j u \<noteq> Overrun" for w b j u
    by (auto simp: read_named_def subst_error_def bind_outcome_Overrun_iff split: prod.splits)
  then show ?thesis by (simp add: read_reference_def Let_def split: prod.split)
qed

text \<open>A part, seen from inside its loop: \<open>g\<close> is text before the part that has not been copied yet.\<close>

lemma dollar_split:
  assumes "CHR ''$'' \<notin> set g"
  shows "takeWhile (\<lambda>c. c \<noteq> CHR ''$'') (g @ t) = g @ takeWhile (\<lambda>c. c \<noteq> CHR ''$'') t"
    "dropWhile (\<lambda>c. c \<noteq> CHR ''$'') (g @ t) = dropWhile (\<lambda>c. c \<noteq> CHR ''$'') t"
  using assms by (induction g) auto

lemma dollar_none: "CHR ''$'' \<notin> set t \<Longrightarrow> takeWhile (\<lambda>c. c \<noteq> CHR ''$'') t = t" "dropWhile (\<lambda>c. c \<noteq> CHR ''$'') t = [] \<longleftrightarrow> CHR ''$'' \<notin> set t"
  by (auto simp: takeWhile_eq_all_conv)

lemma expand_plain:
  assumes "CHR ''$'' \<notin> set t"
  shows "expand V t ws cur solid vanish = Done (if vanish \<and> cur @ t = [] then ws else ws @ [cur @ t])"
proof -
  have "dropWhile (\<lambda>c. c \<noteq> CHR ''$'') t = []" using assms dollar_none(2) by blast
  then show ?thesis by (subst expand.simps) (simp only: Let_def if_True simp_thms)
qed

lemma subst_part_plain:
  assumes "second \<le> xpos + length (takeWhile (\<lambda>c. c \<noteq> CHR ''$'') u)"
  shows "subst_part V second xpos u s = Done (xpos, u, s)"
  using assms by (subst subst_part.simps) simp

text \<open>What the inner loop leaves behind, in terms of the words of the part.\<close>

definition part_done :: "string \<Rightarrow> nat \<Rightarrow> string list \<Rightarrow> nat \<times> string \<times> subst_state \<Rightarrow> bool" where
  "part_done s' second words r \<longleftrightarrow>
     (case r of (xpos, u, s) \<Rightarrow>
        \<exists>g ws cur. u = g @ s' \<and> CHR ''$'' \<notin> set g \<and> second = xpos + length g \<and> tracks s g ws cur \<and>
          offadj s = int (length (r_line s)) - int xpos \<and>
          words = (if do_collapse s \<and> cur = [] then ws else ws @ [cur]))"

lemma subst_part_tracks:
  assumes "u = g @ t @ s'" "CHR ''$'' \<notin> set g" "part_end s'" "second = xpos + length g + length t"
    and "tracks s g ws cur" "offadj s = int (length (r_line s)) - int xpos"
    and "g = [] \<or> (\<not> inhibit_collapse s \<and> \<not> do_collapse s)"
  shows "subst_part V second xpos u s = too_long V \<or>
    (case expand V t ws cur (inhibit_collapse s) (do_collapse s) of
       Overrun \<Rightarrow> False
     | Throws e \<Rightarrow> subst_part V second xpos u s = Throws e
     | Done words \<Rightarrow> \<exists>r. subst_part V second xpos u s = Done r \<and> part_done s' second words r)"
  using assms
proof (induction "length u" arbitrary: u xpos s g t ws cur rule: less_induct)
  case less
  show ?case
  proof (cases "CHR ''$'' \<in> set t")
    case False
    have "second \<le> xpos + length (takeWhile (\<lambda>c. c \<noteq> CHR ''$'') u)"
      using less.prems(1,2,4) False dollar_split(1) [of "g @ t" s'] by simp
    then have stop: "subst_part V second xpos u s = Done (xpos, u, s)" by (rule subst_part_plain)
    have ex: "expand V t ws cur (inhibit_collapse s) (do_collapse s) =
        Done (if do_collapse s \<and> cur @ t = [] then ws else ws @ [cur @ t])"
      using False by (rule expand_plain)
    have "tracks s (g @ t) ws (cur @ t)"
      by (rule tracks_extend) (rule less.prems(5))
    then have "part_done s' second (if do_collapse s \<and> cur @ t = [] then ws else ws @ [cur @ t]) (xpos, u, s)"
      unfolding part_done_def prod.case using less.prems(1,2,4,6) False
      by (intro exI [of _ "g @ t"] exI [of _ ws] exI [of _ "cur @ t"]) simp
    then show ?thesis unfolding ex stop by simp
  next
    case True
    let ?P = "\<lambda>c. c \<noteq> CHR ''$''"
    define pre where "pre = takeWhile ?P t"
    obtain rt where rt: "dropWhile ?P t = CHR ''$'' # rt"
      using True hd_dropWhile [of ?P t] by (cases "dropWhile ?P t") (auto simp: dropWhile_eq_Nil_conv)
    have t: "t = pre @ CHR ''$'' # rt" using takeWhile_dropWhile_id [of ?P t] by (simp add: pre_def rt)
    have tw: "takeWhile ?P u = g @ pre" and dw: "dropWhile ?P u = CHR ''$'' # rt @ s'"
      using dollar_split [OF less.prems(2), of "t @ s'"] True rt by (simp_all add: less.prems(1) pre_def takeWhile_append1 dropWhile_append1)
    let ?d = "xpos + length (g @ pre)"
    have in_part: "\<not> second \<le> ?d" "second - (?d + 1) = length rt" using less.prems(4) t by simp_all
    let ?s = "s\<lparr>r_line := r_line s @ g @ pre\<rparr>"
    have tr: "tracks ?s [] ws (cur @ pre)" by (rule tracks_copy) (rule tracks_extend [OF less.prems(5)])
    have off: "offadj ?s = int (length (r_line ?s)) - int ?d" using less.prems(6) by simp
    show ?thesis
    proof (cases "char_at (CHR ''$'' # rt) 1 = CHR ''$''")
      case dd: True
      then obtain rt' where rt': "rt = CHR ''$'' # rt'" by (cases rt) (auto simp: char_at_def)
      define s1 where "s1 = ?s\<lparr>r_line := r_line ?s @ ''$'', offadj := offadj ?s - 1\<rparr>"
      have dd': "char_at (CHR ''$'' # rt @ s') 1 = CHR ''$''" by (simp add: rt' char_at_def)
      have sp: "subst_part V second xpos u s = subst_part V second (?d + 2) (rt' @ s') s1"
        using in_part dd' by (subst subst_part.simps) (simp add: tw dw rt' s1_def)
      have ex: "expand V t ws cur (inhibit_collapse s) (do_collapse s) =
          expand V rt' ws (cur @ pre @ ''$'') (inhibit_collapse s1) (do_collapse s1)"
        using dd by (subst expand.simps) (simp add: rt rt' pre_def s1_def)
      show ?thesis
        unfolding sp ex
      proof (rule less.hyps [where g = "[]"])
        show "length (rt' @ s') < length u" by (simp add: less.prems(1) t rt')
        show "tracks s1 [] ws (cur @ pre @ ''$'')" using tracks_append [OF tr, of "''$''"] by (simp add: tracks_def s1_def)
        show "offadj s1 = int (length (r_line s1)) - int (?d + 2)" using off by (simp add: s1_def)
      qed (use less.prems(3,4) in \<open>simp_all add: t rt'\<close>)
    next
      case False
      then have nd: "char_at (CHR ''$'' # rt @ s') 1 \<noteq> CHR ''$''"
        using char_at_part [OF less.prems(3), of "CHR ''$''" rt] by (cases rt; cases s') (auto simp: char_at_def)
      have ref: "read_reference V (second - (?d + 1)) (rt @ s') =
          bind_outcome (read_reference V (length rt) rt) (\<lambda>(w, v, r). Done (w, v, r @ s'))"
        using read_reference_part [OF less.prems(3), of V rt] in_part(2) by simp
      have ex: "expand V t ws cur (inhibit_collapse s) (do_collapse s) =
          (case read_reference V (length rt) rt of
             Overrun \<Rightarrow> Overrun | Throws e \<Rightarrow> Throws e
           | Done (wsplit, v, r) \<Rightarrow>
               (if wsplit then
                  (case split_value v ws (cur @ pre) (inhibit_collapse s) of (ws, cur, solid) \<Rightarrow> expand V r ws cur solid (\<not> solid))
                else expand V r ws (cur @ pre @ v) True False))"
        using False by (subst expand.simps) (simp add: rt pre_def [symmetric])
      show ?thesis
      proof (cases "read_reference V (length rt) rt")
        case Overrun
        then show ?thesis using read_reference_no_overrun by blast
      next
        case (Throws e)
        then have "subst_part V second xpos u s = Throws e"
          using in_part nd ref by (subst subst_part.simps) (simp add: tw dw)
        then show ?thesis by (simp add: ex Throws)
      next
        case (Done x)
        obtain w v r where x: "x = (w, v, r)" by (cases x)
        have r: "length r \<le> length rt" using read_reference_shorter Done x by blast
        define n where "n = Suc (length rt) - length r"
        have n: "length (CHR ''$'' # rt @ s') - length (r @ s') = n" using r by (simp add: n_def)
        define s1 where "s1 = ?s\<lparr>offadj := offadj ?s - int n\<rparr>"
        define m where "m = (if w then split_words V (length (r_line s1)) v s1
            else (let line' = r_line s1 @ v
                  in if length line' > INT_MAX then subst_error V ''value too long (after substitution)''
                     else Done (s1\<lparr>r_line := line', offadj := offadj s1 + int (length v), inhibit_collapse := True, do_collapse := False\<rparr>)))"
        have sp: "subst_part V second xpos u s =
            (case m of Overrun \<Rightarrow> Overrun | Throws e \<Rightarrow> Throws e | Done s2 \<Rightarrow> subst_part V second (?d + n) (r @ s') s2)"
          using in_part nd ref n by (subst subst_part.simps) (simp add: tw dw Done x s1_def m_def Let_def cong: outcome.case_cong)
        have step: ?thesis
          if m2: "m = Done s2" and s2: "tracks s2 [] ws2 cur2" "offadj s2 = int (length (r_line s2)) - int (?d + n)"
            and ex2: "expand V t ws cur (inhibit_collapse s) (do_collapse s) = expand V r ws2 cur2 (inhibit_collapse s2) (do_collapse s2)"
          for s2 ws2 cur2
          unfolding sp m2 ex2 outcome.case
        proof (rule less.hyps [where g = "[]"])
          show "length (r @ s') < length u" using r by (simp add: less.prems(1) t)
        qed (use s2 less.prems(3,4) r in \<open>simp_all add: t n_def\<close>)
        have tr1: "tracks s1 [] ws (cur @ pre)" using tr by (simp add: s1_def tracks_def)
        show ?thesis
        proof (cases w)
          case True
          obtain ws2 cur2 solid2 where sv: "split_value v ws (cur @ pre) (inhibit_collapse s1) = (ws2, cur2, solid2)"
            by (cases "split_value v ws (cur @ pre) (inhibit_collapse s1)")
          from split_words_tracks [OF tr1 this, of V "length (r_line s1)"] show ?thesis
          proof (elim disjE exE conjE)
            assume "split_words V (length (r_line s1)) v s1 = too_long V"
            then show ?thesis using True by (simp add: sp m_def too_long_def subst_error_def)
          next
            fix s2
            assume s2: "split_words V (length (r_line s1)) v s1 = Done s2" "tracks s2 [] ws2 cur2" "inhibit_collapse s2 = solid2"
              "do_collapse s2 = (\<not> solid2)" "offadj s2 = offadj s1 + int (length (r_line s2)) - int (length (r_line s1))"
            show ?thesis
            proof (rule step)
              show "m = Done s2" using True s2(1) by (simp add: m_def)
              show "tracks s2 [] ws2 cur2" by (rule s2(2))
              show "offadj s2 = int (length (r_line s2)) - int (?d + n)" using off s2(5) by (simp add: s1_def)
              show "expand V t ws cur (inhibit_collapse s) (do_collapse s) = expand V r ws2 cur2 (inhibit_collapse s2) (do_collapse s2)"
                using True sv s2(3,4) by (simp add: ex Done x s1_def)
            qed
          qed
        next
          case False
          show ?thesis
          proof (cases "length (r_line s1 @ v) > INT_MAX")
            case True
            then show ?thesis using False by (simp add: sp m_def too_long_def subst_error_def Let_def)
          next
            case short: False
            let ?s2 = "s1\<lparr>r_line := r_line s1 @ v, offadj := offadj s1 + int (length v), inhibit_collapse := True, do_collapse := False\<rparr>"
            show ?thesis
            proof (rule step)
              show "m = Done ?s2" using False short by (simp add: m_def Let_def)
              show "tracks ?s2 [] ws ((cur @ pre) @ v)" using tracks_append [OF tr1, of v] by (simp add: tracks_def)
              show "offadj ?s2 = int (length (r_line ?s2)) - int (?d + n)" using off by (simp add: s1_def)
              show "expand V t ws cur (inhibit_collapse s) (do_collapse s) = expand V r ws ((cur @ pre) @ v) (inhibit_collapse ?s2) (do_collapse ?s2)"
                using False by (simp add: ex Done x)
            qed
          qed
        qed
      qed
    qed
  qed
qed

section \<open>Lines and their parts\<close>

text \<open>
  The offsets describe parts of the text \<open>u\<close> that starts at position \<open>p\<close>: they are in order, no dollar
  sign is outside a part, and behind a part there is a blank or the end.
\<close>

fun laid_out :: "nat \<Rightarrow> (nat \<times> nat) list \<Rightarrow> string \<Rightarrow> bool" where
  "laid_out p [] u \<longleftrightarrow> CHR ''$'' \<notin> set u"
| "laid_out p ((a, b) # offs) u \<longleftrightarrow>
     p \<le> a \<and> a \<le> b \<and> b \<le> p + length u \<and> CHR ''$'' \<notin> set (take (a - p) u) \<and>
     part_end (drop (b - p) u) \<and> laid_out b offs (drop (b - p) u)"

fun cut_parts :: "nat \<Rightarrow> (nat \<times> nat) list \<Rightarrow> string \<Rightarrow> string list" where
  "cut_parts p [] u = []"
| "cut_parts p ((a, b) # offs) u = take (b - a) (drop (a - p) u) # cut_parts b offs (drop (b - p) u)"

lemma cut_parts_slice:
  assumes "laid_out p offs u" "u = drop p line" "p \<le> length line"
  shows "cut_parts p offs u = map (slice line) offs \<and> parts_in line offs"
  using assms
proof (induction p offs u rule: laid_out.induct)
  case (2 p a b offs u)
  have dd: "drop (b - p) u = drop b line" using 2(2,3) by simp
  have lo: "laid_out b offs (drop (b - p) u)" and b: "p \<le> a" "a \<le> b" "b \<le> length line" using 2(2-4) by auto
  have "cut_parts b offs (drop (b - p) u) = map (slice line) offs \<and> parts_in line offs" by (rule 2(1) [OF lo dd b(3)])
  with b show ?case by (simp add: slice_def parts_in_def 2(3))
qed (simp add: parts_in_def)

lemma part_text:
  assumes "laid_out p ((a, b) # offs) u"
  shows "u = take (a - p) u @ take (b - a) (drop (a - p) u) @ drop (b - p) u"
proof -
  have "drop (b - p) u = drop (b - a) (drop (a - p) u)" using assms by simp
  then show ?thesis by (metis append_take_drop_id)
qed

lemma split_value_prefix:
  "split_value v (W @ ws) cur solid = (case split_value v ws cur solid of (ws', r) \<Rightarrow> (W @ ws', r))"
proof (induction v ws cur solid rule: split_value.induct)
  case (1 v ws cur solid)
  show ?case
    using 1 by (subst (1 2) split_value.simps) (simp split: prod.split)
qed

lemma expand_prefix:
  "expand V tok (W @ ws) cur solid vanish = bind_outcome (expand V tok ws cur solid vanish) (\<lambda>vs. Done (W @ vs))"
proof (induction V tok ws cur solid vanish rule: expand.induct)
  case (1 V tok ws cur solid vanish)
  let ?rest = "dropWhile (\<lambda>c. c \<noteq> CHR ''$'') tok"
  show ?case
  proof (cases "?rest = [] \<or> char_at ?rest 1 = CHR ''$''")
    case True
    then show ?thesis using 1(1) by (subst (1 2) expand.simps) (auto simp: Let_def)
  next
    case False
    let ?ref = "read_reference V (length ?rest - 1) (tl ?rest)"
    have step: "expand V tok ws' cur solid vanish =
        bind_outcome ?ref (\<lambda>(w, v, r).
          if w then (case split_value v ws' (cur @ takeWhile (\<lambda>c. c \<noteq> CHR ''$'') tok) solid of (ws, cur, solid) \<Rightarrow> expand V r ws cur solid (\<not> solid))
          else expand V r ws' (cur @ takeWhile (\<lambda>c. c \<noteq> CHR ''$'') tok @ v) True False)" for ws'
      using False by (subst expand.simps) (cases ?ref; simp add: Let_def del: dropWhile_eq_Nil_conv)
    show ?thesis
    proof (cases ?ref)
      case (Done x)
      obtain w v r where x: "x = (w, v, r)" by (cases x)
      show ?thesis
      proof (cases w)
        case True
        obtain ws2 cur2 solid2 where sv: "split_value v ws (cur @ takeWhile (\<lambda>c. c \<noteq> CHR ''$'') tok) solid = (ws2, cur2, solid2)"
          by (cases "split_value v ws (cur @ takeWhile (\<lambda>c. c \<noteq> CHR ''$'') tok) solid")
        have "expand V r (W @ ws2) cur2 solid2 (\<not> solid2) = bind_outcome (expand V r ws2 cur2 solid2 (\<not> solid2)) (\<lambda>vs. Done (W @ vs))"
          using 1(2) False Done x True sv by (simp del: dropWhile_eq_Nil_conv)
        then show ?thesis unfolding step Done x using True sv by (simp add: split_value_prefix)
      next
        case F: False
        have "expand V r (W @ ws) (cur @ takeWhile (\<lambda>c. c \<noteq> CHR ''$'') tok @ v) True False =
            bind_outcome (expand V r ws (cur @ takeWhile (\<lambda>c. c \<noteq> CHR ''$'') tok @ v) True False) (\<lambda>vs. Done (W @ vs))"
          using 1(3) False Done x F by (simp del: dropWhile_eq_Nil_conv)
        then show ?thesis unfolding step Done x using F by simp
      qed
    qed (simp_all add: step)
  qed
qed

text \<open>Parts without references, in front of the next dollar sign.\<close>

lemma before_dollar_plain:
  assumes "before_dollar b (next_dollar xpos (G @ u))" "CHR ''$'' \<notin> set G" "xpos + length G \<le> b"
  shows "CHR ''$'' \<notin> set (take (b - (xpos + length G)) u)"
proof (cases "CHR ''$'' \<in> set u")
  case True
  obtain xs ys where u: "u = xs @ CHR ''$'' # ys" "CHR ''$'' \<notin> set xs" using split_list_first [OF True] by auto
  have "takeWhile (\<lambda>c. c \<noteq> CHR ''$'') (G @ u) = G @ xs"
    using dollar_split(1) [OF assms(2), of u] dollar_split(1) [OF u(2), of "CHR ''$'' # ys"] by (simp add: u(1))
  then have "next_dollar xpos (G @ u) = Some (xpos + length G + length xs)" by (simp add: next_dollar_def Let_def u(1))
  then have "b - (xpos + length G) \<le> length xs" using assms(1) by (simp add: before_dollar_def)
  then have "take (b - (xpos + length G)) u = take (b - (xpos + length G)) xs" by (simp add: u(1))
  then show ?thesis using u(2) by (auto dest: in_set_takeD)
qed (auto dest: in_set_takeD)

lemma adjust_at:
  assumes "d = int (length r) - int xpos" "xpos + length G \<le> a"
  shows "adjust d a = length (r @ G) + (a - (xpos + length G))"
  using assms by (simp add: adjust_def)

lemma skipped_parts:
  assumes "laid_out (xpos + length G) (sk @ offs) u" "CHR ''$'' \<notin> set G"
    and "list_all (\<lambda>(a, b). before_dollar b (next_dollar xpos (G @ u))) sk" "d = int (length r) - int xpos"
  shows "\<exists>G2 u2. u = G2 @ u2 \<and> CHR ''$'' \<notin> set (G @ G2) \<and> laid_out (xpos + length (G @ G2)) offs u2 \<and>
    parts_in (r @ G @ G2) (map (\<lambda>(a, b). (adjust d a, adjust d b)) sk) \<and>
    cut_parts (xpos + length G) (sk @ offs) u =
      map (slice (r @ G @ G2)) (map (\<lambda>(a, b). (adjust d a, adjust d b)) sk) @ cut_parts (xpos + length (G @ G2)) offs u2 \<and>
    list_all (\<lambda>(a, b). CHR ''$'' \<notin> set (slice (r @ G @ G2) (adjust d a, adjust d b))) sk"
  using assms
proof (induction sk arbitrary: G u)
  case Nil
  then show ?case by (intro exI [of _ "[]"] exI [of _ u]) (simp add: parts_in_def)
next
  case (Cons ab sk)
  obtain a b where ab: "ab = (a, b)" by (cases ab)
  let ?p = "xpos + length G"
  have l: "?p \<le> a" "a \<le> b" "b \<le> ?p + length u" "laid_out b (sk @ offs) (drop (b - ?p) u)"
    using Cons.prems(1) by (simp_all add: ab)
  let ?T = "take (b - ?p) u" and ?U = "drop (b - ?p) u"
  have u: "u = ?T @ ?U" by simp
  have len: "xpos + length (G @ ?T) = b" using l by simp
  have plain: "CHR ''$'' \<notin> set ?T"
    using Cons.prems(2,3) l(1,2) by (intro before_dollar_plain) (simp_all add: ab)
  obtain G2 u2 where IH: "?U = G2 @ u2" "CHR ''$'' \<notin> set ((G @ ?T) @ G2)" "laid_out (xpos + length ((G @ ?T) @ G2)) offs u2"
    "parts_in (r @ (G @ ?T) @ G2) (map (\<lambda>(a, b). (adjust d a, adjust d b)) sk)"
    "cut_parts (xpos + length (G @ ?T)) (sk @ offs) ?U =
      map (slice (r @ (G @ ?T) @ G2)) (map (\<lambda>(a, b). (adjust d a, adjust d b)) sk) @ cut_parts (xpos + length ((G @ ?T) @ G2)) offs u2"
    "list_all (\<lambda>(a, b). CHR ''$'' \<notin> set (slice (r @ (G @ ?T) @ G2) (adjust d a, adjust d b))) sk"
    using Cons.IH [of "G @ ?T" ?U] Cons.prems(2,3,4) l(4) plain len by (auto simp: ab)
  have adj: "adjust d a = length (r @ G) + (a - ?p)" "adjust d b = length (r @ G) + (b - ?p)"
    using adjust_at [OF Cons.prems(4), of G a] adjust_at [OF Cons.prems(4), of G b] l by simp_all
  have tok: "slice (r @ G @ ?T @ G2) (adjust d a, adjust d b) = take (b - a) (drop (a - ?p) u)"
    using l by (simp add: slice_def adj drop_take min_def)
  have "parts_in (r @ G @ ?T @ G2) [(adjust d a, adjust d b)]"
    using l by (auto simp: parts_in_def adj)
  moreover have "CHR ''$'' \<notin> set (take (b - a) (drop (a - ?p) u))"
  proof -
    have "take (b - a) (drop (a - ?p) u) = drop (a - ?p) ?T" using l by (simp add: drop_take)
    then show ?thesis using plain by (metis in_set_dropD)
  qed
  ultimately show ?case
    using IH tok plain Cons.prems(2) len u
    by (intro exI [of _ "?T @ G2"] exI [of _ u2]) (auto simp: ab parts_in_def)
qed

lemma expand_parts_plain:
  "list_all (\<lambda>t. CHR ''$'' \<notin> set t) toks \<Longrightarrow> expand_parts V (toks @ ts) = bind_outcome (expand_parts V ts) (\<lambda>vs. Done (toks @ vs))"
proof (induction toks)
  case (Cons t toks)
  then have "expand_part V t = Done [t]" by (simp add: expand_part_def expand_plain)
  with Cons show ?case by (simp add: bind_outcome_assoc)
qed (cases "expand_parts V ts"; simp)

definition parts_are :: "string \<Rightarrow> (nat \<times> nat) list \<Rightarrow> string list \<Rightarrow> bool" where
  "parts_are line offs ws \<longleftrightarrow> parts_in line offs \<and> map (slice line) offs = ws"

lemma parts_are_append: "parts_are line offs ws \<Longrightarrow> parts_are (line @ t) offs ws"
  by (simp add: parts_are_def parts_in_append map_slice_append)

lemma parts_are_join: "parts_are line o1 w1 \<Longrightarrow> parts_are line o2 w2 \<Longrightarrow> parts_are line (o1 @ o2) (w1 @ w2)"
  by (simp add: parts_are_def parts_in_def)

lemma subst_parts_expands:
  assumes "u = G @ v" "CHR ''$'' \<notin> set G" "laid_out (xpos + length G) offs v"
    and "offadj s = int (length (r_line s)) - int xpos" "parts_are (r_line s @ G) (done_offs s) W"
  shows "subst_parts V offs xpos u s = too_long V \<or>
    (case expand_parts V (cut_parts (xpos + length G) offs v) of
       Overrun \<Rightarrow> False
     | Throws e \<Rightarrow> subst_parts V offs xpos u s = Throws e
     | Done ws \<Rightarrow> \<exists>xpos' u' s'. subst_parts V offs xpos u s = Done (xpos', u', s') \<and> parts_are (r_line s' @ u') (done_offs s') (W @ ws))"
  using assms
proof (induction "length offs" arbitrary: offs xpos u s G v W rule: less_induct)
  case less
  show ?case
  proof (cases offs)
    case Nil
    then show ?thesis using less.prems(1,5) parts_are_append [OF less.prems(5), of v] by simp
  next
    case (Cons ab os)
    obtain a b where ab: "ab = (a, b)" by (cases ab)
    let ?p = "xpos + length G"
    define gap tok rest where "gap = take (a - ?p) v" and "tok = take (b - a) (drop (a - ?p) v)" and "rest = drop (b - ?p) v"
    have l: "?p \<le> a" "a \<le> b" "b \<le> ?p + length v" "CHR ''$'' \<notin> set gap" "part_end rest" "laid_out b os rest"
      using less.prems(3) by (simp_all add: Cons ab gap_def rest_def)
    have v: "v = gap @ tok @ rest" using part_text less.prems(3) by (simp add: Cons ab gap_def tok_def rest_def)
    have len: "length (G @ gap) = a - xpos" "length tok = b - a" using l by (simp_all add: gap_def tok_def)
    define s0 where "s0 = s\<lparr>part_first := adjust (offadj s) a, inhibit_collapse := False, do_collapse := False\<rparr>"
    have "adjust (offadj s) a = length (r_line s @ G @ gap)"
      using adjust_at [OF less.prems(4), of "G @ gap" a] l(1) len(1) by simp
    then have tr: "tracks s0 (G @ gap) W []"
      using parts_are_append [OF less.prems(5), of gap] by (simp add: tracks_def s0_def parts_are_def)
    have sp: "subst_part V b xpos u s0 = too_long V \<or>
      (case expand V tok W [] False False of Overrun \<Rightarrow> False | Throws e \<Rightarrow> subst_part V b xpos u s0 = Throws e
       | Done words \<Rightarrow> \<exists>r. subst_part V b xpos u s0 = Done r \<and> part_done rest b words r)"
      using subst_part_tracks [where V = V and u = u and g = "G @ gap" and t = tok and s' = rest and second = b and xpos = xpos and s = s0 and ws = W and cur = "[]"]
        less.prems(1,2,4) l len tr by (simp add: v s0_def)
    have pre: "expand V tok W [] False False = bind_outcome (expand_part V tok) (\<lambda>vs. Done (W @ vs))"
      using expand_prefix [of V tok W "[]"] by (simp add: expand_part_def)
    have toks: "cut_parts ?p offs v = tok # cut_parts b os rest" by (simp add: Cons ab tok_def rest_def)
    show ?thesis
    proof (cases "subst_part V b xpos u s0")
      case Overrun
      then show ?thesis using sp by (cases "expand_part V tok") (simp_all add: pre too_long_def subst_error_def)
    next
      case (Throws e)
      then have "subst_parts V offs xpos u s = Throws e" by (simp add: Cons ab s0_def)
      then show ?thesis using sp Throws by (cases "expand_part V tok") (auto simp: pre toks)
    next
      case (Done x)
      obtain words where words: "expand_part V tok = Done words" and pd: "part_done rest b (W @ words) x"
        using sp Done by (cases "expand_part V tok") (auto simp: pre too_long_def subst_error_def)
      obtain xpos2 u2 s2 where x: "x = (xpos2, u2, s2)" by (cases x)
      obtain g ws cur where g: "u2 = g @ rest" "CHR ''$'' \<notin> set g" "b = xpos2 + length g" "tracks s2 g ws cur"
        "offadj s2 = int (length (r_line s2)) - int xpos2" "W @ words = (if do_collapse s2 \<and> cur = [] then ws else ws @ [cur])"
        using pd by (auto simp: part_done_def x)
      obtain q where q: "r_line s2 @ g = q @ cur" "part_first s2 = length q" "parts_are q (done_offs s2) ws"
        using g(4) by (auto simp: tracks_def parts_are_def)
      have second: "adjust (offadj s2) b = length q + length cur"
        using adjust_at [OF g(5), of g b] g(3) arg_cong [OF q(1), of length] by simp
      define dn where "dn = (if do_collapse s2 \<and> part_first s2 = adjust (offadj s2) b then [] else [(part_first s2, adjust (offadj s2) b)])"
      have "parts_are (r_line s2 @ g) (done_offs s2) ws" unfolding q(1) by (rule parts_are_append) (rule q(3))
      moreover have "parts_are (r_line s2 @ g) [(part_first s2, adjust (offadj s2) b)] [cur]"
        unfolding q(1) by (simp add: parts_are_def parts_in_def q(2) second slice_def)
      ultimately have here: "parts_are (r_line s2 @ g) (done_offs s2 @ dn) (W @ words)"
        using parts_are_join g(6) second q(2) by (auto simp: dn_def)
      define sk where "sk = takeWhile (\<lambda>(a, b). before_dollar b (next_dollar xpos2 u2)) os"
      define mv where "mv = map (\<lambda>(a, b). (adjust (offadj s2) a, adjust (offadj s2) b)) sk"
      have os: "os = sk @ drop (length sk) os" unfolding sk_def by (metis append_take_drop_id takeWhile_eq_take)
      have "list_all (\<lambda>(a, b). before_dollar b (next_dollar xpos2 (g @ rest))) sk"
        unfolding sk_def g(1) by (metis (no_types, lifting) list_all_iff set_takeWhileD)
      then obtain G2 v2 where sk: "rest = G2 @ v2" "CHR ''$'' \<notin> set (g @ G2)" "laid_out (xpos2 + length (g @ G2)) (drop (length sk) os) v2"
        "parts_in (r_line s2 @ g @ G2) mv"
        "cut_parts b os rest = map (slice (r_line s2 @ g @ G2)) mv @ cut_parts (xpos2 + length (g @ G2)) (drop (length sk) os) v2"
        "list_all (\<lambda>t. CHR ''$'' \<notin> set t) (map (slice (r_line s2 @ g @ G2)) mv)"
        using skipped_parts [where xpos = xpos2 and G = g and sk = sk and offs = "drop (length sk) os" and u = rest and d = "offadj s2" and r = "r_line s2"]
          l(6) os g(2,3,5) unfolding mv_def by (auto simp: list_all_iff case_prod_unfold)
      define s3 where "s3 = s2\<lparr>done_offs := done_offs s2 @ dn @ mv\<rparr>"
      have "parts_are (r_line s3 @ g @ G2) (done_offs s3) (W @ words @ map (slice (r_line s2 @ g @ G2)) mv)"
        using parts_are_join [OF parts_are_append [OF here, of G2], of mv] sk(4) by (simp add: s3_def parts_are_def)
      then have IH: "subst_parts V (drop (length sk) os) xpos2 u2 s3 = too_long V \<or>
          (case expand_parts V (cut_parts (xpos2 + length (g @ G2)) (drop (length sk) os) v2) of
             Overrun \<Rightarrow> False
           | Throws e \<Rightarrow> subst_parts V (drop (length sk) os) xpos2 u2 s3 = Throws e
           | Done ws \<Rightarrow> \<exists>xpos' u' s'. subst_parts V (drop (length sk) os) xpos2 u2 s3 = Done (xpos', u', s') \<and>
               parts_are (r_line s' @ u') (done_offs s') ((W @ words @ map (slice (r_line s2 @ g @ G2)) mv) @ ws))"
        using sk(1-3) g(1,5) by (intro less.hyps) (simp_all add: Cons s3_def)
      have eq: "subst_parts V offs xpos u s = subst_parts V (drop (length sk) os) xpos2 u2 s3"
        using Done by (simp add: Cons ab s0_def x Let_def dn_def sk_def mv_def s3_def)
      have ex: "expand_parts V (cut_parts ?p offs v) =
          bind_outcome (expand_parts V (cut_parts (xpos2 + length (g @ G2)) (drop (length sk) os) v2))
            (\<lambda>vs. Done (words @ map (slice (r_line s2 @ g @ G2)) mv @ vs))"
        unfolding toks sk(5) expand_parts.simps words expand_parts_plain [OF sk(6)] by (simp add: bind_outcome_assoc)
      show ?thesis
        using IH unfolding eq ex
        by (cases "expand_parts V (cut_parts (xpos2 + length (g @ G2)) (drop (length sk) os) v2)") simp_all
    qed
  qed
qed

lemma value_var_subst_parts:
  assumes "laid_out 0 offs line"
  shows "case value_var_subst V line offs of
      Done (line', offs') \<Rightarrow> parts_in line' offs' \<and> expand_parts V (map (slice line) offs) = Done (map (slice line') offs')
    | Throws e \<Rightarrow> expand_parts V (map (slice line) offs) = Throws e \<or> Throws e = (too_long V :: string list outcome) \<or>
        (e = Length_error \<and> length line > INT_MAX)
    | Overrun \<Rightarrow> False"
proof (cases "CHR ''$'' \<in> set line")
  case False
  have c: "cut_parts 0 offs line = map (slice line) offs" "parts_in line offs" using cut_parts_slice [OF assms] by simp_all
  have "list_all (\<lambda>t. CHR ''$'' \<notin> set t) (map (slice line) offs)"
    using False by (auto simp: list_all_iff slice_def dest!: in_set_takeD in_set_dropD)
  from expand_parts_plain [OF this, of V "[]"] have "expand_parts V (map (slice line) offs) = Done (map (slice line) offs)" by simp
  with False c show ?thesis by (simp add: value_var_subst_def)
next
  case True
  have c: "cut_parts 0 offs line = map (slice line) offs" using cut_parts_slice [OF assms] by simp
  have "subst_parts V offs 0 line start_state = too_long V \<or>
    (case expand_parts V (map (slice line) offs) of
       Overrun \<Rightarrow> False
     | Throws e \<Rightarrow> subst_parts V offs 0 line start_state = Throws e
     | Done ws \<Rightarrow> \<exists>xpos' u' s'. subst_parts V offs 0 line start_state = Done (xpos', u', s') \<and> parts_are (r_line s' @ u') (done_offs s') ([] @ ws))"
    using subst_parts_expands [of line "[]" line 0 offs start_state "[]" V] assms
    by (simp add: start_state_def parts_are_def parts_in_def c)
  then show ?thesis
    using True
    by (cases "expand_parts V (map (slice line) offs)") (auto simp: value_var_subst_def parts_are_def too_long_def subst_error_def)
qed

text \<open>
  C29. Rewriting a line with all its offset adjustments amounts to expanding each part on its own: if
  a result is returned, its parts are the words of the expanded parts in order; if an exception is
  thrown, it is that of the first part that cannot be expanded, or the line is too long.
\<close>

theorem value_var_subst_expands:
  assumes "laid_out 0 offs line"
  shows "case value_var_subst V line offs of
      Done (line', offs') \<Rightarrow> parts_in line' offs' \<and> expand_parts V (map (slice line) offs) = Done (map (slice line') offs')
    | Throws e \<Rightarrow> expand_parts V (map (slice line) offs) = Throws e \<or> Throws e = (too_long V :: string list outcome) \<or>
        (e = Length_error \<and> length line > INT_MAX)
    | Overrun \<Rightarrow> False"
  using assms by (rule value_var_subst_parts)

definition sample_vars :: var_env where
  "sample_vars = \<lparr>var_resolve = map_of [(''DIR'', ''/var''), (''OPTS'', ''-a  -b'')], argval = Some ''x'', var_setting = ''command''\<rparr>"

lemma sample_layout: "laid_out 0 [(0, 6), (7, 14), (15, 19)] ''run$$x $/OPTS/ $DIR''"
  by (simp add: part_end_def)

theorem value_var_subst_expands_witness:
  "\<exists>line' offs'. value_var_subst sample_vars ''run$$x $/OPTS/ $DIR'' [(0, 6), (7, 14), (15, 19)] = Done (line', offs') \<and>
     map (slice line') offs' = [''run$x'', ''-a'', ''-b/'', ''/var'']"
proof -
  have "expand_parts sample_vars (map (slice ''run$$x $/OPTS/ $DIR'') [(0, 6), (7, 14), (15, 19)]) = Done [''run$x'', ''-a'', ''-b/'', ''/var'']"
    by code_simp
  moreover have "\<exists>line' offs'. value_var_subst sample_vars ''run$$x $/OPTS/ $DIR'' [(0, 6), (7, 14), (15, 19)] = Done (line', offs')"
    by (simp add: value_var_subst_def start_state_def INT_MAX_def subst_part.simps split_words.simps char_at_def read_reference_def read_named_def
        read_config_name_def resolve_reference_def sample_vars_def is_digit_def char_code_def name_char_def is_cntrl_def is_punct_def is_alpha_def
        c_isspace_def find_ws_def skip_ws_def adjust_def next_dollar_def before_dollar_def Let_def)
  ultimately show ?thesis
    using value_var_subst_expands [OF sample_layout, of sample_vars] by auto
qed

section \<open>From the text of a setting to its words\<close>

lemma laid_out_blank: "laid_out (Suc p) ((Suc p + k, b) # offs) u \<Longrightarrow> laid_out p ((Suc p + k, b) # offs) (CHR '' '' # u)"
proof -
  assume l: "laid_out (Suc p) ((Suc p + k, b) # offs) u"
  then have "b - p = Suc (b - Suc p)" by auto
  then have "drop (b - p) (CHR '' '' # u) = drop (b - Suc p) u" by simp
  with l show ?thesis by (auto simp: Suc_le_eq)
qed

lemma laid_out_join: "ps \<noteq> [] \<Longrightarrow> laid_out p (part_offs p ps) (join_blank ps)"
proof (induction ps arbitrary: p rule: join_blank.induct)
  case (3 x y ps)
  have "laid_out (Suc (p + length x)) (part_offs (Suc (p + length x)) (y # ps)) (join_blank (y # ps))"
    using 3(1) [of "Suc (p + length x)"] by simp
  then have "laid_out (p + length x) (part_offs (Suc (p + length x)) (y # ps)) (CHR '' '' # join_blank (y # ps))"
    using laid_out_blank [of "p + length x" 0] by simp
  then show ?case by (simp add: part_end_def)
qed (simp_all add: part_end_def)

text \<open>
  A setting whose value is written as a list of quoted parts and then subjected to substitution
  has as its words the expansions of these parts, whatever the parts contain; an error is the error
  of the first part that cannot be expanded, or the value is too long.
\<close>

theorem quoted_setting_words:
  assumes "ps \<noteq> []"
  shows "case bind_outcome (read_setting_value ASSIGN True (CHR '' '') ln val parts (quote_parts ps)) (\<lambda>(line, offs). value_var_subst V line offs) of
      Done (line', offs') \<Rightarrow> expand_parts V ps = Done (map (slice line') offs')
    | Throws e \<Rightarrow> expand_parts V ps = Throws e \<or> Throws e = (too_long V :: string list outcome) \<or> e = Length_error
    | Overrun \<Rightarrow> False"
proof -
  have r: "read_setting_value ASSIGN True (CHR '' '') ln val parts (quote_parts ps) = Done (join_blank ps, part_offs 0 ps)"
    using read_parts_quoted [OF assms, of ln "[]" "[]"] by (simp add: read_setting_value_def quote_parts_skip [OF assms])
  have "map (slice (join_blank ps)) (part_offs 0 ps) = ps" using part_offs_slices [OF assms, of "[]"] by simp
  with value_var_subst_parts [OF laid_out_join [OF assms, of 0], of V] show ?thesis
    by (auto simp: r split: outcome.splits)
qed

theorem quoted_setting_words_witness:
  "\<exists>line' offs'. bind_outcome (read_setting_value ASSIGN True (CHR '' '') 1 [] [] (quote_parts [''a b'', ''$DIR/c'']))
       (\<lambda>(line, offs). value_var_subst sample_vars line offs) = Done (line', offs') \<and>
     map (slice line') offs' = [''a b'', ''/var/c'']"
proof -
  have "expand_parts sample_vars [''a b'', ''$DIR/c''] = Done [''a b'', ''/var/c'']" by code_simp
  moreover have "read_setting_value ASSIGN True (CHR '' '') 1 [] [] (quote_parts [''a b'', ''$DIR/c'']) = Done (''a b $DIR/c'', [(0, 3), (4, 10)])"
    by code_simp
  moreover have "\<exists>line' offs'. value_var_subst sample_vars ''a b $DIR/c'' [(0, 3), (4, 10)] = Done (line', offs')"
    by (simp add: value_var_subst_def start_state_def INT_MAX_def subst_part.simps char_at_def read_reference_def read_named_def
        read_config_name_def resolve_reference_def sample_vars_def is_digit_def char_code_def name_char_def is_cntrl_def is_punct_def is_alpha_def
        c_isspace_def adjust_def next_dollar_def before_dollar_def Let_def)
  ultimately show ?thesis
    using quoted_setting_words [where ps = "[''a b'', ''$DIR/c'']" and ln = 1 and val = "[]" and parts = "[]" and V = sample_vars] by auto
qed

end
