(* ===== verification/Service_Settings.thy ===== *)
theory Service_Settings
  imports Setting_Params Var_Subst Service_Types
begin

text \<open>
  The settings of a service description (\<^verbatim>\<open>settings.cc\<close>, \<^verbatim>\<open>service_settings_wrapper\<close> and
  \<^verbatim>\<open>process_service_line\<close> of \<^verbatim>\<open>load-service.h\<close>), in the configuration with all optional features of a
  Linux build. Dependencies are whatever the callback for loading services returns; the callbacks
  thread a state of their own.
\<close>

unbundle bit_operations_syntax

section \<open>The table of settings\<close>

datatype setting_id_t =
    SET_TYPE | SET_COMMAND | SET_WORKING_DIR | SET_ENV_FILE | SET_SOCKET_LISTEN | SET_SOCKET_PERMISSIONS | SET_SOCKET_UID
  | SET_SOCKET_GID | SET_STOP_COMMAND | SET_PID_FILE | SET_DEPENDS_ON | SET_DEPENDS_MS | SET_WAITS_FOR | SET_WAITS_FOR_D
  | SET_DEPENDS_ON_D | SET_DEPENDS_MS_D | SET_AFTER | SET_BEFORE | SET_LOGFILE | SET_LOGFILE_PERMISSIONS | SET_LOGFILE_UID
  | SET_LOGFILE_GID | SET_LOG_TYPE | SET_LOG_BUFFER_SIZE | SET_CONSUMER_OF | SET_RESTART | SET_SMOOTH_RECOVERY | SET_OPTIONS
  | SET_LOAD_OPTIONS | SET_TERM_SIGNAL | SET_TERMSIGNAL | SET_RESTART_LIMIT_INTERVAL | SET_RESTART_DELAY
  | SET_RESTART_LIMIT_COUNT | SET_STOP_TIMEOUT | SET_START_TIMEOUT | SET_RUN_AS | SET_CHAIN_TO | SET_READY_NOTIFICATION
  | SET_INITTAB_ID | SET_INITTAB_LINE | SET_NICE | SET_RLIMIT_NOFILE | SET_RLIMIT_CORE | SET_RLIMIT_DATA
  | SET_RLIMIT_ADDRSPACE | SET_RUN_IN_CGROUP | SET_CAPABILITIES | SET_SECUREBITS | SET_IOPRIO | SET_OOM_SCORE_ADJ

record setting_details =
  setting_str :: string
  setting_id :: setting_id_t
  supp_colon :: bool
  supp_assign :: bool
  supp_plus_assign :: bool

abbreviation assigned :: "string \<Rightarrow> setting_id_t \<Rightarrow> setting_details" where
  "assigned s i \<equiv> \<lparr>setting_str = s, setting_id = i, supp_colon = False, supp_assign = True, supp_plus_assign = False\<rparr>"

abbreviation appended :: "string \<Rightarrow> setting_id_t \<Rightarrow> setting_details" where
  "appended s i \<equiv> \<lparr>setting_str = s, setting_id = i, supp_colon = False, supp_assign = True, supp_plus_assign = True\<rparr>"

abbreviation listed :: "string \<Rightarrow> setting_id_t \<Rightarrow> setting_details" where
  "listed s i \<equiv> \<lparr>setting_str = s, setting_id = i, supp_colon = True, supp_assign = False, supp_plus_assign = False\<rparr>"

abbreviation optioned :: "string \<Rightarrow> setting_id_t \<Rightarrow> setting_details" where
  "optioned s i \<equiv> \<lparr>setting_str = s, setting_id = i, supp_colon = True, supp_assign = True, supp_plus_assign = False\<rparr>"

definition all_settings :: "setting_details list" where
  "all_settings =
     [assigned ''type'' SET_TYPE, appended ''command'' SET_COMMAND, assigned ''working-dir'' SET_WORKING_DIR,
      assigned ''env-file'' SET_ENV_FILE, assigned ''socket-listen'' SET_SOCKET_LISTEN,
      assigned ''socket-permissions'' SET_SOCKET_PERMISSIONS, assigned ''socket-uid'' SET_SOCKET_UID,
      assigned ''socket-gid'' SET_SOCKET_GID, appended ''stop-command'' SET_STOP_COMMAND, assigned ''pid-file'' SET_PID_FILE,
      listed ''depends-on'' SET_DEPENDS_ON, listed ''depends-ms'' SET_DEPENDS_MS, listed ''waits-for'' SET_WAITS_FOR,
      listed ''waits-for.d'' SET_WAITS_FOR_D, listed ''depends-on.d'' SET_DEPENDS_ON_D, listed ''depends-ms.d'' SET_DEPENDS_MS_D,
      listed ''after'' SET_AFTER, listed ''before'' SET_BEFORE, assigned ''logfile'' SET_LOGFILE,
      assigned ''logfile-permissions'' SET_LOGFILE_PERMISSIONS, assigned ''logfile-uid'' SET_LOGFILE_UID,
      assigned ''logfile-gid'' SET_LOGFILE_GID, assigned ''log-type'' SET_LOG_TYPE,
      assigned ''log-buffer-size'' SET_LOG_BUFFER_SIZE, assigned ''consumer-of'' SET_CONSUMER_OF, assigned ''restart'' SET_RESTART,
      assigned ''smooth-recovery'' SET_SMOOTH_RECOVERY, optioned ''options'' SET_OPTIONS, optioned ''load-options'' SET_LOAD_OPTIONS,
      assigned ''term-signal'' SET_TERM_SIGNAL, assigned ''termsignal'' SET_TERMSIGNAL,
      assigned ''restart-limit-interval'' SET_RESTART_LIMIT_INTERVAL, assigned ''restart-delay'' SET_RESTART_DELAY,
      assigned ''restart-limit-count'' SET_RESTART_LIMIT_COUNT, assigned ''stop-timeout'' SET_STOP_TIMEOUT,
      assigned ''start-timeout'' SET_START_TIMEOUT, assigned ''run-as'' SET_RUN_AS, assigned ''chain-to'' SET_CHAIN_TO,
      assigned ''ready-notification'' SET_READY_NOTIFICATION, assigned ''inittab-id'' SET_INITTAB_ID,
      assigned ''inittab-line'' SET_INITTAB_LINE, assigned ''rlimit-nofile'' SET_RLIMIT_NOFILE,
      assigned ''rlimit-core'' SET_RLIMIT_CORE, assigned ''rlimit-data'' SET_RLIMIT_DATA,
      assigned ''rlimit-addrspace'' SET_RLIMIT_ADDRSPACE, assigned ''nice'' SET_NICE, assigned ''run-in-cgroup'' SET_RUN_IN_CGROUP,
      appended ''capabilities'' SET_CAPABILITIES, appended ''securebits'' SET_SECUREBITS, assigned ''ioprio'' SET_IOPRIO,
      assigned ''oom-score-adj'' SET_OOM_SCORE_ADJ]"

section \<open>The settings of a service\<close>

record 'd settings =
  s_command :: string
  s_command_offsets :: "(nat \<times> nat) list"
  s_stop_command :: string
  s_stop_command_offsets :: "(nat \<times> nat) list"
  s_working_dir :: string
  s_pid_file :: string
  s_env_file :: string
  s_env_file_dir_fd :: int
  s_export_passwd_vars :: bool
  s_export_service_name :: bool
  s_service_type :: service_type_t
  s_depends :: "('d \<times> dependency_type) list"
  s_before_svcs :: "string list"
  s_after_svcs :: "string list"
  s_log_type :: log_type_id
  s_logfile :: string
  s_logfile_perms :: int
  s_logfile_uid :: nat
  s_logfile_uid_gid :: nat
  s_logfile_gid :: nat
  s_max_log_buffer_sz :: int
  s_onstart_flags :: service_flags_t
  s_term_signal :: int
  s_auto_restart :: auto_restart_mode
  s_smooth_recovery :: bool
  s_socket_path :: string
  s_socket_perms :: int
  s_socket_uid :: nat
  s_socket_uid_gid :: nat
  s_socket_gid :: nat
  s_restart_interval :: "nat \<times> nat"
  s_max_restarts :: int
  s_restart_delay :: "nat \<times> nat"
  s_stop_timeout :: "nat \<times> nat"
  s_start_timeout :: "nat \<times> nat"
  s_rlimits :: "service_rlimits list"
  s_readiness_fd :: int
  s_readiness_var :: string
  s_run_as_uid :: nat
  s_run_as_uid_gid :: nat
  s_run_as_gid :: nat
  s_nice_is_set :: bool
  s_nice :: int
  s_chain_to_name :: string
  s_consumer_of_name :: string
  s_run_in_cgroup :: string
  s_capabilities :: string
  s_secbits :: nat
  s_ioprio :: int
  s_oom_adj_is_set :: bool
  s_oom_adj :: int
  s_inittab_id :: string
  s_inittab_line :: string

definition new_settings :: "'d settings" where
  "new_settings =
     \<lparr>s_command = [], s_command_offsets = [], s_stop_command = [], s_stop_command_offsets = [], s_working_dir = [], s_pid_file = [],
      s_env_file = [], s_env_file_dir_fd = -1, s_export_passwd_vars = False, s_export_service_name = False,
      s_service_type = INTERNAL, s_depends = [], s_before_svcs = [], s_after_svcs = [], s_log_type = LOG_NONE, s_logfile = [],
      s_logfile_perms = 384, s_logfile_uid = no_id, s_logfile_uid_gid = no_id, s_logfile_gid = no_id, s_max_log_buffer_sz = 4096,
      s_onstart_flags = no_flags, s_term_signal = SIGTERM, s_auto_restart = ALWAYS, s_smooth_recovery = False, s_socket_path = [],
      s_socket_perms = 438, s_socket_uid = no_id, s_socket_uid_gid = no_id, s_socket_gid = no_id, s_restart_interval = (10, 0),
      s_max_restarts = 3, s_restart_delay = (0, 200000000), s_stop_timeout = (10, 0), s_start_timeout = (60, 0), s_rlimits = [],
      s_readiness_fd = -1, s_readiness_var = [], s_run_as_uid = no_id, s_run_as_uid_gid = no_id, s_run_as_gid = no_id,
      s_nice_is_set = False, s_nice = 0, s_chain_to_name = [], s_consumer_of_name = [], s_run_in_cgroup = [], s_capabilities = [],
      s_secbits = 0, s_ioprio = -1, s_oom_adj_is_set = False, s_oom_adj = 0, s_inittab_id = [], s_inittab_line = []\<rparr>"

text \<open>
  What a line is processed with: the service name, the user database, the variables, the outcome of
  \<^verbatim>\<open>dup\<close> on the directory descriptor, and the library's verdict on a capability text.
\<close>

record line_env =
  le_name :: string
  le_db :: user_db
  le_vars :: var_env
  le_dup :: "int option"
  le_cap_ok :: "string \<Rightarrow> bool"

section \<open>Values of settings\<close>

text \<open>The messages of exceptions are kept without the quotation marks inside them.\<close>

text \<open>A value without part positions, and one with its parts.\<close>

definition plain_value :: "nat \<Rightarrow> string \<Rightarrow> string outcome" where
  "plain_value ln txt = bind_outcome (read_setting_value ASSIGN False (CHR '' '') ln [] [] txt) (\<lambda>(v, _). Done v)"

definition value_parts :: "nat \<Rightarrow> string \<Rightarrow> string list outcome" where
  "value_parts ln txt = bind_outcome (read_setting_value ASSIGN True (CHR '' '') ln [] [] txt) (\<lambda>(v, ps). Done (map (slice v) ps))"

fun fold_outcome :: "('a \<Rightarrow> 's \<Rightarrow> 's outcome) \<Rightarrow> 'a list \<Rightarrow> 's \<Rightarrow> 's outcome" where
  "fold_outcome f [] s = Done s"
| "fold_outcome f (x # xs) s = bind_outcome (f x s) (fold_outcome f xs)"

definition secbit_of :: "string \<Rightarrow> nat option" where
  "secbit_of s =
     map_of [(''keep-caps'', 16), (''keep-caps-locked'', 32), (''no-setuid-fixup'', 4), (''no-setuid-fixup-locked'', 8),
             (''noroot'', 1), (''noroot-locked'', 2)] s"

definition set_secbit :: "nat \<Rightarrow> string \<Rightarrow> nat \<Rightarrow> nat outcome" where
  "set_secbit ln s bits =
     (case secbit_of s of
        Some b \<Rightarrow> Done (bits OR b)
      | None \<Rightarrow> Throws (Setting_pos_exc ''securebits'' ln (''unknown securebits flag: '' @ s)))"

definition starts_with :: "string \<Rightarrow> string \<Rightarrow> bool" where
  "starts_with s p \<longleftrightarrow> take (length p) (c_str s) = p"

text \<open>\<^verbatim>\<open>IOPRIO_PRIO_VALUE(class, data)\<close>.\<close>

definition ioprio_value :: "int \<Rightarrow> int \<Rightarrow> int" where
  "ioprio_value cls data = cls * 2 ^ 13 + data"

definition parse_ioprio :: "nat \<Rightarrow> string \<Rightarrow> int outcome" where
  "parse_ioprio ln s =
     (if s = ''none'' then Done 0
      else if starts_with s ''realtime:'' then bind_outcome (parse_unum_param ln (drop 9 s) 7) (\<lambda>n. Done (ioprio_value 1 n))
      else if starts_with s ''best-effort:'' then bind_outcome (parse_unum_param ln (drop 12 s) 7) (\<lambda>n. Done (ioprio_value 2 n))
      else if s = ''idle'' then Done (ioprio_value 3 0)
      else Throws (Setting_pos_exc ''ioprio'' ln (''invalid value for ioprio: '' @ s)))"

definition parse_log_type :: "nat \<Rightarrow> string \<Rightarrow> log_type_id outcome" where
  "parse_log_type ln s =
     (if s = ''file'' then Done LOGFILE else if s = ''buffer'' then Done LOG_BUFFER
      else if s = ''none'' then Done LOG_NONE else if s = ''pipe'' then Done LOG_PIPE
      else Throws (Setting_pos_exc ''log-type'' ln ''log type must be one of: file, buffer, pipe, or none''))"

definition parse_restart :: "nat \<Rightarrow> string \<Rightarrow> auto_restart_mode outcome" where
  "parse_restart ln s =
     (if s = ''yes'' \<or> s = ''true'' then Done ALWAYS else if s = ''on-failure'' then Done ON_FAILURE
      else if s = ''no'' \<or> s = ''false'' then Done NEVER
      else Throws (Setting_pos_exc ''restart'' ln ''restart must be one of: yes, true, no, false or on-failure''))"

definition parse_yes_no :: "string \<Rightarrow> nat \<Rightarrow> string \<Rightarrow> bool outcome" where
  "parse_yes_no name ln s =
     (if s = ''yes'' \<or> s = ''true'' then Done True else if s = ''no'' \<or> s = ''false'' then Done False
      else Throws (Setting_pos_exc name ln (name @ '' must be one of: yes, true, no or false'')))"

definition parse_type :: "nat \<Rightarrow> string \<Rightarrow> service_type_t outcome" where
  "parse_type ln s =
     (if s = ''scripted'' then Done SCRIPTED else if s = ''process'' then Done PROCESS
      else if s = ''bgprocess'' then Done BGPROCESS else if s = ''internal'' then Done INTERNAL
      else if s = ''triggered'' then Done TRIGGERED
      else Throws (Setting_pos_exc ''type'' ln ''service type must be one of: scripted, process, bgprocess, internal or triggered''))"

definition set_option :: "nat \<Rightarrow> string \<Rightarrow> service_flags_t \<Rightarrow> service_flags_t outcome" where
  "set_option ln opt f =
     (if opt = ''starts-rwfs'' then Done (f\<lparr>rw_ready := True\<rparr>)
      else if opt = ''starts-log'' then Done (f\<lparr>log_ready := True\<rparr>)
      else if opt = ''runs-on-console'' then Done (f\<lparr>runs_on_console := True, starts_on_console := True, shares_console := False\<rparr>)
      else if opt = ''starts-on-console'' then Done (f\<lparr>starts_on_console := True, shares_console := False\<rparr>)
      else if opt = ''shares-console'' then Done (f\<lparr>shares_console := True, runs_on_console := False, starts_on_console := False\<rparr>)
      else if opt = ''unmask-intr'' then Done (f\<lparr>unmask_intr := True\<rparr>)
      else if opt = ''pass-cs-fd'' then Done (f\<lparr>pass_cs_fd := True\<rparr>)
      else if opt = ''start-interruptible'' then Done (f\<lparr>start_interruptible := True\<rparr>)
      else if opt = ''skippable'' then Done (f\<lparr>skippable := True\<rparr>)
      else if opt = ''signal-process-only'' then Done (f\<lparr>signal_process_only := True\<rparr>)
      else if opt = ''always-chain'' then Done (f\<lparr>always_chain := True\<rparr>)
      else if opt = ''kill-all-on-stop'' then Done (f\<lparr>kill_all_on_stop := True\<rparr>)
      else if opt = ''no-new-privs'' then Done (f\<lparr>no_new_privs := True\<rparr>)
      else Throws (Setting_pos_exc ''options'' ln (''unknown option: '' @ opt)))"

definition set_load_option :: "nat \<Rightarrow> string \<Rightarrow> 'd settings \<Rightarrow> 'd settings outcome" where
  "set_load_option ln opt S =
     (if opt = ''export-passwd-vars'' then Done (S\<lparr>s_export_passwd_vars := True\<rparr>)
      else if opt = ''export-service-name'' then Done (S\<lparr>s_export_service_name := True\<rparr>)
      else if opt = ''sub-vars'' then Done S
      else Throws (Setting_pos_exc ''load-options'' ln (''unknown load option: '' @ opt)))"

definition parse_term_signal :: "string \<Rightarrow> nat \<Rightarrow> string \<Rightarrow> int outcome" where
  "parse_term_signal setting ln s =
     (let n = signal_name_to_number s
      in if n = -1 then Throws (Setting_pos_exc setting ln (''unknown/unsupported termination signal: '' @ s)) else Done n)"

definition read_readiness :: "nat \<Rightarrow> string \<Rightarrow> 'd settings \<Rightarrow> 'd settings outcome" where
  "read_readiness ln s S =
     (if starts_with s ''pipefd:'' then
        bind_outcome (parse_unum_param ln (drop 7 s) 2147483647) (\<lambda>n. Done (S\<lparr>s_readiness_fd := n\<rparr>))
      else if starts_with s ''pipevar:'' then
        (if drop 8 s = [] then Throws (Setting_pos_exc ''ready-notification'' ln ''invalid pipevar variable name'')
         else Done (S\<lparr>s_readiness_var := drop 8 s\<rparr>))
      else Throws (Setting_pos_exc ''ready-notification'' ln (''unrecognised setting: '' @ s)))"

text \<open>The sizes of the \<^verbatim>\<open>utmpx\<close> fields that hold the inittab settings.\<close>

definition ut_id_size :: nat where "ut_id_size = 4"
definition ut_line_size :: nat where "ut_line_size = 32"

definition read_inittab :: "nat \<Rightarrow> string \<Rightarrow> nat \<Rightarrow> string \<Rightarrow> string outcome" where
  "read_inittab ln name sz s =
     (if length s > sz then Throws (Description_exc ln (name @ '' setting is too long'')) else Done (take sz (c_str s)))"

definition read_rlimit :: "nat \<Rightarrow> string \<Rightarrow> nat \<Rightarrow> string \<Rightarrow> 'd settings \<Rightarrow> 'd settings outcome" where
  "read_rlimit ln name r txt S =
     bind_outcome (plain_value ln txt) (\<lambda>v.
       bind_outcome (update_rlimits (parse_rlimit ln v name) r (s_rlimits S)) (\<lambda>ls. Done (S\<lparr>s_rlimits := ls\<rparr>)))"

section \<open>Processing a line\<close>

definition resolved_value :: "line_env \<Rightarrow> string \<Rightarrow> nat \<Rightarrow> string \<Rightarrow> string outcome" where
  "resolved_value L setting ln txt = read_value_resolved ((le_vars L)\<lparr>var_setting := setting\<rparr>) ln txt"

definition read_env_file_setting :: "line_env \<Rightarrow> string \<Rightarrow> nat \<Rightarrow> string \<Rightarrow> 'd settings \<Rightarrow> 'd settings outcome" where
  "read_env_file_setting L setting ln txt S =
     bind_outcome (resolved_value L setting ln txt) (\<lambda>v.
       if char_at v 0 = CHR ''/'' then Done (S\<lparr>s_env_file := v\<rparr>)
       else case le_dup L of None \<Rightarrow> Throws System_error | Some fd \<Rightarrow> Done (S\<lparr>s_env_file := v, s_env_file_dir_fd := fd\<rparr>))"

text \<open>Settings that hold text or lists of words.\<close>

definition apply_text_setting ::
  "line_env \<Rightarrow> setting_id_t \<Rightarrow> string \<Rightarrow> setting_op_t \<Rightarrow> nat \<Rightarrow> string \<Rightarrow> 'd settings \<Rightarrow> 'd settings outcome" where
  "apply_text_setting L i setting operation ln txt S =
     (case i of
        SET_COMMAND \<Rightarrow>
          bind_outcome (read_setting_value operation True (CHR '' '') ln (s_command S) (s_command_offsets S) txt)
            (\<lambda>(v, ps). Done (S\<lparr>s_command := v, s_command_offsets := ps\<rparr>))
      | SET_STOP_COMMAND \<Rightarrow>
          bind_outcome (read_setting_value operation True (CHR '' '') ln (s_stop_command S) (s_stop_command_offsets S) txt)
            (\<lambda>(v, ps). Done (S\<lparr>s_stop_command := v, s_stop_command_offsets := ps\<rparr>))
      | SET_WORKING_DIR \<Rightarrow> bind_outcome (plain_value ln txt) (\<lambda>v. Done (S\<lparr>s_working_dir := v\<rparr>))
      | SET_ENV_FILE \<Rightarrow> read_env_file_setting L setting ln txt S
      | SET_RUN_IN_CGROUP \<Rightarrow> bind_outcome (plain_value ln txt) (\<lambda>v. Done (S\<lparr>s_run_in_cgroup := v\<rparr>))
      | SET_CAPABILITIES \<Rightarrow>
          bind_outcome (read_setting_value operation False (CHR '','') ln [] [] txt) (\<lambda>(v, _).
            if le_cap_ok L v then Done (S\<lparr>s_capabilities := v\<rparr>)
            else Throws (Setting_pos_exc ''capabilities'' ln (''invalid capabilities: '' @ v)))
      | SET_SECUREBITS \<Rightarrow>
          bind_outcome (value_parts ln txt) (\<lambda>ps.
            bind_outcome (fold_outcome (set_secbit ln) ps (if operation \<noteq> PLUSASSIGN then 0 else s_secbits S))
              (\<lambda>b. Done (S\<lparr>s_secbits := b\<rparr>)))
      | SET_SOCKET_LISTEN \<Rightarrow> bind_outcome (plain_value ln txt) (\<lambda>v. Done (S\<lparr>s_socket_path := v\<rparr>))
      | SET_PID_FILE \<Rightarrow> bind_outcome (plain_value ln txt) (\<lambda>v. Done (S\<lparr>s_pid_file := v\<rparr>))
      | SET_AFTER \<Rightarrow> bind_outcome (resolved_value L setting ln txt) (\<lambda>v. Done (S\<lparr>s_after_svcs := s_after_svcs S @ [v]\<rparr>))
      | SET_BEFORE \<Rightarrow> bind_outcome (resolved_value L setting ln txt) (\<lambda>v. Done (S\<lparr>s_before_svcs := s_before_svcs S @ [v]\<rparr>))
      | SET_LOGFILE \<Rightarrow>
          bind_outcome (plain_value ln txt) (\<lambda>v.
            Done (S\<lparr>s_logfile := v, s_log_type := (if v \<noteq> [] \<and> s_log_type S = LOG_NONE then LOGFILE else s_log_type S)\<rparr>))
      | SET_CONSUMER_OF \<Rightarrow>
          bind_outcome (resolved_value L setting ln txt) (\<lambda>v.
            if v = le_name L then Throws (Setting_pos_exc ''consumer-of'' ln ''service cannot be its own consumer'')
            else Done (S\<lparr>s_consumer_of_name := v\<rparr>))
      | SET_CHAIN_TO \<Rightarrow> bind_outcome (plain_value ln txt) (\<lambda>v. Done (S\<lparr>s_chain_to_name := v\<rparr>))
      | SET_READY_NOTIFICATION \<Rightarrow> bind_outcome (plain_value ln txt) (\<lambda>v. read_readiness ln v S)
      | SET_INITTAB_ID \<Rightarrow>
          bind_outcome (plain_value ln txt) (\<lambda>v. bind_outcome (read_inittab ln ''inittab-id'' ut_id_size v) (\<lambda>w. Done (S\<lparr>s_inittab_id := w\<rparr>)))
      | SET_INITTAB_LINE \<Rightarrow>
          bind_outcome (plain_value ln txt) (\<lambda>v. bind_outcome (read_inittab ln ''inittab-line'' ut_line_size v) (\<lambda>w. Done (S\<lparr>s_inittab_line := w\<rparr>)))
      | SET_OPTIONS \<Rightarrow>
          bind_outcome (value_parts ln txt) (\<lambda>ps.
            bind_outcome (fold_outcome (set_option ln) ps (s_onstart_flags S)) (\<lambda>f. Done (S\<lparr>s_onstart_flags := f\<rparr>)))
      | SET_LOAD_OPTIONS \<Rightarrow> bind_outcome (value_parts ln txt) (\<lambda>ps. fold_outcome (set_load_option ln) ps S)
      | _ \<Rightarrow> Done S)"

text \<open>Settings that hold numbers, ids, times, limits or one of several words.\<close>

definition apply_value_setting ::
  "line_env \<Rightarrow> setting_id_t \<Rightarrow> string \<Rightarrow> nat \<Rightarrow> string \<Rightarrow> 'd settings \<Rightarrow> 'd settings outcome" where
  "apply_value_setting L i setting ln v S =
     (case i of
        SET_NICE \<Rightarrow> bind_outcome (parse_snum_param ln v (-1073741824) 1073741823) (\<lambda>n. Done (S\<lparr>s_nice_is_set := True, s_nice := n\<rparr>))
      | SET_IOPRIO \<Rightarrow> bind_outcome (parse_ioprio ln v) (\<lambda>n. Done (S\<lparr>s_ioprio := n\<rparr>))
      | SET_OOM_SCORE_ADJ \<Rightarrow> bind_outcome (parse_snum_param ln v (-1000) 1000) (\<lambda>n. Done (S\<lparr>s_oom_adj_is_set := True, s_oom_adj := n\<rparr>))
      | SET_SOCKET_PERMISSIONS \<Rightarrow> bind_outcome (parse_perms ln v ''socket-permissions'') (\<lambda>n. Done (S\<lparr>s_socket_perms := n\<rparr>))
      | SET_SOCKET_UID \<Rightarrow>
          bind_outcome (parse_uid_param (le_db L) ln v ''socket-uid'') (\<lambda>(u, g).
            Done (S\<lparr>s_socket_uid := u, s_socket_uid_gid := (case g of Some g \<Rightarrow> g | None \<Rightarrow> s_socket_uid_gid S)\<rparr>))
      | SET_SOCKET_GID \<Rightarrow> bind_outcome (parse_gid_param (le_db L) ln v ''socket-gid'') (\<lambda>g. Done (S\<lparr>s_socket_gid := g\<rparr>))
      | SET_LOGFILE_PERMISSIONS \<Rightarrow> bind_outcome (parse_perms ln v ''logfile-permissions'') (\<lambda>n. Done (S\<lparr>s_logfile_perms := n\<rparr>))
      | SET_LOGFILE_UID \<Rightarrow>
          bind_outcome (parse_uid_param (le_db L) ln v ''logfile-uid'') (\<lambda>(u, g).
            Done (S\<lparr>s_logfile_uid := u, s_logfile_uid_gid := (case g of Some g \<Rightarrow> g | None \<Rightarrow> s_logfile_uid_gid S)\<rparr>))
      | SET_LOGFILE_GID \<Rightarrow> bind_outcome (parse_gid_param (le_db L) ln v ''logfile-gid'') (\<lambda>g. Done (S\<lparr>s_logfile_gid := g\<rparr>))
      | SET_LOG_TYPE \<Rightarrow> bind_outcome (parse_log_type ln v) (\<lambda>ty. Done (S\<lparr>s_log_type := ty\<rparr>))
      | SET_LOG_BUFFER_SIZE \<Rightarrow> bind_outcome (parse_unum_param ln v 2147483647) (\<lambda>n. Done (S\<lparr>s_max_log_buffer_sz := n\<rparr>))
      | SET_RESTART \<Rightarrow> bind_outcome (parse_restart ln v) (\<lambda>m. Done (S\<lparr>s_auto_restart := m\<rparr>))
      | SET_SMOOTH_RECOVERY \<Rightarrow> bind_outcome (parse_yes_no ''smooth-recovery'' ln v) (\<lambda>b. Done (S\<lparr>s_smooth_recovery := b\<rparr>))
      | SET_TYPE \<Rightarrow> bind_outcome (parse_type ln v) (\<lambda>ty. Done (S\<lparr>s_service_type := ty\<rparr>))
      | SET_TERM_SIGNAL \<Rightarrow> bind_outcome (parse_term_signal setting ln v) (\<lambda>n. Done (S\<lparr>s_term_signal := n\<rparr>))
      | SET_TERMSIGNAL \<Rightarrow> bind_outcome (parse_term_signal setting ln v) (\<lambda>n. Done (S\<lparr>s_term_signal := n\<rparr>))
      | SET_RESTART_LIMIT_INTERVAL \<Rightarrow> bind_outcome (parse_timespec ln v ''restart-limit-interval'') (\<lambda>ts. Done (S\<lparr>s_restart_interval := ts\<rparr>))
      | SET_RESTART_DELAY \<Rightarrow> bind_outcome (parse_timespec ln v ''restart-delay'') (\<lambda>ts. Done (S\<lparr>s_restart_delay := ts\<rparr>))
      | SET_RESTART_LIMIT_COUNT \<Rightarrow> bind_outcome (parse_unum_param ln v 2147483647) (\<lambda>n. Done (S\<lparr>s_max_restarts := n\<rparr>))
      | SET_STOP_TIMEOUT \<Rightarrow> bind_outcome (parse_timespec ln v ''stop-timeout'') (\<lambda>ts. Done (S\<lparr>s_stop_timeout := ts\<rparr>))
      | SET_START_TIMEOUT \<Rightarrow> bind_outcome (parse_timespec ln v ''start-timeout'') (\<lambda>ts. Done (S\<lparr>s_start_timeout := ts\<rparr>))
      | SET_RUN_AS \<Rightarrow>
          bind_outcome (parse_uid_param (le_db L) ln v ''run-as'') (\<lambda>(u, g).
            Done (S\<lparr>s_run_as_uid := u, s_run_as_uid_gid := (case g of Some g \<Rightarrow> g | None \<Rightarrow> s_run_as_uid_gid S)\<rparr>))
      | _ \<Rightarrow> Done S)"

definition is_text_setting :: "setting_id_t \<Rightarrow> bool" where
  "is_text_setting i \<longleftrightarrow>
     i \<in> {SET_COMMAND, SET_STOP_COMMAND, SET_WORKING_DIR, SET_ENV_FILE, SET_RUN_IN_CGROUP, SET_CAPABILITIES, SET_SECUREBITS,
          SET_SOCKET_LISTEN, SET_PID_FILE, SET_AFTER, SET_BEFORE, SET_LOGFILE, SET_CONSUMER_OF, SET_CHAIN_TO,
          SET_READY_NOTIFICATION, SET_INITTAB_ID, SET_INITTAB_LINE, SET_OPTIONS, SET_LOAD_OPTIONS}"

definition rlimit_of :: "setting_id_t \<Rightarrow> (string \<times> nat) option" where
  "rlimit_of i =
     (case i of
        SET_RLIMIT_NOFILE \<Rightarrow> Some (''rlimit-nofile'', 7)
      | SET_RLIMIT_CORE \<Rightarrow> Some (''rlimit-core'', 4)
      | SET_RLIMIT_DATA \<Rightarrow> Some (''rlimit-data'', 2)
      | SET_RLIMIT_ADDRSPACE \<Rightarrow> Some (''rlimit-addrspace'', 9)
      | _ \<Rightarrow> None)"

text \<open>Dependencies are loaded through the callbacks, one by one or all that a directory names.\<close>

record ('d, 's) callbacks =
  cb_load :: "string \<Rightarrow> 's \<Rightarrow> 'd outcome \<times> 's"
  cb_dep_dir :: "string \<Rightarrow> dependency_type \<Rightarrow> ('d \<times> dependency_type) list \<Rightarrow> 's \<Rightarrow> ('d \<times> dependency_type) list outcome \<times> 's"

definition dependency_of :: "setting_id_t \<Rightarrow> (dependency_type \<times> bool) option" where
  "dependency_of i =
     (case i of
        SET_DEPENDS_ON \<Rightarrow> Some (REGULAR, False)
      | SET_DEPENDS_MS \<Rightarrow> Some (MILESTONE, False)
      | SET_WAITS_FOR \<Rightarrow> Some (WAITS_FOR, False)
      | SET_DEPENDS_ON_D \<Rightarrow> Some (REGULAR, True)
      | SET_DEPENDS_MS_D \<Rightarrow> Some (MILESTONE, True)
      | SET_WAITS_FOR_D \<Rightarrow> Some (WAITS_FOR, True)
      | _ \<Rightarrow> None)"

definition add_dependency ::
  "('d, 's) callbacks \<Rightarrow> dependency_type \<Rightarrow> bool \<Rightarrow> string \<Rightarrow> 'd settings \<Rightarrow> 's \<Rightarrow> 'd settings outcome \<times> 's" where
  "add_dependency cb ty dir name S st =
     (if dir then
        (let (r, st) = cb_dep_dir cb name ty (s_depends S) st
         in (bind_outcome r (\<lambda>ds. Done (S\<lparr>s_depends := ds\<rparr>)), st))
      else
        (let (r, st) = cb_load cb name st
         in (bind_outcome r (\<lambda>d. Done (S\<lparr>s_depends := s_depends S @ [(d, ty)]\<rparr>)), st)))"

definition process_service_line ::
  "('d, 's) callbacks \<Rightarrow> line_env \<Rightarrow> nat \<Rightarrow> string \<Rightarrow> setting_op_t \<Rightarrow> string \<Rightarrow> 'd settings \<Rightarrow> 's \<Rightarrow> 'd settings outcome \<times> 's" where
  "process_service_line cb L ln setting operation txt S st =
     (case find (\<lambda>d. setting_str d = setting) all_settings of
        None \<Rightarrow> (Throws (Description_exc ln (''unknown setting: '' @ [CHR 0x27] @ setting @ [CHR 0x27] @ ''.'')), st)
      | Some d \<Rightarrow>
          if operation = PLUSASSIGN \<and> \<not> supp_plus_assign d
          then (Throws (Description_exc ln (''cannot use '+=' with setting '' @ [CHR 0x27] @ setting @ [CHR 0x27])), st)
          else
            (case dependency_of (setting_id d) of
               Some (ty, dir) \<Rightarrow>
                 (case resolved_value L setting ln txt of
                    Overrun \<Rightarrow> (Overrun, st)
                  | Throws e \<Rightarrow> (Throws e, st)
                  | Done name \<Rightarrow> add_dependency cb ty dir name S st)
             | None \<Rightarrow>
                 (case rlimit_of (setting_id d) of
                    Some (name, r) \<Rightarrow> (read_rlimit ln name r txt S, st)
                  | None \<Rightarrow>
                      if is_text_setting (setting_id d) then (apply_text_setting L (setting_id d) setting operation ln txt S, st)
                      else (bind_outcome (plain_value ln txt) (\<lambda>v. apply_value_setting L (setting_id d) setting ln v S), st))))"

end
