(* ===== verification/Settings_Type.thy ===== *)
theory Settings_Type
  imports Service_Settings
begin

text \<open>
  The type of the settings record: what the fields can hold after any number of lines, whatever the
  text of these lines and whatever the callbacks, the user database and the variables answer.
\<close>

section \<open>Well-formed settings\<close>

definition wf_flags :: "service_flags_t \<Rightarrow> bool" where
  "wf_flags f \<longleftrightarrow> (runs_on_console f \<longrightarrow> starts_on_console f) \<and> \<not> (shares_console f \<and> starts_on_console f)"

definition wf_time :: "nat \<times> nat \<Rightarrow> bool" where
  "wf_time t \<longleftrightarrow> fst t < 2 ^ 63 \<and> snd t < 10 ^ 9"

definition known_signal :: "int \<Rightarrow> bool" where
  "known_signal n \<longleftrightarrow> n \<in> snd ` set signal_to_int_map"

definition wf_text :: "'d settings \<Rightarrow> bool" where
  "wf_text S \<longleftrightarrow>
     parts_in (s_command S) (s_command_offsets S) \<and> parts_in (s_stop_command S) (s_stop_command_offsets S) \<and>
     length (s_inittab_id S) \<le> ut_id_size \<and> length (s_inittab_line S) \<le> ut_line_size \<and>
     -1 \<le> s_readiness_fd S \<and> s_readiness_fd S < 2 ^ 31 \<and> s_secbits S < 64 \<and> wf_flags (s_onstart_flags S)"

definition wf_values :: "'d settings \<Rightarrow> bool" where
  "wf_values S \<longleftrightarrow>
     wf_time (s_restart_interval S) \<and> wf_time (s_restart_delay S) \<and> wf_time (s_stop_timeout S) \<and> wf_time (s_start_timeout S) \<and>
     0 \<le> s_max_restarts S \<and> s_max_restarts S < 2 ^ 31 \<and> 0 \<le> s_max_log_buffer_sz S \<and> s_max_log_buffer_sz S < 2 ^ 31 \<and>
     -(2 ^ 31) \<le> s_logfile_perms S \<and> s_logfile_perms S < 2 ^ 31 \<and> -(2 ^ 31) \<le> s_socket_perms S \<and> s_socket_perms S < 2 ^ 31 \<and>
     -(2 ^ 30) \<le> s_nice S \<and> s_nice S < 2 ^ 30 \<and> -1000 \<le> s_oom_adj S \<and> s_oom_adj S \<le> 1000 \<and>
     -1 \<le> s_ioprio S \<and> s_ioprio S < 2 ^ 15 \<and> known_signal (s_term_signal S)"

definition wf_settings :: "'d settings \<Rightarrow> bool" where
  "wf_settings S \<longleftrightarrow> wf_text S \<and> wf_values S \<and> distinct (map resource_id (s_rlimits S))"

text \<open>Updates of single fields: first those the predicate does not mention.\<close>

lemma wf_settings_frame [simp]:
  "wf_settings (S\<lparr>s_working_dir := v\<rparr>) = wf_settings S" "wf_settings (S\<lparr>s_pid_file := v\<rparr>) = wf_settings S"
  "wf_settings (S\<lparr>s_env_file := v\<rparr>) = wf_settings S" "wf_settings (S\<lparr>s_env_file_dir_fd := n\<rparr>) = wf_settings S"
  "wf_settings (S\<lparr>s_export_passwd_vars := b\<rparr>) = wf_settings S" "wf_settings (S\<lparr>s_export_service_name := b\<rparr>) = wf_settings S"
  "wf_settings (S\<lparr>s_service_type := ty\<rparr>) = wf_settings S" "wf_settings (S\<lparr>s_depends := ds\<rparr>) = wf_settings S"
  "wf_settings (S\<lparr>s_before_svcs := xs\<rparr>) = wf_settings S" "wf_settings (S\<lparr>s_after_svcs := xs\<rparr>) = wf_settings S"
  "wf_settings (S\<lparr>s_log_type := lt\<rparr>) = wf_settings S" "wf_settings (S\<lparr>s_logfile := v\<rparr>) = wf_settings S"
  "wf_settings (S\<lparr>s_logfile_uid := u\<rparr>) = wf_settings S" "wf_settings (S\<lparr>s_logfile_uid_gid := u\<rparr>) = wf_settings S"
  "wf_settings (S\<lparr>s_logfile_gid := u\<rparr>) = wf_settings S" "wf_settings (S\<lparr>s_auto_restart := ar\<rparr>) = wf_settings S"
  "wf_settings (S\<lparr>s_smooth_recovery := b\<rparr>) = wf_settings S" "wf_settings (S\<lparr>s_socket_path := v\<rparr>) = wf_settings S"
  "wf_settings (S\<lparr>s_socket_uid := u\<rparr>) = wf_settings S" "wf_settings (S\<lparr>s_socket_uid_gid := u\<rparr>) = wf_settings S"
  "wf_settings (S\<lparr>s_socket_gid := u\<rparr>) = wf_settings S" "wf_settings (S\<lparr>s_readiness_var := v\<rparr>) = wf_settings S"
  "wf_settings (S\<lparr>s_run_as_uid := u\<rparr>) = wf_settings S" "wf_settings (S\<lparr>s_run_as_uid_gid := u\<rparr>) = wf_settings S"
  "wf_settings (S\<lparr>s_run_as_gid := u\<rparr>) = wf_settings S" "wf_settings (S\<lparr>s_nice_is_set := b\<rparr>) = wf_settings S"
  "wf_settings (S\<lparr>s_chain_to_name := v\<rparr>) = wf_settings S" "wf_settings (S\<lparr>s_consumer_of_name := v\<rparr>) = wf_settings S"
  "wf_settings (S\<lparr>s_run_in_cgroup := v\<rparr>) = wf_settings S" "wf_settings (S\<lparr>s_capabilities := v\<rparr>) = wf_settings S"
  "wf_settings (S\<lparr>s_oom_adj_is_set := b\<rparr>) = wf_settings S"
  by (simp_all add: wf_settings_def wf_text_def wf_values_def)

text \<open>Then those it does.\<close>

lemma wf_settings_text:
  assumes "wf_settings S"
  shows "parts_in v ps \<Longrightarrow> wf_settings (S\<lparr>s_command := v, s_command_offsets := ps\<rparr>)"
    "parts_in v ps \<Longrightarrow> wf_settings (S\<lparr>s_stop_command := v, s_stop_command_offsets := ps\<rparr>)"
    "length v \<le> ut_id_size \<Longrightarrow> wf_settings (S\<lparr>s_inittab_id := v\<rparr>)"
    "length v \<le> ut_line_size \<Longrightarrow> wf_settings (S\<lparr>s_inittab_line := v\<rparr>)"
    "-1 \<le> n \<and> n < 2 ^ 31 \<Longrightarrow> wf_settings (S\<lparr>s_readiness_fd := n\<rparr>)"
    "b < 64 \<Longrightarrow> wf_settings (S\<lparr>s_secbits := b\<rparr>)"
    "wf_flags f \<Longrightarrow> wf_settings (S\<lparr>s_onstart_flags := f\<rparr>)"
    "distinct (map resource_id ls) \<Longrightarrow> wf_settings (S\<lparr>s_rlimits := ls\<rparr>)"
  using assms by (simp_all add: wf_settings_def wf_text_def wf_values_def)

lemma wf_settings_value:
  assumes "wf_settings S"
  shows "wf_time ts \<Longrightarrow> wf_settings (S\<lparr>s_restart_interval := ts\<rparr>)" "wf_time ts \<Longrightarrow> wf_settings (S\<lparr>s_restart_delay := ts\<rparr>)"
    "wf_time ts \<Longrightarrow> wf_settings (S\<lparr>s_stop_timeout := ts\<rparr>)" "wf_time ts \<Longrightarrow> wf_settings (S\<lparr>s_start_timeout := ts\<rparr>)"
    "0 \<le> n \<Longrightarrow> n \<le> 2147483647 \<Longrightarrow> wf_settings (S\<lparr>s_max_restarts := n\<rparr>)"
    "0 \<le> n \<Longrightarrow> n \<le> 2147483647 \<Longrightarrow> wf_settings (S\<lparr>s_max_log_buffer_sz := n\<rparr>)"
    "-2147483648 \<le> n \<Longrightarrow> n < 2147483648 \<Longrightarrow> wf_settings (S\<lparr>s_logfile_perms := n\<rparr>)"
    "-2147483648 \<le> n \<Longrightarrow> n < 2147483648 \<Longrightarrow> wf_settings (S\<lparr>s_socket_perms := n\<rparr>)"
    "-1073741824 \<le> n \<Longrightarrow> n \<le> 1073741823 \<Longrightarrow> wf_settings (S\<lparr>s_nice := n\<rparr>)"
    "-1000 \<le> n \<Longrightarrow> n \<le> 1000 \<Longrightarrow> wf_settings (S\<lparr>s_oom_adj := n\<rparr>)"
    "-1 \<le> n \<Longrightarrow> n < 32768 \<Longrightarrow> wf_settings (S\<lparr>s_ioprio := n\<rparr>)"
    "known_signal n \<Longrightarrow> wf_settings (S\<lparr>s_term_signal := n\<rparr>)"
  using assms by (simp_all add: wf_settings_def wf_text_def wf_values_def)

section \<open>The pieces of a line\<close>

text \<open>What holds of the result, if there is one.\<close>

definition gives :: "('a \<Rightarrow> bool) \<Rightarrow> 'a outcome \<Rightarrow> bool" where
  "gives P r \<longleftrightarrow> (\<forall>x. r = Done x \<longrightarrow> P x)"

lemma gives_simps [simp]: "gives P (Done x) = P x" "gives P (Throws e)" "gives P Overrun"
  by (simp_all add: gives_def)

lemma gives_bind: "(\<And>x. r = Done x \<Longrightarrow> gives P (f x)) \<Longrightarrow> gives P (bind_outcome r f)"
  by (cases r) simp_all

lemma gives_bind_prod: "(\<And>x y. r = Done (x, y) \<Longrightarrow> gives P (f x y)) \<Longrightarrow> gives P (bind_outcome r (\<lambda>(x, y). f x y))"
  by (cases r) auto

lemma gives_if: "(b \<Longrightarrow> gives P r) \<Longrightarrow> (\<not> b \<Longrightarrow> gives P r') \<Longrightarrow> gives P (if b then r else r')"
  by simp

lemma gives_iff: "(\<And>x. r = Done x \<Longrightarrow> P x) \<Longrightarrow> gives P r"
  by (simp add: gives_def)

lemma fold_outcome_inv:
  assumes "fold_outcome f xs s = Done s'" "P s" "\<And>x s s'. f x s = Done s' \<Longrightarrow> P s \<Longrightarrow> P s'"
  shows "P s'"
  using assms(1,2) by (induction xs arbitrary: s) (auto simp: bind_outcome_Done_iff intro: assms(3))

lemma set_option_wf: "set_option ln opt f = Done f' \<Longrightarrow> wf_flags f \<Longrightarrow> wf_flags f'"
  by (auto simp: set_option_def wf_flags_def split: if_splits)

lemma options_wf: "fold_outcome (set_option ln) ps f = Done f' \<Longrightarrow> wf_flags f \<Longrightarrow> wf_flags f'"
  by (rule fold_outcome_inv [of "set_option ln" ps f f' wf_flags]) (auto intro: set_option_wf)

lemma or_less_64: "(a :: nat) < 64 \<Longrightarrow> b < 64 \<Longrightarrow> a OR b < 64"
proof -
  assume "a < 64" "b < 64"
  then have "take_bit 6 a = a" "take_bit 6 b = b" by (simp_all add: take_bit_nat_eq_self_iff)
  then have "take_bit 6 (a OR b) = a OR b" by (simp only: take_bit_or)
  then show "a OR b < 64" by (simp only: take_bit_nat_eq_self_iff) simp
qed

lemma set_secbit_wf: "set_secbit ln s b = Done b' \<Longrightarrow> b < 64 \<Longrightarrow> b' < 64"
  by (auto simp: set_secbit_def secbit_of_def split: option.splits if_splits intro!: or_less_64)

lemma secbits_wf: "fold_outcome (set_secbit ln) ps b = Done b' \<Longrightarrow> b < 64 \<Longrightarrow> b' < 64"
  by (rule fold_outcome_inv [of "set_secbit ln" ps b b' "\<lambda>b. b < 64"]) (auto intro: set_secbit_wf)

lemma new_secbits_wf: "fold_outcome (set_secbit ln) ps 0 = Done b \<Longrightarrow> b < 64"
  by (erule secbits_wf) simp

lemma set_load_option_wf: "set_load_option ln opt S = Done S' \<Longrightarrow> wf_settings S \<Longrightarrow> wf_settings S'"
  by (auto simp: set_load_option_def split: if_splits)

lemma load_options_wf: "wf_settings S \<Longrightarrow> gives wf_settings (fold_outcome (set_load_option ln) ps S)"
  by (rule gives_iff, rule fold_outcome_inv [of "set_load_option ln" ps S _ wf_settings]) (auto intro: set_load_option_wf)

lemma parse_ioprio_range: "parse_ioprio ln s = Done n \<Longrightarrow> -1 \<le> n \<and> n < 2 ^ 15"
  by (auto simp: parse_ioprio_def ioprio_value_def bind_outcome_Done_iff split: if_splits dest!: parse_unum_range)

lemma parse_term_signal_range: "parse_term_signal name ln s = Done n \<Longrightarrow> known_signal n"
  by (auto simp: known_signal_def parse_term_signal_def signal_name_to_number_def Let_def split: if_splits option.splits dest!: map_of_SomeD intro: rev_image_eqI)

lemma parse_timespec_wf: "parse_timespec ln s name = Done ts \<Longrightarrow> wf_time ts"
  using parse_timespec_range by (simp only: wf_time_def)

lemma read_inittab_range: "read_inittab ln name sz s = Done w \<Longrightarrow> length w \<le> sz"
  by (auto simp: read_inittab_def split: if_splits)

lemma read_readiness_wf:
  assumes "wf_settings S"
  shows "gives wf_settings (read_readiness ln s S)"
  using assms wf_settings_text(5) [OF assms] parse_unum_range
  by (fastforce simp: read_readiness_def gives_def bind_outcome_Done_iff split: if_splits)

lemma read_rlimit_wf:
  assumes "read_rlimit ln name r txt S = Done S'" "wf_settings S"
  shows "wf_settings S'"
proof -
  obtain v ls where ls: "update_rlimits (parse_rlimit ln v name) r (s_rlimits S) = Done ls" and S: "S' = S\<lparr>s_rlimits := ls\<rparr>"
    using assms(1) by (auto simp: read_rlimit_def bind_outcome_Done_iff)
  have "map resource_id ls = (if r \<in> set (map resource_id (s_rlimits S)) then map resource_id (s_rlimits S) else map resource_id (s_rlimits S) @ [r])"
    by (rule update_rlimits_ids [OF parse_rlimit_id ls])
  moreover have "distinct (map resource_id (s_rlimits S))" using assms(2) by (simp add: wf_settings_def)
  ultimately show ?thesis using wf_settings_text(8) [OF assms(2)] by (simp add: S split: if_splits)
qed

section \<open>Whole lines\<close>

lemma wf_settings_parts:
  assumes "wf_settings S"
  shows "parts_in (s_command S) (s_command_offsets S)" "parts_in (s_stop_command S) (s_stop_command_offsets S)"
    "s_secbits S < 64" "wf_flags (s_onstart_flags S)"
  using assms by (simp_all add: wf_settings_def wf_text_def)

lemmas wf_text_rules = wf_settings_text wf_settings_parts read_setting_value_in read_inittab_range
lemmas range_rules = parse_unum_range parse_snum_range parse_perms_range [simplified] parse_ioprio_range [simplified] parse_term_signal_range

lemma apply_text_setting_wf:
  assumes wf: "wf_settings S"
  shows "gives wf_settings (apply_text_setting L i setting operation ln txt S)"
  unfolding apply_text_setting_def read_env_file_setting_def
  by (cases i; simp only: setting_id_t.case; (insert wf)?; ((rule gives_bind_prod gives_bind gives_if)+)?;
    auto intro: wf_text_rules read_readiness_wf load_options_wf options_wf secbits_wf new_secbits_wf split: option.split if_splits)

lemma apply_value_setting_wf:
  assumes wf: "wf_settings S"
  shows "gives wf_settings (apply_value_setting L i setting ln v S)"
  unfolding apply_value_setting_def
  by (cases i; simp only: setting_id_t.case; (insert wf)?; ((rule gives_bind_prod gives_bind gives_if)+)?;
    auto intro: wf_settings_value parse_timespec_wf dest: range_rules split: option.split)

lemma read_rlimit_gives: "wf_settings S \<Longrightarrow> gives wf_settings (read_rlimit ln name r txt S)"
  by (rule gives_iff) (rule read_rlimit_wf)

lemma add_dependency_wf: "wf_settings S \<Longrightarrow> gives wf_settings (fst (add_dependency cb ty dir name S st))"
  by (auto simp: add_dependency_def Let_def split: prod.split intro!: gives_bind)

lemma process_service_line_wf:
  assumes "wf_settings S"
  shows "gives wf_settings (fst (process_service_line cb L ln setting operation txt S st))"
  using assms
  by (auto simp: process_service_line_def split: option.split outcome.split
      intro!: gives_bind apply_text_setting_wf apply_value_setting_wf read_rlimit_gives add_dependency_wf)

text \<open>
  C32. A line of a service description keeps the settings well-formed, whatever its text and whatever
  the callbacks do: the arguments of the commands lie within the command texts, the console options
  do not contradict each other, times have less than a billion nanoseconds, every number fits its
  field, the termination signal is a known one, and no resource has two limits.
\<close>

theorem settings_stay_wf:
  assumes "wf_settings S" "process_service_line cb L ln setting operation txt S st = (Done S', st')"
  shows "wf_settings S'"
  using process_service_line_wf [OF assms(1), of cb L ln setting operation "txt" st] assms(2) by simp

lemma wf_new_settings: "wf_settings new_settings"
  by (simp add: wf_settings_def wf_text_def wf_values_def new_settings_def parts_in_def wf_flags_def no_flags_def wf_time_def
      known_signal_def signal_to_int_map_def SIGTERM_def ut_id_size_def ut_line_size_def)

definition sample_line_env :: line_env where
  "sample_line_env =
     \<lparr>le_name = ''web'', le_db = \<lparr>getpwnam = (\<lambda>_. Db_missing), getpwuid = (\<lambda>_. Db_missing), getgrnam = (\<lambda>_. Db_missing)\<rparr>, le_vars = sample_vars,
      le_dup = None, le_cap_ok = (\<lambda>_. True)\<rparr>"

definition no_callbacks :: "(nat, unit) callbacks" where
  "no_callbacks = \<lparr>cb_load = (\<lambda>_ st. (Throws System_error, st)), cb_dep_dir = (\<lambda>_ _ ds st. (Done ds, st))\<rparr>"

lemma sample_line:
  "process_service_line no_callbacks sample_line_env 1 ''restart-delay'' ASSIGN ''1.25'' new_settings () =
     (Done (new_settings\<lparr>s_restart_delay := (1, 250000000)\<rparr>), ())"
  by (simp add: process_service_line_def all_settings_def dependency_of_def rlimit_of_def is_text_setting_def plain_value_def
      read_setting_value_def c_isspace_def apply_value_setting_def parse_timespec_sample [simplified])

theorem settings_stay_wf_witness: "wf_settings (new_settings\<lparr>s_restart_delay := (1, 250000000)\<rparr> :: nat settings)"
  by (rule settings_stay_wf [OF wf_new_settings sample_line])

section \<open>Appending\<close>

lemma read_quoted_extent: "read_quoted ln val cs = Done (val', rest) \<Longrightarrow> (\<exists>w. val' = val @ w) \<and> length rest \<le> length cs"
  using read_quoted_longer read_quoted_shorter by blast

lemma read_parts_longer: "read_parts want ln part val parts s = Done (val', parts') \<Longrightarrow> \<exists>w. val' = val @ w"
proof (induction "length s" arbitrary: ln part val parts s rule: less_induct)
  case less
  show ?case
  proof (cases s)
    case (Cons c cs)
    have go: ?thesis if "read_parts want ln' part' (val @ w) parts2 r = Done (val', parts')" "length r < length s" for ln' part' w parts2 r
      using less.hyps [OF that(2,1)] by auto
    show ?thesis
      using less.prems Cons go
      by (auto simp: Let_def le_imp_less_Suc split: if_splits outcome.splits list.splits prod.splits
          dest!: read_quoted_extent skip_comment_shorter)
  qed (use less.prems in auto)
qed

text \<open>
  Although the table of settings admits \<open>+=\<close> for the capabilities, it is an assignment there: the
  earlier value is lost. For a command the earlier text is kept and continued.
\<close>

theorem capabilities_not_appended:
  "process_service_line cb L ln ''capabilities'' PLUSASSIGN txt S st = process_service_line cb L ln ''capabilities'' ASSIGN txt S st
   \<and> (process_service_line cb L ln ''command'' PLUSASSIGN txt S st = (Done S', st') \<longrightarrow> (\<exists>w. s_command S' = s_command S @ w))"
  by (auto simp: process_service_line_def all_settings_def dependency_of_def rlimit_of_def is_text_setting_def
     apply_text_setting_def read_setting_value_def bind_outcome_Done_iff split: prod.splits dest!: read_parts_longer)

definition sample_command :: "nat settings" where
  "sample_command = new_settings\<lparr>s_command := ''a'', s_command_offsets := [(0, 1)]\<rparr>"

lemma sample_append:
  "process_service_line no_callbacks sample_line_env 1 ''command'' PLUSASSIGN ''-v'' sample_command () =
     (Done (sample_command\<lparr>s_command := ''a -v'', s_command_offsets := [(0, 1), (2, 4)]\<rparr>), ())"
  by (simp add: process_service_line_def all_settings_def dependency_of_def rlimit_of_def is_text_setting_def
      apply_text_setting_def read_setting_value_def c_isspace_def sample_command_def)

theorem capabilities_not_appended_witness: "\<exists>w. ''a -v'' = s_command sample_command @ w"
  using capabilities_not_appended [THEN conjunct2, THEN mp, OF sample_append] by simp

end
