(* ===== verification/Settings_Finalise.thy ===== *)
theory Settings_Finalise
  imports Settings_Type Environment
begin

text \<open>
  What happens to the settings of a service once all lines have been read
  (\<^verbatim>\<open>service_settings_wrapper::finalise\<close>), and the user variables that are put into its environment
  (\<^verbatim>\<open>fill_environment_userinfo\<close>).

  Errors and lint go to functors of the caller, which may throw: the loader throws at the first error,
  the checking tool goes on. Here they are one function on a state of the caller's.
\<close>

section \<open>Reports\<close>

datatype report = Error_report string | Lint_report string

type_synonym 'r reporter = "report \<Rightarrow> 'r \<Rightarrow> 'r outcome"

definition report_if :: "'r reporter \<Rightarrow> bool \<Rightarrow> report \<Rightarrow> 'r \<Rightarrow> 'r outcome" where
  "report_if rep b m r = (if b then rep m r else Done r)"

definition report_each :: "'r reporter \<Rightarrow> (bool \<times> report) list \<Rightarrow> 'r \<Rightarrow> 'r outcome" where
  "report_each rep = fold_outcome (\<lambda>(b, m). report_if rep b m)"

text \<open>Settings that have no effect for a service that runs no process.\<close>

definition ignored_suffix :: string where
  "ignored_suffix = '' specified, but ignored for the specified (or default) service type.''"

definition ignored_suffix_was :: string where
  "ignored_suffix_was = '' was specified, but ignored for the specified (or default) service type.''"

definition ignored_settings :: "'d settings \<Rightarrow> (bool \<times> report) list" where
  "ignored_settings S =
     (let f = s_onstart_flags S
      in [(s_command S \<noteq> [], Lint_report ([CHR 0x27] @ ''command' '' @ tl ignored_suffix)),
          (s_stop_command S \<noteq> [], Lint_report ([CHR 0x27] @ ''stop-command' '' @ tl ignored_suffix)),
          (s_working_dir S \<noteq> [], Lint_report ([CHR 0x27] @ ''working-dir' '' @ tl ignored_suffix)),
          (s_run_in_cgroup S \<noteq> [], Lint_report ([CHR 0x27] @ ''run-in-cgroup' '' @ tl ignored_suffix)),
          (s_capabilities S \<noteq> [], Lint_report ([CHR 0x27] @ ''capabilities' '' @ tl ignored_suffix)),
          (s_secbits S \<noteq> 0, Lint_report ([CHR 0x27] @ ''securebits' '' @ tl ignored_suffix)),
          (s_run_as_uid S \<noteq> no_id, Lint_report ([CHR 0x27] @ ''run-as' '' @ tl ignored_suffix)),
          (s_socket_path S \<noteq> [], Lint_report ([CHR 0x27] @ ''socket-listen' '' @ tl ignored_suffix)),
          (s_inittab_id S \<noteq> [] \<or> s_inittab_line S \<noteq> [],
             Lint_report ([CHR 0x27] @ ''inittab_line' or 'inittab_id' '' @ tl ignored_suffix)),
          (signal_process_only f \<or> start_interruptible f,
             Lint_report ''signal options were specified, but ignored for the specified (or default) service type.''),
          (pass_cs_fd f, Lint_report (''option 'pass_cs_fd' '' @ tl ignored_suffix_was)),
          (skippable f, Lint_report (''option 'skippable' '' @ tl ignored_suffix_was)),
          (no_new_privs f, Lint_report (''option 'no_new_privs' '' @ tl ignored_suffix_was)),
          (s_log_type S \<noteq> LOG_NONE, Lint_report (''option 'log_type' '' @ tl ignored_suffix_was)),
          (s_nice_is_set S, Lint_report (''option 'nice' '' @ tl ignored_suffix_was)),
          (0 \<le> s_ioprio S, Lint_report (''option 'ioprio' '' @ tl ignored_suffix_was)),
          (s_oom_adj_is_set S, Lint_report (''option 'oom-score-adj' '' @ tl ignored_suffix_was))])"

definition log_lint :: "'d settings \<Rightarrow> (bool \<times> report) list" where
  "log_lint S =
     [(s_log_type S \<noteq> LOGFILE \<and> s_logfile S \<noteq> [], Lint_report (''option 'logfile' was specified, but selected log type is not 'file'' @ [CHR 0x27])),
      (s_log_type S = LOGFILE \<and> s_logfile S = [], Lint_report (''option 'logfile' not set, but selected log type is 'file'' @ [CHR 0x27]))]"

text \<open>The checks before the paths are resolved.\<close>

definition early_errors :: "'d settings \<Rightarrow> (bool \<times> report) list" where
  "early_errors S =
     [(s_service_type S = BGPROCESS \<and> s_pid_file S = [],
         Error_report ''process ID file ('pid-file') not specified for bgprocess service.''),
      (s_service_type S = BGPROCESS \<and> (s_readiness_fd S \<noteq> -1 \<or> s_readiness_var S \<noteq> []),
         Error_report ''readiness notification ('ready-notification') is not supported for bgprocess services.''),
      (kill_all_on_stop (s_onstart_flags S) \<and> s_service_type S \<noteq> INTERNAL \<and> s_service_type S \<noteq> SCRIPTED,
         Error_report ''kill-all-on-stop can only be set on scripted or internal services.'')]"

definition check_settings :: "'r reporter \<Rightarrow> bool \<Rightarrow> 'd settings \<Rightarrow> 'r \<Rightarrow> 'r outcome" where
  "check_settings rep lint S r =
     bind_outcome (report_if rep (s_service_type S \<in> {PROCESS, BGPROCESS, SCRIPTED} \<and> s_command S = [])
         (Error_report ([CHR 0x27] @ ''command' setting not specified.'')) r) (\<lambda>r.
       bind_outcome (report_each rep (if lint \<and> s_service_type S \<in> {INTERNAL, TRIGGERED} then ignored_settings S else []) r) (\<lambda>r.
         bind_outcome (report_each rep (if lint then log_lint S else []) r) (\<lambda>r.
           report_each rep (early_errors S) r)))"

section \<open>Paths\<close>

text \<open>
  A path with its variables replaced. A description error is thrown on (\<open>propagate\<close>) or reported; in
  that case the path stays as it was.
\<close>

definition resolve_path :: "'r reporter \<Rightarrow> bool \<Rightarrow> var_env \<Rightarrow> string \<Rightarrow> string \<Rightarrow> 'r \<Rightarrow> (string \<times> 'r) outcome" where
  "resolve_path rep propagate V name path r =
     (case value_var_subst (V\<lparr>var_setting := name\<rparr>) path [(0, length path)] of
        Done (v, _) \<Rightarrow> Done (v, r)
      | Throws (Setting_exc n msg) \<Rightarrow>
          if propagate then Throws (Setting_exc n msg)
          else bind_outcome (rep (Error_report (name @ '': '' @ msg)) r) (\<lambda>r. Done (path, r))
      | Throws e \<Rightarrow> Throws e
      | Overrun \<Rightarrow> Overrun)"

definition resolve_paths :: "'r reporter \<Rightarrow> bool \<Rightarrow> var_env \<Rightarrow> 'd settings \<Rightarrow> 'r \<Rightarrow> ('d settings \<times> 'r) outcome" where
  "resolve_paths rep propagate V S r =
     bind_outcome (resolve_path rep propagate V ''socket-listen'' (s_socket_path S) r) (\<lambda>(v, r).
       let S = S\<lparr>s_socket_path := v\<rparr>
       in bind_outcome (resolve_path rep propagate V ''logfile'' (s_logfile S) r) (\<lambda>(v, r).
         let S = S\<lparr>s_logfile := v\<rparr>
         in bind_outcome (resolve_path rep propagate V ''working-dir'' (s_working_dir S) r) (\<lambda>(v, r).
           let S = S\<lparr>s_working_dir := v\<rparr>
           in bind_outcome (resolve_path rep propagate V ''pid-file'' (s_pid_file S) r) (\<lambda>(v, r).
             Done (S\<lparr>s_pid_file := v\<rparr>, r)))))"

section \<open>Ids\<close>

text \<open>The user and group the service manager runs as, and whether supplementary groups are supported.\<close>

record own_ids =
  own_uid :: nat
  own_gid :: nat
  use_initgroups :: bool

definition settle_ids :: "own_ids \<Rightarrow> 'd settings \<Rightarrow> 'd settings" where
  "settle_ids I S =
     (let S = (if s_socket_gid S = no_id then S\<lparr>s_socket_gid := s_socket_uid_gid S\<rparr> else S);
          S = (if s_logfile_uid S = no_id then S\<lparr>s_logfile_uid := own_uid I\<rparr> else S);
          S = (if s_logfile_gid S = no_id then S\<lparr>s_logfile_gid := s_logfile_uid_gid S\<rparr> else S);
          S = (if s_logfile_gid S = no_id then S\<lparr>s_logfile_gid := own_gid I\<rparr> else S)
      in if use_initgroups I then
           (if s_run_as_uid_gid S = no_id \<and> s_run_as_gid S = no_id then S\<lparr>s_run_as_gid := own_gid I\<rparr> else S)
         else
           (if s_run_as_gid S = no_id then S\<lparr>s_run_as_gid := s_run_as_uid_gid S\<rparr> else S))"

definition drop_unused_logfile :: "'d settings \<Rightarrow> 'd settings" where
  "drop_unused_logfile S = (if s_log_type S \<noteq> LOGFILE then S\<lparr>s_logfile := []\<rparr> else S)"

definition finalise ::
  "'r reporter \<Rightarrow> bool \<Rightarrow> bool \<Rightarrow> own_ids \<Rightarrow> var_env \<Rightarrow> 'd settings \<Rightarrow> 'r \<Rightarrow> ('d settings \<times> 'r) outcome" where
  "finalise rep propagate lint I V S r =
     bind_outcome (check_settings rep lint S r) (\<lambda>r.
       bind_outcome (resolve_paths rep propagate V S r) (\<lambda>(S, r).
         let S = drop_unused_logfile (settle_ids I S)
         in bind_outcome (report_if rep (s_service_type S \<notin> {PROCESS, BGPROCESS} \<and> s_consumer_of_name S \<noteq> [])
               (Error_report ''only a process or bgprocess service can be a log consumer ('consumer-of') another service.'') r)
             (\<lambda>r. Done (S, r))))"

section \<open>User variables\<close>

definition set_plain :: "string list \<Rightarrow> string \<Rightarrow> string \<Rightarrow> environment \<Rightarrow> environment" where
  "set_plain environ n v env = snd (set_var environ (n @ CHR ''='' # v) False env)"

definition fill_environment_userinfo :: "user_db \<Rightarrow> nat \<Rightarrow> string list \<Rightarrow> nat \<Rightarrow> environment \<Rightarrow> environment outcome" where
  "fill_environment_userinfo db euid environ uid env =
     (let uid = (if uid = no_id then euid else uid)
      in case getpwuid db uid of
           Db_missing \<Rightarrow>
             Throws (Load_exc (''user id '' @ [CHR 0x27] @ to_dec_digits (int uid) @ [CHR 0x27] @ '' does not exist in system database''))
         | Db_error e \<Rightarrow> Throws (Load_exc (''error accessing user database: '' @ e))
         | Db_entry p \<Rightarrow>
             Done (set_plain environ ''GID'' (to_dec_digits (int (pw_gid p)))
               (set_plain environ ''UID'' (to_dec_digits (int (pw_uid p)))
                 (set_plain environ ''SHELL'' (pw_shell p)
                   (set_plain environ ''HOME'' (pw_dir p)
                     (set_plain environ ''LOGNAME'' (pw_name p) (set_plain environ ''USER'' (pw_name p) env)))))))"

section \<open>What the loader accepts\<close>

text \<open>The loader throws at the first error and does not ask for lint.\<close>

definition loader_report :: "unit reporter" where
  "loader_report m r = (case m of Error_report s \<Rightarrow> Throws (Load_exc s) | Lint_report s \<Rightarrow> Done r)"

definition acceptable :: "'d settings \<Rightarrow> bool" where
  "acceptable S \<longleftrightarrow>
     (s_service_type S \<in> {PROCESS, BGPROCESS, SCRIPTED} \<longrightarrow> s_command S \<noteq> []) \<and>
     (s_service_type S = BGPROCESS \<longrightarrow> s_readiness_fd S = -1 \<and> s_readiness_var S = []) \<and>
     (kill_all_on_stop (s_onstart_flags S) \<longrightarrow> s_service_type S \<in> {INTERNAL, SCRIPTED}) \<and>
     (s_consumer_of_name S \<noteq> [] \<longrightarrow> s_service_type S \<in> {PROCESS, BGPROCESS})"

lemma report_each_Nil [simp]: "report_each rep [] r = Done r"
  by (simp add: report_each_def)

lemma report_if_loader: "report_if loader_report b (Error_report m) () = Done () \<longleftrightarrow> \<not> b"
  by (simp add: report_if_def loader_report_def)

lemma early_errors_loader:
  "report_each loader_report (early_errors S) () = Done () \<longleftrightarrow>
     (s_service_type S = BGPROCESS \<longrightarrow> s_pid_file S \<noteq> [] \<and> s_readiness_fd S = -1 \<and> s_readiness_var S = []) \<and>
     (kill_all_on_stop (s_onstart_flags S) \<longrightarrow> s_service_type S \<in> {INTERNAL, SCRIPTED})"
  by (auto simp: report_each_def early_errors_def bind_outcome_Done_iff report_if_loader)

lemma check_settings_loader:
  "check_settings loader_report False S () = Done () \<longleftrightarrow>
     (s_service_type S \<in> {PROCESS, BGPROCESS, SCRIPTED} \<longrightarrow> s_command S \<noteq> []) \<and>
     (s_service_type S = BGPROCESS \<longrightarrow> s_pid_file S \<noteq> [] \<and> s_readiness_fd S = -1 \<and> s_readiness_var S = []) \<and>
     (kill_all_on_stop (s_onstart_flags S) \<longrightarrow> s_service_type S \<in> {INTERNAL, SCRIPTED})"
  by (auto simp: check_settings_def bind_outcome_Done_iff report_if_loader early_errors_loader)

lemma settle_ids_frame [simp]:
  "s_service_type (settle_ids I S) = s_service_type S" "s_consumer_of_name (settle_ids I S) = s_consumer_of_name S"
  "s_log_type (settle_ids I S) = s_log_type S" "s_logfile (settle_ids I S) = s_logfile S" "s_command (settle_ids I S) = s_command S"
  "s_readiness_fd (settle_ids I S) = s_readiness_fd S" "s_readiness_var (settle_ids I S) = s_readiness_var S"
  "s_onstart_flags (settle_ids I S) = s_onstart_flags S" "s_pid_file (settle_ids I S) = s_pid_file S"
  "wf_settings (settle_ids I S) = wf_settings S"
  by (simp_all add: settle_ids_def Let_def)

lemma drop_unused_logfile_frame [simp]:
  "s_service_type (drop_unused_logfile S) = s_service_type S" "s_consumer_of_name (drop_unused_logfile S) = s_consumer_of_name S"
  "acceptable (drop_unused_logfile S) = acceptable S" "wf_settings (drop_unused_logfile S) = wf_settings S"
  "s_logfile_uid (drop_unused_logfile S) = s_logfile_uid S" "s_logfile_gid (drop_unused_logfile S) = s_logfile_gid S"
  "s_log_type (drop_unused_logfile S) = s_log_type S" "s_pid_file (drop_unused_logfile S) = s_pid_file S"
  "s_logfile (drop_unused_logfile S) \<noteq> [] \<Longrightarrow> s_log_type S = LOGFILE"
  by (auto simp: drop_unused_logfile_def acceptable_def split: if_splits)

lemma settle_ids_acceptable [simp]: "acceptable (settle_ids I S) = acceptable S"
  by (simp add: acceptable_def)

lemma finalise_loader:
  "finalise loader_report True False I V S () = Done (S', r) \<longleftrightarrow>
     (\<exists>S1. check_settings loader_report False S () = Done () \<and> resolve_paths loader_report True V S () = Done (S1, ()) \<and>
       S' = drop_unused_logfile (settle_ids I S1) \<and> (s_consumer_of_name S1 \<noteq> [] \<longrightarrow> s_service_type S1 \<in> {PROCESS, BGPROCESS}))"
  by (auto simp: finalise_def bind_outcome_Done_iff Let_def report_if_loader)

lemma settle_ids_owner:
  assumes "own_uid I \<noteq> no_id" "own_gid I \<noteq> no_id"
  shows "s_logfile_uid (settle_ids I S) \<noteq> no_id" "s_logfile_gid (settle_ids I S) \<noteq> no_id"
  using assms by (simp_all add: settle_ids_def Let_def)

lemma resolve_paths_loader:
  assumes "resolve_paths loader_report True V S () = Done (S', r)"
  shows "\<exists>sp lf wd pf. S' = S\<lparr>s_socket_path := sp, s_logfile := lf, s_working_dir := wd, s_pid_file := pf\<rparr>"
  using assms by (auto simp: resolve_paths_def bind_outcome_Done_iff Let_def)


lemma no_dollar: "value_var_subst V [] offs = Done ([], offs)"
  by (simp add: value_var_subst_def)

lemma unset_variable:
  assumes "var_resolve V ''PIDFILE'' = None"
  shows "value_var_subst V ''$PIDFILE'' [(0, length ''$PIDFILE'')] = Done ([], [(0, 0)])"
proof -
  have n: "read_config_name True (length ''PIDFILE'') ''PIDFILE'' = (''PIDFILE'', False, [])" by code_simp
  have r: "read_reference V (length ''PIDFILE'') ''PIDFILE'' = Done (False, [], [])"
    using n by (simp add: read_reference_def read_named_def char_at_def resolve_reference_def assms)
  show ?thesis
    using r by (simp add: value_var_subst_def subst_part.simps start_state_def adjust_def INT_MAX_def char_at_def)
qed

lemma unset_pid_file_passes:
  assumes "s_service_type S = BGPROCESS" "s_command S \<noteq> []" "s_readiness_fd S = -1" "s_readiness_var S = []"
    and "\<not> kill_all_on_stop (s_onstart_flags S)" "s_socket_path S = []" "s_logfile S = []" "s_working_dir S = []"
    and "s_pid_file S = ''$PIDFILE''" "var_resolve V ''PIDFILE'' = None"
  shows "\<exists>S'. finalise loader_report True False I V S () = Done (S', ()) \<and> s_service_type S' = BGPROCESS \<and> s_pid_file S' = []"
proof -
  have "resolve_paths loader_report True V S () = Done (S\<lparr>s_socket_path := [], s_logfile := [], s_working_dir := [], s_pid_file := []\<rparr>, ())"
    using assms unset_variable [of "V\<lparr>var_setting := ''pid-file''\<rparr>"]
    by (simp add: resolve_paths_def resolve_path_def no_dollar Let_def)
  then show ?thesis using assms by (simp add: finalise_loader check_settings_loader)
qed

text \<open>
  The check that a background process has a pid file is made before variables are replaced: a pid
  file that is named by an unset variable passes it, and the service is loaded without a pid file.
\<close>

theorem unset_pid_file_accepted:
  assumes "s_service_type S = BGPROCESS" "s_command S \<noteq> []" "s_readiness_fd S = -1" "s_readiness_var S = []"
    and "\<not> kill_all_on_stop (s_onstart_flags S)" "s_socket_path S = []" "s_logfile S = []" "s_working_dir S = []"
    and "s_pid_file S = ''$PIDFILE''" "var_resolve V ''PIDFILE'' = None"
  shows "\<exists>S'. finalise loader_report True False I V S () = Done (S', ()) \<and> s_service_type S' = BGPROCESS \<and> s_pid_file S' = []"
  using assms by (rule unset_pid_file_passes)

definition sample_background :: "nat settings" where
  "sample_background = new_settings\<lparr>s_service_type := BGPROCESS, s_command := ''a'', s_command_offsets := [(0, 1)], s_pid_file := ''$PIDFILE''\<rparr>"

definition sample_ids :: own_ids where
  "sample_ids = \<lparr>own_uid = 0, own_gid = 0, use_initgroups = True\<rparr>"

lemma sample_background_fields:
  "s_service_type sample_background = BGPROCESS" "s_command sample_background \<noteq> []" "s_readiness_fd sample_background = -1"
  "s_readiness_var sample_background = []" "\<not> kill_all_on_stop (s_onstart_flags sample_background)"
  "s_socket_path sample_background = []" "s_logfile sample_background = []" "s_working_dir sample_background = []"
  "s_pid_file sample_background = ''$PIDFILE''" "var_resolve sample_vars ''PIDFILE'' = None"
  by (simp_all add: sample_background_def new_settings_def no_flags_def sample_vars_def)

theorem unset_pid_file_accepted_witness:
  "\<exists>S'. finalise loader_report True False sample_ids sample_vars sample_background () = Done (S', ()) \<and>
    s_service_type S' = BGPROCESS \<and> s_pid_file S' = []"
  by (rule unset_pid_file_accepted [OF sample_background_fields])


end
