(* ===== verification/File_Paths.thy ===== *)
theory File_Paths
  imports Setting_Params
begin

text \<open>
  Path names and opening a file together with its real parent directory (\<^verbatim>\<open>combine_paths\<close>,
  \<^verbatim>\<open>parent_path\<close>, \<^verbatim>\<open>base_name\<close>, \<^verbatim>\<open>readlink_at_str\<close> and \<^verbatim>\<open>open_with_dir\<close> of \<^verbatim>\<open>dinit-util.h\<close>). The operating
  system answers from an oracle that is consulted with the number of the call; descriptors that are
  opened and closed are recorded.
\<close>

section \<open>Path names\<close>

definition combine_paths :: "string \<Rightarrow> string \<Rightarrow> string" where
  "combine_paths p1 p2 =
     (if p2 = [] then p1
      else if p1 = [] then p2
      else if hd p2 = CHR ''/'' then p2
      else if last p1 = CHR ''/'' then p1 @ p2
      else p1 @ ''/'' @ p2)"

definition base_name :: "string \<Rightarrow> string" where
  "base_name p = rev (takeWhile (\<lambda>c. c \<noteq> CHR ''/'') (rev p))"

text \<open>The path up to the last slash, without the slashes at its end unless there is nothing else.\<close>

definition parent_path :: "string \<Rightarrow> string" where
  "parent_path p =
     (let upto = rev (dropWhile (\<lambda>c. c \<noteq> CHR ''/'') (rev p));
          dir = rev (dropWhile (\<lambda>c. c = CHR ''/'') (rev upto))
      in if upto = [] then [] else if dir = [] then ''/'' else dir)"

lemma base_name_no_slash: "CHR ''/'' \<notin> set (base_name p)"
  by (auto simp: base_name_def dest: set_takeWhileD)

lemma path_split: "p = rev (dropWhile (\<lambda>c. c \<noteq> CHR ''/'') (rev p)) @ base_name p"
  by (metis base_name_def rev_append rev_rev_ident takeWhile_dropWhile_id)

text \<open>A path whose directory part has no doubled slash at its end is put together again from its pieces.\<close>

lemma combine_split:
  assumes "\<And>q. p \<noteq> q @ ''//'' @ base_name p" "base_name p \<noteq> []"
  shows "combine_paths (parent_path p) (base_name p) = p"
proof -
  let ?P = "\<lambda>c. c = CHR ''/''"
  define upto where "upto = rev (dropWhile (\<lambda>c. \<not> ?P c) (rev p))"
  have p: "p = upto @ base_name p" using path_split by (simp add: upto_def)
  have b: "hd (base_name p) \<noteq> CHR ''/''" using base_name_no_slash [of p] assms(2) by (metis list.set_sel(1))
  show ?thesis
  proof (cases upto rule: rev_cases)
    case Nil
    then have "parent_path p = []" using upto_def by (simp add: parent_path_def)
    then show ?thesis using p Nil assms(2) by (simp add: combine_paths_def)
  next
    case (snoc r c)
    have "dropWhile (\<lambda>c. \<not> ?P c) (rev p) = c # rev r" using snoc upto_def by (metis rev_eq_Cons_iff rev_rev_ident)
    then have c: "c = CHR ''/''" using hd_dropWhile [of "\<lambda>c. \<not> ?P c" "rev p"] by auto
    have r: "r = [] \<or> last r \<noteq> CHR ''/''"
    proof (cases r rule: rev_cases)
      case (snoc r' d)
      then show ?thesis using assms(1) [of r'] p \<open>upto = r @ [c]\<close> c by auto
    qed simp
    have "rev (dropWhile ?P (rev upto)) = r" using r snoc c by (cases r rule: rev_cases) auto
    then have "parent_path p = (if r = [] then ''/'' else r)"
      using snoc by (simp add: parent_path_def upto_def [symmetric] del: rev_is_Nil_conv)
    moreover have "p = r @ CHR ''/'' # base_name p" using p snoc c by simp
    ultimately show ?thesis using r b assms(2) by (auto simp: combine_paths_def)
  qed
qed

section \<open>Opening\<close>

datatype fd_event = Fd_open int | Fd_close int

record open_state =
  open_calls :: nat
  fd_events :: "fd_event list"

text \<open>The answers: an error number on the left, a descriptor or a link text on the right.\<close>

record open_os =
  sys_open_dir :: "nat \<Rightarrow> int \<Rightarrow> string \<Rightarrow> int + int"
  sys_open_file :: "nat \<Rightarrow> int \<Rightarrow> string \<Rightarrow> int + int"
  sys_readlink :: "nat \<Rightarrow> int \<Rightarrow> string \<Rightarrow> int + string"
  sys_dup :: "nat \<Rightarrow> int \<Rightarrow> int + int"
  symloop_max :: int

definition AT_FDCWD :: int where "AT_FDCWD = -100"
definition ENOENT :: int where "ENOENT = 2"
definition ELOOP :: int where "ELOOP = 40"

definition close_if :: "bool \<Rightarrow> int \<Rightarrow> open_state \<Rightarrow> open_state" where
  "close_if b fd s = (if b then s\<lparr>fd_events := fd_events s @ [Fd_close fd]\<rparr> else s)"

text \<open>A call that yields a descriptor or an error, and one that yields something else.\<close>

definition open_call :: "(nat \<Rightarrow> int + int) \<Rightarrow> open_state \<Rightarrow> (int + int) \<times> open_state" where
  "open_call f s =
     (case f (open_calls s) of
        Inl e \<Rightarrow> (Inl e, s\<lparr>open_calls := Suc (open_calls s)\<rparr>)
      | Inr fd \<Rightarrow> (Inr fd, s\<lparr>open_calls := Suc (open_calls s), fd_events := fd_events s @ [Fd_open fd]\<rparr>))"

definition other_call :: "(nat \<Rightarrow> int + 'a) \<Rightarrow> open_state \<Rightarrow> (int + 'a) \<times> open_state" where
  "other_call f s = (f (open_calls s), s\<lparr>open_calls := Suc (open_calls s)\<rparr>)"

text \<open>The directory part and the base name of a link text; nothing if it ends in a slash.\<close>

definition link_target :: "string \<Rightarrow> (string \<times> string) option" where
  "link_target path =
     (let b = base_name path
      in if b = path then Some ([], b)
         else if b = [] then None
         else
           (let dir = parent_path (take (length path - length b) path)
            in Some (if length dir = 1 then ''/'' else dir, b)))"

text \<open>The parent directory: the one the path starts from, or a directory below it that is opened.\<close>

definition open_parent :: "open_os \<Rightarrow> string \<Rightarrow> int \<Rightarrow> bool \<Rightarrow> open_state \<Rightarrow> (int + int \<times> bool) \<times> open_state" where
  "open_parent os dirname resolve_fd close_resolve s =
     (if dirname = [] then (Inr (resolve_fd, close_resolve), s)
      else
        (let (r, s) = open_call (\<lambda>n. sys_open_dir os n resolve_fd dirname) s;
             s = close_if close_resolve resolve_fd s
         in case r of Inl e \<Rightarrow> (Inl e, s) | Inr fd \<Rightarrow> (Inr (fd, True), s)))"

text \<open>A descriptor of its own for the parent directory, if there is none yet.\<close>

definition settle_parent :: "open_os \<Rightarrow> int \<Rightarrow> bool \<Rightarrow> int \<Rightarrow> open_state \<Rightarrow> (int \<times> int) \<times> open_state" where
  "settle_parent os parent close_parent file s =
     (if close_parent then ((parent, file), s)
      else
        (let (r, s) = open_call (\<lambda>n. if parent = AT_FDCWD then sys_open_dir os n AT_FDCWD ''.'' else sys_dup os n parent) s
         in case r of
              Inl e \<Rightarrow> ((-1, e), close_if True file s)
            | Inr fd \<Rightarrow> ((fd, file), s)))"

fun open_links :: "nat \<Rightarrow> open_os \<Rightarrow> int \<Rightarrow> string \<Rightarrow> string \<Rightarrow> int \<Rightarrow> bool \<Rightarrow> open_state \<Rightarrow> ((int \<times> int) \<times> open_state) option" where
  "open_links 0 os link_resolve_times dirname basename resolve_fd close_resolve s = None"
| "open_links (Suc n) os link_resolve_times dirname basename resolve_fd close_resolve s =
     (case open_parent os dirname resolve_fd close_resolve s of
        (Inl e, s) \<Rightarrow> Some ((-1, e), s)
      | (Inr (parent, close_parent), s) \<Rightarrow>
          (case open_call (\<lambda>k. sys_open_file os k parent basename) s of
             (Inr file, s) \<Rightarrow> Some (settle_parent os parent close_parent file s)
           | (Inl e, s) \<Rightarrow>
               if e \<noteq> ELOOP then Some ((-1, e), close_if close_parent parent s)
               else if link_resolve_times = 0 then Some ((-1, ELOOP), close_if close_parent parent s)
               else
                 (case other_call (\<lambda>k. sys_readlink os k parent basename) s of
                    (Inl e, s) \<Rightarrow> Some ((-1, e), close_if close_parent parent s)
                  | (Inr path, s) \<Rightarrow>
                      (case link_target path of
                         None \<Rightarrow> Some ((-1, ENOENT), close_if close_parent parent s)
                       | Some (dirname, basename) \<Rightarrow> open_links n os (link_resolve_times - 1) dirname basename parent True s))))"

definition open_with_dir :: "nat \<Rightarrow> open_os \<Rightarrow> string \<Rightarrow> string \<Rightarrow> int \<Rightarrow> open_state \<Rightarrow> ((int \<times> int) \<times> open_state) option" where
  "open_with_dir n os dirname basename resolve_fd s = open_links n os (symloop_max os) dirname basename resolve_fd False s"

section \<open>Descriptors\<close>

text \<open>How many times more a descriptor has been opened than closed.\<close>

fun fd_net :: "int \<Rightarrow> fd_event list \<Rightarrow> int" where
  "fd_net fd [] = 0"
| "fd_net fd (Fd_open x # es) = (if x = fd then 1 else 0) + fd_net fd es"
| "fd_net fd (Fd_close x # es) = (if x = fd then -1 else 0) + fd_net fd es"

lemma fd_net_append [simp]: "fd_net fd (a @ b) = fd_net fd a + fd_net fd b"
  by (induction fd a rule: fd_net.induct) simp_all

definition holds_fd :: "bool \<Rightarrow> int \<Rightarrow> int \<Rightarrow> int" where
  "holds_fd b x fd = (if b \<and> x = fd then 1 else 0)"

abbreviation net_of :: "open_state \<Rightarrow> int \<Rightarrow> int" where
  "net_of s fd \<equiv> fd_net fd (fd_events s)"

lemma net_close_if [simp]: "net_of (close_if b x s) fd = net_of s fd - holds_fd b x fd"
  by (simp add: close_if_def holds_fd_def)

lemma net_open_call:
  "open_call f s = (Inl e, s') \<Longrightarrow> net_of s' fd = net_of s fd"
  "open_call f s = (Inr x, s') \<Longrightarrow> net_of s' fd = net_of s fd + holds_fd True x fd"
  by (auto simp: open_call_def holds_fd_def split: sum.splits)

lemma net_other_call: "other_call f s = (r, s') \<Longrightarrow> net_of s' fd = net_of s fd"
  by (auto simp: other_call_def)

lemma net_open_parent:
  "open_parent os dirname rfd c s = (Inl e, s') \<Longrightarrow> net_of s' fd = net_of s fd - holds_fd c rfd fd"
  "open_parent os dirname rfd c s = (Inr (p, c'), s') \<Longrightarrow> net_of s' fd = net_of s fd - holds_fd c rfd fd + holds_fd c' p fd"
  "open_parent os dirname rfd c s = (Inr (p, c'), s') \<Longrightarrow> c' = (c \<or> dirname \<noteq> [])"
  by (auto simp: open_parent_def Let_def split: if_splits prod.splits sum.splits dest!: net_open_call(1) [of _ _ _ _ fd] net_open_call(2) [of _ _ _ _ fd])

text \<open>What the caller holds afterwards: the two descriptors of a success, or nothing.\<close>

definition result_fds :: "int \<times> int \<Rightarrow> int \<Rightarrow> int" where
  "result_fds r fd = (if fst r = -1 then 0 else holds_fd True (fst r) fd + holds_fd True (snd r) fd)"

text \<open>Descriptors are not negative.\<close>

definition proper_os :: "open_os \<Rightarrow> bool" where
  "proper_os os \<longleftrightarrow>
     (\<forall>n d x fd. sys_open_dir os n d x = Inr fd \<longrightarrow> 0 \<le> fd) \<and> (\<forall>n d x fd. sys_open_file os n d x = Inr fd \<longrightarrow> 0 \<le> fd) \<and>
     (\<forall>n x fd. sys_dup os n x = Inr fd \<longrightarrow> 0 \<le> fd)"

lemma open_call_result: "open_call f s = (Inr x, s') \<Longrightarrow> \<exists>k. f k = Inr x"
  by (auto simp: open_call_def split: sum.splits)

lemma open_parent_proper:
  "open_parent os dirname rfd c s = (Inr (p, c'), s') \<Longrightarrow> proper_os os \<Longrightarrow> c \<longrightarrow> rfd \<noteq> -1 \<Longrightarrow> c' \<longrightarrow> p \<noteq> -1"
  by (fastforce simp: open_parent_def proper_os_def Let_def split: if_splits prod.splits sum.splits dest!: open_call_result)

lemma net_settle_parent:
  assumes "settle_parent os p c file s = (r, s')" "proper_os os" "c \<longrightarrow> p \<noteq> -1" "0 \<le> file"
  shows "net_of s' fd = net_of s fd - holds_fd c p fd - holds_fd True file fd + result_fds r fd"
proof (cases c)
  case True
  then show ?thesis using assms by (auto simp: settle_parent_def result_fds_def)
next
  case False
  show ?thesis
  proof (cases "open_call (\<lambda>n. if p = AT_FDCWD then sys_open_dir os n AT_FDCWD ''.'' else sys_dup os n p) s")
    case (Pair q s1)
    show ?thesis
    proof (cases q)
      case (Inl e)
      with Pair False assms(1) net_open_call(1) [OF Pair [unfolded Inl], of fd] show ?thesis
        by (auto simp: settle_parent_def result_fds_def holds_fd_def)
    next
      case (Inr x)
      have "x \<noteq> -1" using open_call_result [OF Pair [unfolded Inr]] assms(2) by (fastforce simp: proper_os_def split: if_splits)
      with Pair Inr False assms(1) net_open_call(2) [OF Pair [unfolded Inr], of fd] show ?thesis
        by (auto simp: settle_parent_def result_fds_def holds_fd_def)
    qed
  qed
qed

lemma open_links_net:
  assumes "open_links n os t dirname bname rfd c s = Some (r, s')" "proper_os os" "c \<longrightarrow> rfd \<noteq> -1"
    and "c \<or> dirname \<noteq> [] \<or> (\<forall>k. sys_open_file os k rfd bname \<noteq> Inl ELOOP)"
  shows "net_of s' fd = net_of s fd - holds_fd c rfd fd + result_fds r fd"
  using assms
proof (induction n arbitrary: t dirname bname rfd c s)
  case (Suc n)
  obtain q s1 where q: "open_parent os dirname rfd c s = (q, s1)" by fastforce
  show ?case
  proof (cases q)
    case (Inl e)
    then show ?thesis using Suc.prems q net_open_parent(1) [of os dirname rfd c s e s1 fd] by (auto simp: result_fds_def)
  next
    case (Inr pc)
    obtain p c' where pc: "pc = (p, c')" by fastforce
    note q = q [unfolded Inr pc]
    note n1 = net_open_parent(2) [OF q, of fd] and c' = net_open_parent(3) [OF q]
    have pr: "c' \<longrightarrow> p \<noteq> -1" using open_parent_proper [OF q Suc.prems(2,3)] .
    obtain f s2 where f: "open_call (\<lambda>k. sys_open_file os k p bname) s1 = (f, s2)" by fastforce
    show ?thesis
    proof (cases f)
      case (Inr fl)
      have "0 \<le> fl" using open_call_result [OF f [unfolded Inr]] Suc.prems(2) by (auto simp: proper_os_def)
      moreover have "settle_parent os p c' fl s2 = (r, s')" using Suc.prems(1) q f Inr by simp
      ultimately show ?thesis
        using net_settle_parent [of os p c' fl s2 r s' fd] Suc.prems(2) pr n1 net_open_call(2) [OF f [unfolded Inr], of fd] by simp
    next
      case (Inl e)
      note n2 = net_open_call(1) [OF f [unfolded Inl], of fd]
      show ?thesis
      proof (cases "e = ELOOP \<and> t \<noteq> 0")
        case False
        then show ?thesis using Suc.prems(1) q f Inl n1 n2 by (auto simp: result_fds_def split: if_splits)
      next
        case True
        obtain l s3 where l: "other_call (\<lambda>k. sys_readlink os k p bname) s2 = (l, s3)" by fastforce
        note n3 = net_other_call [OF l, of fd]
        have "\<exists>k. sys_open_file os k p bname = Inl ELOOP"
          using f Inl True by (auto simp: open_call_def split: sum.splits)
        then have cc: c' using Suc.prems(4) c' q by (auto simp: open_parent_def)
        show ?thesis
        proof (cases l)
          case (Inl e')
          then show ?thesis using Suc.prems(1) q f \<open>f = Inl e\<close> True l n1 n2 n3 by (auto simp: result_fds_def)
        next
          case (Inr path)
          show ?thesis
          proof (cases "link_target path")
            case None
            then show ?thesis using Suc.prems(1) q f \<open>f = Inl e\<close> True l Inr n1 n2 n3 by (auto simp: result_fds_def)
          next
            case (Some db)
            obtain d b where "db = (d, b)" by fastforce
            then have "open_links n os (t - 1) d b p True s3 = Some (r, s')"
              using Suc.prems(1) q f \<open>f = Inl e\<close> True l Inr Some by simp
            then show ?thesis using Suc.IH [of "t - 1" d b p True s3] Suc.prems(2) pr cc n1 n2 n3 by simp
          qed
        qed
      qed
    qed
  qed
qed simp

section \<open>Links into a directory with a name of one letter\<close>

text \<open>
  A parent path of length one is taken for the root directory. The target of a relative link into a
  directory with a name of one letter is therefore looked for in the root directory.
\<close>

theorem one_letter_dir_taken_for_root:
  assumes "c \<noteq> CHR ''/''" "CHR ''/'' \<notin> set b" "b \<noteq> []"
  shows "link_target ([c] @ ''/'' @ b) = Some (''/'', b)"
proof -
  have "takeWhile (\<lambda>x. x \<noteq> CHR ''/'') (rev b @ CHR ''/'' # [c]) = rev b"
    using assms(2) by (subst takeWhile_append2) auto
  then have "base_name ([c] @ ''/'' @ b) = b" by (simp add: base_name_def)
  moreover have "parent_path [c, CHR ''/''] = [c]" using assms by (simp add: parent_path_def)
  ultimately show ?thesis using assms by (simp add: link_target_def Let_def)
qed

section \<open>Properties\<close>

text \<open>
  C35. Opening a file below a named directory, or one that is not a symbolic link, neither leaks nor
  takes away descriptors: afterwards exactly the two returned descriptors are open in addition, or
  none if the call fails, whatever chain of links is followed.
\<close>

theorem open_with_dir_balanced:
  assumes "open_with_dir n os dirname bname rfd s = Some (r, s')" "proper_os os"
    and "dirname \<noteq> [] \<or> (\<forall>k. sys_open_file os k rfd bname \<noteq> Inl ELOOP)"
  shows "fd_net fd (fd_events s') = fd_net fd (fd_events s) + result_fds r fd"
  using open_links_net [OF assms(1) [unfolded open_with_dir_def], of fd] assms(2,3) by (simp add: holds_fd_def)

definition sample_open_os :: open_os where
  "sample_open_os =
     \<lparr>sys_open_dir = (\<lambda>k d x. Inr (10 + int k)), sys_open_file = (\<lambda>k d x. if x = ''link'' then Inl ELOOP else Inr (10 + int k)),
      sys_readlink = (\<lambda>k d x. Inr ''/etc/target''), sys_dup = (\<lambda>k d. Inr (10 + int k)), symloop_max = -1\<rparr>"

definition sample_opening :: open_state where
  "sample_opening = \<lparr>open_calls = 0, fd_events = []\<rparr>"

lemma sample_os_proper: "proper_os sample_open_os"
  by (simp add: proper_os_def sample_open_os_def)

lemma sample_link_opened:
  "open_with_dir 5 sample_open_os ''/run'' ''link'' AT_FDCWD sample_opening =
     Some ((13, 14), \<lparr>open_calls = 5, fd_events = [Fd_open 10, Fd_open 13, Fd_close 10, Fd_open 14]\<rparr>)"
  by code_simp

theorem open_with_dir_balanced_witness:
  "fd_net 10 [Fd_open 10, Fd_open 13, Fd_close 10, Fd_open 14] = 0"
  using open_with_dir_balanced [OF sample_link_opened sample_os_proper, of 10]
  by (simp add: sample_opening_def result_fds_def holds_fd_def)

text \<open>
  A link that is opened by its bare name relative to a directory of the caller's costs the caller
  that directory: its descriptor is closed, or returned as if it had been opened for the caller.
\<close>

theorem link_in_callers_dir_closes_it:
  assumes "open_with_dir (Suc n) os [] bname rfd s = Some (r, s')" "proper_os os" "0 \<le> rfd" "symloop_max os \<noteq> 0"
    and "sys_open_file os (open_calls s) rfd bname = Inl ELOOP"
    and "sys_readlink os (Suc (open_calls s)) rfd bname = Inr path" "link_target path = Some (d, b)"
  shows "fd_net rfd (fd_events s') = fd_net rfd (fd_events s) - 1 + result_fds r rfd"
proof -
  have "open_links n os (symloop_max os - 1) d b rfd True (s\<lparr>open_calls := Suc (Suc (open_calls s))\<rparr>) = Some (r, s')"
    using assms(1,4-7) by (simp add: open_with_dir_def open_parent_def open_call_def other_call_def)
  from open_links_net [OF this assms(2), of rfd] show ?thesis using assms(3) by (simp add: holds_fd_def)
qed

lemma sample_include_link:
  "open_with_dir (Suc 4) sample_open_os [] ''link'' 7 sample_opening =
     Some ((12, 13), \<lparr>open_calls = 4, fd_events = [Fd_open 12, Fd_close 7, Fd_open 13]\<rparr>)"
  by code_simp

theorem link_in_callers_dir_closes_it_witness: "fd_net 7 [Fd_open 12, Fd_close 7, Fd_open 13] = -1"
proof -
  have "link_target ''/etc/target'' = Some (''/etc'', ''target'')" by code_simp
  then show ?thesis
    using link_in_callers_dir_closes_it [OF sample_include_link sample_os_proper, of "''/etc/target''" "''/etc''" "''target''"]
    by (simp add: sample_open_os_def sample_opening_def result_fds_def holds_fd_def)
qed

lemma open_links_returns:
  "nat t < n \<Longrightarrow> 0 \<le> t \<Longrightarrow> open_links n os t dirname bname rfd c s \<noteq> None"
proof (induction n arbitrary: t dirname bname rfd c s)
  case (Suc n)
  then have "t \<noteq> 0 \<Longrightarrow> open_links n os (t - 1) d b p True s' \<noteq> None" for d b p s'
    by (intro Suc.IH) auto
  then show ?case by (auto split: prod.split sum.split option.split simp del: not_None_eq split_paired_Ex)
qed simp

lemma open_links_stuck:
  assumes "\<And>k d x. sys_open_file os k d x = Inl ELOOP" "\<And>k d x. sys_readlink os k d x = Inr path" "link_target path = Some (dl, bl)"
    and "\<And>k d x. \<exists>fd. sys_open_dir os k d x = Inr fd"
  shows "t < 0 \<Longrightarrow> open_links n os t dirname bname rfd c s = None"
proof (induction n arbitrary: t dirname bname rfd c s)
  case (Suc n)
  obtain p c' s1 where "open_parent os dirname rfd c s = (Inr (p, c'), s1)"
    using assms(4) [of "open_calls s" rfd dirname] by (cases "dirname = []") (auto simp: open_parent_def open_call_def Let_def)
  then show ?case using Suc assms(1-3) by (simp add: open_call_def other_call_def)
qed simp

text \<open>
  Following links ends after as many steps as the system allows links. If the system states no
  limit, the answer is negative and serves as one all the same: a link that leads back to itself is
  then followed forever.
\<close>

theorem open_with_dir_ends_iff_limited:
  "(0 \<le> symloop_max os \<longrightarrow> open_with_dir (Suc (nat (symloop_max os))) os dirname bname rfd s \<noteq> None) \<and>
   (symloop_max os < 0 \<and> (\<forall>k d x. sys_open_file os k d x = Inl ELOOP \<and> sys_readlink os k d x = Inr path \<and> (\<exists>fd. sys_open_dir os k d x = Inr fd)) \<and>
      link_target path \<noteq> None \<longrightarrow> open_with_dir n os dirname bname rfd s = None)"
  using open_links_returns [of "symloop_max os" "Suc (nat (symloop_max os))"] open_links_stuck [of os path _ _ "symloop_max os"]
  by (auto simp: open_with_dir_def)

theorem open_with_dir_ends_iff_limited_witness:
  "open_with_dir 1000 (sample_open_os\<lparr>sys_open_file := (\<lambda>k d x. Inl ELOOP)\<rparr>) ''/run'' ''link'' AT_FDCWD sample_opening = None"
proof -
  have "link_target ''/etc/target'' \<noteq> None" by code_simp
  then show ?thesis
    using open_with_dir_ends_iff_limited [of "sample_open_os\<lparr>sys_open_file := (\<lambda>k d x. Inl ELOOP)\<rparr>" "''/run''" "''link''" AT_FDCWD sample_opening "''/etc/target''" 1000]
    by (simp add: sample_open_os_def)
qed

end
