(* ===== verification/Service_File.thy ===== *)
theory Service_File
  imports File_Paths Var_Subst "HOL-Library.Multiset" "HOL-Library.Sublist"
begin

text \<open>
  Reading a service description line by line (\<^verbatim>\<open>file-input-stack.h\<close> and \<^verbatim>\<open>process_service_file\<close> of
  \<^verbatim>\<open>load-service.h\<close>): continued lines, comments, includes, and the split of a line into setting,
  operator and value. A stream is the list of lines it delivers, followed by the end of the file or
  an error; the last line is what stands behind the last newline, and may be empty.
\<close>

section \<open>The stack of input files\<close>

record input_file =
  in_lines :: "string list"
  in_fails :: bool
  in_name :: string
  in_line_num :: nat
  in_dir :: int

record 's file_state =
  fs_stack :: "input_file list"
  fs_open :: open_state
  fs_user :: 's

definition push_file :: "string \<Rightarrow> string list \<times> bool \<Rightarrow> int \<Rightarrow> 's file_state \<Rightarrow> 's file_state" where
  "push_file name src dir S =
     S\<lparr>fs_stack := \<lparr>in_lines = fst src, in_fails = snd src, in_name = name, in_line_num = 0, in_dir = dir\<rparr> # fs_stack S\<rparr>"

text \<open>Popping a file closes its directory.\<close>

definition pop_file :: "'s file_state \<Rightarrow> 's file_state" where
  "pop_file S = S\<lparr>fs_stack := tl (fs_stack S), fs_open := close_if True (in_dir (hd (fs_stack S))) (fs_open S)\<rparr>"

function getline :: "'s file_state \<Rightarrow> string option outcome \<times> 's file_state" where
  "getline S =
     (case fs_stack S of
        [] \<Rightarrow> (Done None, S)
      | tf # rest \<Rightarrow>
          (let tf = tf\<lparr>in_line_num := Suc (in_line_num tf)\<rparr>
           in case in_lines tf of
                l # ls \<Rightarrow> (Done (Some l), S\<lparr>fs_stack := tf\<lparr>in_lines := ls\<rparr> # rest\<rparr>)
              | [] \<Rightarrow>
                  if in_fails tf then (Throws System_error, S\<lparr>fs_stack := tf # rest\<rparr>)
                  else getline (pop_file (S\<lparr>fs_stack := tf # rest\<rparr>))))"
  by pat_completeness auto
termination
  by (relation "measure (\<lambda>S. length (fs_stack S))") (auto simp: pop_file_def)

declare getline.simps [simp del]

definition getline_same_file :: "input_file \<Rightarrow> string option outcome \<times> input_file" where
  "getline_same_file tf =
     (case in_lines tf of
        l # ls \<Rightarrow> (Done (Some l), tf\<lparr>in_lines := ls, in_line_num := Suc (in_line_num tf)\<rparr>)
      | [] \<Rightarrow> (if in_fails tf then Throws System_error else Done None, tf))"

section \<open>Continued lines\<close>

definition continues :: "string \<Rightarrow> bool" where
  "continues line \<longleftrightarrow> odd (length (takeWhile (\<lambda>c. c = CHR 0x5C) (rev line)))"

function join_line :: "string \<Rightarrow> input_file \<Rightarrow> string outcome \<times> input_file" where
  "join_line line tf =
     (if continues line then
        (case getline_same_file tf of
           (Done (Some nextline), tf) \<Rightarrow>
             if skip_ws nextline = nextline then
               (Throws (Description_exc (in_line_num tf)
                  (''line following line-continuation backslash (`'' @ [CHR 0x5C, CHR 0x27] @ '') does not begin with whitespace character'')), tf)
             else join_line (butlast line @ CHR 0x0A # nextline) tf
         | (Done None, tf) \<Rightarrow>
             (Throws (Description_exc (in_line_num tf) (''end-of-file follows backslash escape character (`'' @ [CHR 0x5C, CHR 0x27] @ '')'')), tf)
         | (Throws e, tf) \<Rightarrow> (Throws e, tf)
         | (Overrun, tf) \<Rightarrow> (Overrun, tf))
      else (Done line, tf))"
  by pat_completeness auto
termination
  by (relation "measure (\<lambda>(_, tf). length (in_lines tf))") (auto simp: getline_same_file_def split: list.splits if_splits)

declare join_line.simps [simp del]

section \<open>Settings and includes\<close>

text \<open>Setting name, operator, line number and value of a line; nothing if it is badly formed.\<close>

definition split_setting :: "nat \<Rightarrow> string \<Rightarrow> (string \<times> setting_op_t \<times> nat \<times> string) option" where
  "split_setting ln s =
     (let (setting, _, r) = read_config_name False (length s) s;
          (ln, r) = skip_ws_ln ln r;
          go = (\<lambda>op r. let (ln, r) = skip_ws_ln ln r in Some (setting, op, ln, r))
      in if setting = [] then None
         else case r of
                [] \<Rightarrow> None
              | c # r \<Rightarrow>
                  if c = CHR ''='' then go ASSIGN r
                  else if c = CHR '':'' then go COLON r
                  else if c = CHR ''+'' \<and> r \<noteq> [] \<and> hd r = CHR ''='' then go PLUSASSIGN (tl r)
                  else None)"

text \<open>The directory and the base name of an included path.\<close>

definition split_include :: "string \<Rightarrow> string \<times> string" where
  "split_include path =
     (let b = base_name path
      in if length b = length path then ([], b)
         else if length path = length b + 1 then (''/'', b)
         else (take (length path - length b - 1) path, b))"

record line_pos =
  lp_file :: string
  lp_dir :: int
  lp_line :: nat

record 's file_env =
  fe_os :: open_os
  fe_fuel :: nat
  fe_source :: "int \<Rightarrow> string list \<times> bool"
  fe_vars :: var_env
  fe_line :: "line_pos \<Rightarrow> string \<Rightarrow> setting_op_t \<Rightarrow> string \<Rightarrow> 's \<Rightarrow> unit outcome \<times> 's"

text \<open>The message of a failure leaves out the system's text for the error number.\<close>

definition include_file :: "'s file_env \<Rightarrow> bool \<Rightarrow> string \<Rightarrow> 's file_state \<Rightarrow> (unit outcome \<times> 's file_state) option" where
  "include_file F is_include_opt include_name S =
     (let (dir, base) = split_include (c_str include_name)
      in case open_with_dir (fe_fuel F) (fe_os F) dir base (in_dir (hd (fs_stack S))) (fs_open S) of
           None \<Rightarrow> None
         | Some ((dir_fd, file_fd), s) \<Rightarrow>
             Some (let S = S\<lparr>fs_open := s\<rparr>
                   in if dir_fd = -1 then
                        (if \<not> is_include_opt \<or> file_fd \<noteq> ENOENT then (Throws (Load_exc (include_name @ '': cannot open'')), S)
                         else (Done (), S))
                      else (Done (), push_file include_name (fe_source F file_fd) dir_fd S)))"

definition meta_command :: "'s file_env \<Rightarrow> nat \<Rightarrow> string \<Rightarrow> 's file_state \<Rightarrow> (unit outcome \<times> 's file_state) option" where
  "meta_command F ln s S =
     (let (meta_cmd, _, r) = read_config_name False (length s) s
      in if meta_cmd = ''include'' \<or> meta_cmd = ''include-opt'' then
           (case read_include_path (fe_vars F) meta_cmd ln r of
              Done include_name \<Rightarrow> include_file F (meta_cmd = ''include-opt'') include_name S
            | Throws e \<Rightarrow> Some (Throws e, S)
            | Overrun \<Rightarrow> Some (Overrun, S))
         else if meta_cmd = ''meta'' then Some (Done (), S)
         else Some (Throws (Description_exc ln ''bad meta command''), S))"

text \<open>A line after joining.\<close>

definition process_joined :: "'s file_env \<Rightarrow> nat \<Rightarrow> string \<Rightarrow> 's file_state \<Rightarrow> (unit outcome \<times> 's file_state) option" where
  "process_joined F ln line S =
     (case skip_ws_ln ln line of
        (ln, []) \<Rightarrow> Some (Done (), S)
      | (ln, c # s) \<Rightarrow>
          if c = CHR ''#'' then Some (Done (), S)
          else if c = CHR ''@'' then meta_command F ln s S
          else
            (let tf = hd (fs_stack S)
             in case split_setting ln (c # s) of
                  None \<Rightarrow> Some (Throws (Description_exc (in_line_num tf) ''badly formed line.''), S)
                | Some (setting, op, ln, v) \<Rightarrow>
                    (case fe_line F \<lparr>lp_file = in_name tf, lp_dir = in_dir tf, lp_line = ln\<rparr> setting op v (fs_user S) of
                       (r, u) \<Rightarrow> Some (r, S\<lparr>fs_user := u\<rparr>))))"

text \<open>A line that has just been read from the file on top of the stack.\<close>

definition process_line :: "'s file_env \<Rightarrow> string \<Rightarrow> 's file_state \<Rightarrow> (unit outcome \<times> 's file_state) option" where
  "process_line F line S =
     (let tf = hd (fs_stack S)
      in if line = [] then Some (Done (), S)
         else case join_line line tf of
                (Done line, tf') \<Rightarrow> process_joined F (in_line_num tf) line (S\<lparr>fs_stack := tf' # tl (fs_stack S)\<rparr>)
              | (Throws e, tf') \<Rightarrow> Some (Throws e, S\<lparr>fs_stack := tf' # tl (fs_stack S)\<rparr>)
              | (Overrun, tf') \<Rightarrow> Some (Overrun, S\<lparr>fs_stack := tf' # tl (fs_stack S)\<rparr>))"

primrec process_service_file :: "nat \<Rightarrow> 's file_env \<Rightarrow> 's file_state \<Rightarrow> (unit outcome \<times> 's file_state) option" where
  "process_service_file 0 F S = None"
| "process_service_file (Suc n) F S =
     (case getline S of
        (Done None, S) \<Rightarrow> Some (Done (), S)
      | (Done (Some line), S) \<Rightarrow>
          (case process_line F line S of
             None \<Rightarrow> None
           | Some (Done _, S) \<Rightarrow> process_service_file n F S
           | Some (r, S) \<Rightarrow> Some (r, S))
      | (Throws e, S) \<Rightarrow> Some (Throws e, S)
      | (Overrun, S) \<Rightarrow> Some (Overrun, S))"

section \<open>What a line does to the stack\<close>

lemma join_line_suffix:
  "join_line line f = (r, f') \<Longrightarrow> suffix (in_lines f') (in_lines f)"
proof (induction line f arbitrary: f' rule: join_line.induct)
  case (1 line f)
  show ?case
  proof (cases "in_lines f")
    case Nil
    then show ?thesis using "1.prems" by (auto simp: join_line.simps [of line f] getline_same_file_def split: if_splits)
  next
    case (Cons l ls)
    let ?g = "f\<lparr>in_lines := ls, in_line_num := Suc (in_line_num f)\<rparr>"
    have g: "getline_same_file f = (Done (Some l), ?g)" using Cons by (simp add: getline_same_file_def)
    show ?thesis
    proof (cases "continues line \<and> skip_ws l \<noteq> l")
      case True
      then have "join_line (butlast line @ CHR 0x0A # l) ?g = (r, f')" using "1.prems" g by (simp add: join_line.simps [of line f])
      then have "suffix (in_lines f') ls" using "1.IH" [OF _ g [symmetric]] True by fastforce
      then show ?thesis using Cons by (simp add: suffix_ConsI)
    next
      case False
      then show ?thesis using "1.prems" g Cons by (auto simp: join_line.simps [of line f] suffix_ConsI split: if_splits)
    qed
  qed
qed

text \<open>Either the file on top has some lines less, or another file lies upon it in addition.\<close>

lemma include_file_stack:
  "include_file F opt name S = Some (r, S') \<Longrightarrow>
     fs_stack S' = fs_stack S \<or> (\<exists>g fd. fs_stack S' = g # fs_stack S \<and> in_lines g = fst (fe_source F fd))"
  by (auto simp: include_file_def push_file_def Let_def split: prod.splits option.splits if_splits)

lemma process_joined_stack:
  "process_joined F ln line S = Some (r, S') \<Longrightarrow>
     fs_stack S' = fs_stack S \<or> (\<exists>g fd. fs_stack S' = g # fs_stack S \<and> in_lines g = fst (fe_source F fd))"
  by (auto simp: process_joined_def meta_command_def Let_def dest: include_file_stack
      split: prod.splits option.splits if_splits list.splits outcome.splits)

lemma process_line_stack:
  assumes "process_line F line S = Some (Done (), S')" "fs_stack S = f # rest"
  shows "\<exists>f'. suffix (in_lines f') (in_lines f) \<and>
    (fs_stack S' = f' # rest \<or> (\<exists>g fd. fs_stack S' = g # f' # rest \<and> in_lines g = fst (fe_source F fd)))"
proof (cases "line = []")
  case True
  then show ?thesis using assms by (auto simp: process_line_def intro: exI [of _ f])
next
  case False
  obtain q f' where q: "join_line line f = (q, f')" by fastforce
  then obtain l where "process_joined F (in_line_num f) l (S\<lparr>fs_stack := f' # rest\<rparr>) = Some (Done (), S')"
    using assms False by (auto simp: process_line_def Let_def split: outcome.splits)
  from process_joined_stack [OF this] join_line_suffix [OF q] show ?thesis by auto
qed

text \<open>The files that are finished are popped before a line is found.\<close>

lemma getline_stack:
  "getline S = (r, S') \<Longrightarrow> (\<exists>l f rest pre. r = Done (Some l) \<and> fs_stack S = pre @ f # rest \<and> in_lines f = l # in_lines (hd (fs_stack S')) \<and>
       tl (fs_stack S') = rest \<and> fs_stack S' \<noteq> []) \<or> (\<forall>l. r \<noteq> Done (Some l))"
proof (induction S arbitrary: S' rule: getline.induct)
  case (1 S)
  show ?case
  proof (cases "fs_stack S")
    case Nil
    then show ?thesis using "1.prems" by (auto simp: getline.simps [of S])
  next
    case (Cons f rest)
    let ?f = "f\<lparr>in_line_num := Suc (in_line_num f)\<rparr>"
    show ?thesis
    proof (cases "in_lines f")
      case (Cons l ls)
      then show ?thesis using "1.prems" \<open>fs_stack S = f # rest\<close> by (auto simp: getline.simps [of S] Let_def)
    next
      case Nil
      let ?S = "pop_file (S\<lparr>fs_stack := ?f # rest\<rparr>)"
      show ?thesis
      proof (cases "in_fails f")
        case True
        then show ?thesis using "1.prems" Nil Cons by (auto simp: getline.simps [of S] Let_def)
      next
        case False
        then have "getline ?S = (r, S')" using "1.prems" Nil Cons by (auto simp: getline.simps [of S] Let_def)
        moreover have "fs_stack ?S = rest" by (simp add: pop_file_def)
        ultimately show ?thesis using "1.IH" [OF Cons, of ?f] Nil False Cons
          by (fastforce intro: exI [of _ "f # _"])
      qed
    qed
  qed
qed

section \<open>Termination\<close>

text \<open>
  A depth of nested includes: it does not grow from the lines of a file to the lines that are left of
  it, and a file that is included from some line has less depth than what is left from that line on.
\<close>

definition include_depth :: "'s file_env \<Rightarrow> (string list \<Rightarrow> nat) \<Rightarrow> bool" where
  "include_depth F depth \<longleftrightarrow>
     (\<forall>ls ls'. suffix ls' ls \<longrightarrow> depth ls' \<le> depth ls) \<and>
     (\<forall>S S' line f rest g rest'. fs_stack S = f # rest \<longrightarrow> process_line F line S = Some (Done (), S') \<longrightarrow>
        fs_stack S' = g # rest' \<longrightarrow> length (fs_stack S') = Suc (length (fs_stack S)) \<longrightarrow>
        depth (in_lines g) < depth (line # in_lines f))"

definition file_rank :: "(string list \<Rightarrow> nat) \<Rightarrow> input_file \<Rightarrow> nat \<times> nat" where
  "file_rank depth f = (depth (in_lines f), length (in_lines f))"

definition stack_rank :: "(string list \<Rightarrow> nat) \<Rightarrow> 's file_state \<Rightarrow> (nat \<times> nat) multiset" where
  "stack_rank depth S = mset (map (file_rank depth) (fs_stack S))"

abbreviation rank_less :: "((nat \<times> nat) \<times> (nat \<times> nat)) set" where
  "rank_less \<equiv> less_than <*lex*> less_than"

lemma wf_stack_rank: "wf (inv_image (mult rank_less) (stack_rank depth))"
  by (intro wf_inv_image wf_mult wf_lex_prod wf_less_than)

lemma line_lowers_rank:
  assumes d: "include_depth F depth" and l: "getline S = (Done (Some line), S1)" and p: "process_line F line S1 = Some (Done (), S2)"
  shows "(stack_rank depth S2, stack_rank depth S) \<in> mult rank_less"
proof -
  obtain f rest pre where S: "fs_stack S = pre @ f # rest" and f: "in_lines f = line # in_lines (hd (fs_stack S1))"
    and S1: "tl (fs_stack S1) = rest" "fs_stack S1 \<noteq> []" using getline_stack [OF l] by auto
  obtain f1 where f1: "fs_stack S1 = f1 # rest" using S1 by (cases "fs_stack S1") auto
  obtain f' where f': "suffix (in_lines f') (in_lines f1)"
      and S2: "fs_stack S2 = f' # rest \<or> (\<exists>g fd. fs_stack S2 = g # f' # rest \<and> in_lines g = fst (fe_source F fd))"
    using process_line_stack [OF p f1] by blast
  have fl: "in_lines f = line # in_lines f1" using f f1 by simp
  then have "suffix (in_lines f') (in_lines f)" using f' by (simp add: suffix_ConsI)
  then have "depth (in_lines f') \<le> depth (in_lines f)" using d by (auto simp: include_depth_def)
  moreover have "length (in_lines f') < length (in_lines f)" using f' fl suffix_length_le by fastforce
  ultimately have rf: "(file_rank depth f', file_rank depth f) \<in> rank_less" by (auto simp: file_rank_def)
  have rg: "(file_rank depth g, file_rank depth f) \<in> rank_less" if "fs_stack S2 = g # f' # rest" for g
    using d f1 p that fl unfolding include_depth_def file_rank_def by fastforce
  show ?thesis
    using S2
  proof
    assume "fs_stack S2 = f' # rest"
    then show ?thesis
      using one_step_implies_mult [of "mset (map (file_rank depth) (f # pre))" "{#file_rank depth f'#}" rank_less "mset (map (file_rank depth) rest)"] rf S
      by (simp add: stack_rank_def add_mset_commute union_commute)
  next
    assume "\<exists>g fd. fs_stack S2 = g # f' # rest \<and> in_lines g = fst (fe_source F fd)"
    then obtain g where g: "fs_stack S2 = g # f' # rest" by blast
    then show ?thesis
      using one_step_implies_mult [of "mset (map (file_rank depth) (f # pre))" "{#file_rank depth g, file_rank depth f'#}" rank_less "mset (map (file_rank depth) rest)"]
        rf rg [OF g] S
      by (simp add: stack_rank_def add_mset_commute union_commute)
  qed
qed

lemma process_line_returns:
  assumes "0 \<le> symloop_max (fe_os F)" "nat (symloop_max (fe_os F)) < fe_fuel F"
  shows "process_line F line S \<noteq> None"
  using open_links_returns [OF assms(2,1)]
  by (auto simp: process_line_def process_joined_def meta_command_def include_file_def open_with_dir_def Let_def
      split: prod.splits option.splits if_splits list.splits outcome.splits simp del: not_None_eq split_paired_Ex)

lemma process_service_file_ends:
  assumes d: "include_depth F depth" and l: "0 \<le> symloop_max (fe_os F)" "nat (symloop_max (fe_os F)) < fe_fuel F"
  shows "\<exists>n. process_service_file n F S \<noteq> None"
proof (induction S rule: wf_induct_rule [OF wf_stack_rank [of depth]])
  case (1 S)
  obtain q S1 where q: "getline S = (q, S1)" by fastforce
  show ?case
  proof (cases "\<exists>line. q = Done (Some line)")
    case False
    then have "process_service_file (Suc 0) F S \<noteq> None" using q by (auto split: outcome.splits option.splits)
    then show ?thesis by blast
  next
    case True
    then obtain line where line: "q = Done (Some line)" by blast
    obtain r S2 where r: "process_line F line S1 = Some (r, S2)" using process_line_returns [OF l] by fastforce
    show ?thesis
    proof (cases "r = Done ()")
      case True
      then have "(S2, S) \<in> inv_image (mult rank_less) (stack_rank depth)"
        using line_lowers_rank [OF d q [unfolded line] r [unfolded True]] by simp
      then obtain n where "process_service_file n F S2 \<noteq> None" using 1 by blast
      then have "process_service_file (Suc n) F S \<noteq> None" using q line r True by simp
      then show ?thesis by blast
    next
      case False
      then have "process_service_file (Suc 0) F S \<noteq> None" using q line r by (cases r) auto
      then show ?thesis by blast
    qed
  qed
qed


text \<open>Included lines come from lines with an at sign.\<close>

lemma skip_ws_ln_set: "skip_ws_ln ln s = (ln', s') \<Longrightarrow> set s' \<subseteq> set s"
  by (induction ln s rule: skip_ws_ln.induct) (auto split: if_splits)

lemma join_line_set:
  "join_line line f = (Done l, f') \<Longrightarrow> set l \<subseteq> {CHR 0x0A} \<union> (\<Union>x \<in> set (line # in_lines f). set x)"
proof (induction line f arbitrary: f' rule: join_line.induct)
  case (1 line f)
  show ?case
  proof (cases "in_lines f")
    case Nil
    then show ?thesis using "1.prems" by (auto simp: join_line.simps [of line f] getline_same_file_def split: if_splits)
  next
    case (Cons x ls)
    let ?g = "f\<lparr>in_lines := ls, in_line_num := Suc (in_line_num f)\<rparr>"
    have g: "getline_same_file f = (Done (Some x), ?g)" using Cons by (simp add: getline_same_file_def)
    show ?thesis
    proof (cases "continues line \<and> skip_ws x \<noteq> x")
      case True
      then have "join_line (butlast line @ CHR 0x0A # x) ?g = (Done l, f')" using "1.prems" g by (simp add: join_line.simps [of line f])
      then have "set l \<subseteq> {CHR 0x0A} \<union> (\<Union>y \<in> set ((butlast line @ CHR 0x0A # x) # in_lines ?g). set y)"
        using "1.IH" [OF _ g [symmetric]] True by blast
      then show ?thesis using Cons by (auto dest: in_set_butlastD)
    next
      case False
      then show ?thesis using "1.prems" g by (auto simp: join_line.simps [of line f] split: if_splits)
    qed
  qed
qed

lemma process_joined_at:
  assumes "process_joined F ln l S = Some (r, S')" "CHR ''@'' \<notin> set l"
  shows "fs_stack S' = fs_stack S"
proof -
  obtain ln' s where "skip_ws_ln ln l = (ln', s)" by fastforce
  moreover from skip_ws_ln_set [OF this] have "s = [] \<or> hd s \<noteq> CHR ''@''" using assms(2) by (cases s) auto
  ultimately show ?thesis using assms(1)
    by (auto simp: process_joined_def Let_def split: prod.splits option.splits if_splits list.splits)
qed

definition has_at :: "string list \<Rightarrow> nat" where
  "has_at ls = (if \<exists>l \<in> set ls. CHR ''@'' \<in> set l then 1 else 0)"

lemma plain_sources_depth:
  assumes "\<And>fd. has_at (fst (fe_source F fd)) = 0"
  shows "include_depth F has_at"
proof -
  have "has_at ls' \<le> has_at ls" if "suffix ls' ls" for ls ls' using that by (auto simp: has_at_def dest: set_mono_suffix)
  moreover have "has_at (in_lines g) < has_at (line # in_lines f)"
    if S: "fs_stack S = f # rest" and p: "process_line F line S = Some (Done (), S')"
      and g: "fs_stack S' = g # rest'" "length (fs_stack S') = Suc (length (fs_stack S))" for S S' line f rest g rest'
  proof (rule ccontr)
    assume n: "\<not> ?thesis"
    have "\<exists>fd. in_lines g = fst (fe_source F fd)" using process_line_stack [OF p S] g S by auto
    then have "has_at (line # in_lines f) = 0" using n assms by fastforce
    then have no: "\<forall>l \<in> set (line # in_lines f). CHR ''@'' \<notin> set l" by (auto simp: has_at_def split: if_splits)
    obtain q f' where q: "join_line line f = (q, f')" by fastforce
    have "line \<noteq> []" using p S g by (auto simp: process_line_def)
    then obtain l where l: "q = Done l" "process_joined F (in_line_num f) l (S\<lparr>fs_stack := f' # rest\<rparr>) = Some (Done (), S')"
      using p S q by (auto simp: process_line_def Let_def split: outcome.splits)
    have "CHR ''@'' \<notin> set l" using join_line_set [OF q [unfolded l(1)]] no by auto
    from process_joined_at [OF l(2) this] g S show False by simp
  qed
  ultimately show ?thesis unfolding include_depth_def by blast
qed

definition sample_files :: "(string \<times> string) list file_env" where
  "sample_files =
     \<lparr>fe_os = sample_open_os\<lparr>symloop_max := 8\<rparr>, fe_fuel = 9, fe_source = (\<lambda>fd. ([''b = 2'', []], False)), fe_vars = sample_vars,
      fe_line = (\<lambda>p n op v u. (Done (), u @ [(n, v)]))\<rparr>"

definition sample_reading :: "(string \<times> string) list file_state" where
  "sample_reading =
     push_file ''main'' ([''a = 1'', ''@include sub'', ''c = 3'', []], False) 7 \<lparr>fs_stack = [], fs_open = sample_opening, fs_user = []\<rparr>"


section \<open>Files that include themselves\<close>

lemma self_path: "read_include_path V ''include'' ln '' self'' = Done ''self''"
  by (simp add: read_include_path_def read_setting_value_def c_isspace_def value_var_subst_def)

lemma open_bare_name:
  assumes "proper_os os" "\<And>k d x. \<exists>fd. sys_open_file os k d x = Inr fd" "\<And>k d x. \<exists>fd. sys_open_dir os k d x = Inr fd" "\<And>k d. \<exists>fd. sys_dup os k d = Inr fd"
  shows "\<exists>dir fl s'. open_with_dir (Suc n) os [] bname rfd s = Some ((dir, fl), s') \<and> dir \<noteq> -1"
proof -
  obtain fl where fl: "sys_open_file os (open_calls s) rfd bname = Inr fl" using assms(2) by blast
  let ?f = "\<lambda>n. if rfd = AT_FDCWD then sys_open_dir os n AT_FDCWD ''.'' else sys_dup os n rfd"
  obtain dir where dir: "?f (Suc (open_calls s)) = Inr dir" using assms(3) [of "Suc (open_calls s)" AT_FDCWD "''.''"] assms(4) [of "Suc (open_calls s)" rfd] by (cases "rfd = AT_FDCWD") auto
  then have "dir \<noteq> -1" using assms(1) by (fastforce simp: proper_os_def split: if_splits)
  then show ?thesis using fl dir
    by (cases "rfd = AT_FDCWD") (simp_all add: open_with_dir_def open_parent_def open_call_def settle_parent_def)
qed

text \<open>
  Nothing limits the depth of includes: if every file that can be opened begins by including
  another, a file that does so is read forever.
\<close>

theorem self_include_never_ends:
  assumes "\<And>fd. \<exists>tail. fst (fe_source F fd) = ''@include self'' # tail"
    and "proper_os (fe_os F)" "\<And>k d x. \<exists>fd. sys_open_file (fe_os F) k d x = Inr fd" "\<And>k d x. \<exists>fd. sys_open_dir (fe_os F) k d x = Inr fd"
    and "\<And>k d. \<exists>fd. sys_dup (fe_os F) k d = Inr fd"
    and "fs_stack S = f # rest" "in_lines f = ''@include self'' # tail"
  shows "process_service_file n F S = None"
  using assms(6,7)
proof (induction n arbitrary: S f rest tail)
  case (Suc n)
  let ?f = "f\<lparr>in_line_num := Suc (in_line_num f), in_lines := tail\<rparr>"
  let ?S = "S\<lparr>fs_stack := ?f # rest\<rparr>"
  have g: "getline S = (Done (Some ''@include self''), ?S)" using Suc.prems by (simp add: getline.simps Let_def)
  have "\<not> continues ''@include self''" by code_simp
  then have j: "join_line ''@include self'' ?f = (Done ''@include self'', ?f)" by (simp add: join_line.simps)
  have rc: "read_config_name False (length ''include self'') ''include self'' = (''include'', False, '' self'')" by code_simp
  have "process_line F ''@include self'' ?S = include_file F False ''self'' ?S"
    using j rc self_path
    by (simp add: process_line_def process_joined_def meta_command_def c_isspace_def)
  moreover have "include_file F False ''self'' ?S = None \<or>
    (\<exists>S2 tail'. include_file F False ''self'' ?S = Some (Done (), S2) \<and> (\<exists>f2 rest2. fs_stack S2 = f2 # rest2 \<and> in_lines f2 = ''@include self'' # tail'))"
  proof (cases "fe_fuel F")
    case 0
    then show ?thesis by (simp add: include_file_def open_with_dir_def split: prod.split)
  next
    case (Suc m)
    have si: "split_include (c_str ''self'') = ([], ''self'')" by code_simp
    obtain dir fl s' where o: "open_with_dir (fe_fuel F) (fe_os F) [] ''self'' (in_dir ?f) (fs_open S) = Some ((dir, fl), s')" "dir \<noteq> -1"
      using open_bare_name [OF assms(2-5)] unfolding Suc by blast
    show ?thesis using o assms(1) [of fl] by (auto simp: include_file_def si push_file_def)
  qed
  ultimately show ?case using g Suc.IH by auto
qed simp

theorem self_include_never_ends_witness:
  "process_service_file 100000 (sample_files\<lparr>fe_source := (\<lambda>fd. ([''@include self''], False)), fe_os := sample_open_os\<lparr>sys_open_file := (\<lambda>k d x. Inr 9)\<rparr>\<rparr>)
     (push_file ''self'' ([''@include self''], False) 7 sample_reading) = None"
  by (rule self_include_never_ends [where tail = "[]"]) ((simp_all add: sample_files_def sample_open_os_def proper_os_def push_file_def)+)

end
