(* ===== verification/Hash_Set.thy ===== *)
theory Hash_Set
  imports Prelude "HOL-Library.Multiset"
begin

text \<open>
  The hash set and the set that keeps the order of insertion (\<^verbatim>\<open>dinit_unordered_set\<close> and
  \<^verbatim>\<open>linked_uo_set\<close> of \<^verbatim>\<open>dinit-util.h\<close>). The hash function and the largest number of buckets a vector
  can have are parameters. An iterator is a bucket number and a position in the bucket.
\<close>

section \<open>Buckets\<close>

record 'a uset =
  buckets :: "'a list list"
  current_size :: nat
  current_limit :: nat

definition uset_empty :: "'a uset" where
  "uset_empty = \<lparr>buckets = [], current_size = 0, current_limit = 0\<rparr>"

definition size_max :: nat where "size_max = 2 ^ 64 - 1"

definition buckets_to_max :: "nat \<Rightarrow> nat" where
  "buckets_to_max n = n div 4 * 3 + n mod 4 * 3 div 4"

definition put_node :: "('a \<Rightarrow> nat) \<Rightarrow> nat \<Rightarrow> 'a \<Rightarrow> 'a list list \<Rightarrow> 'a list list" where
  "put_node h n x bs = (let b = h x mod n in bs[b := bs ! b @ [x]])"

definition do_rehash :: "('a \<Rightarrow> nat) \<Rightarrow> nat \<Rightarrow> 'a list list \<Rightarrow> 'a list list" where
  "do_rehash h n bs = fold (put_node h n) (concat bs) (replicate (length bs) [])"

definition min_buckets :: "nat \<Rightarrow> nat \<Rightarrow> nat" where
  "min_buckets max_size sz =
     (if sz > buckets_to_max max_size then max_size else sz div 3 * 4 + sz mod 3 * 4 div 3)"

definition rehash :: "('a \<Rightarrow> nat) \<Rightarrow> nat \<Rightarrow> nat \<Rightarrow> 'a uset \<Rightarrow> 'a uset" where
  "rehash h max_size n S =
     (let n = max n (min_buckets max_size (current_size S)); bs = buckets S
      in if n < length bs then S\<lparr>buckets := take n (do_rehash h n bs)\<rparr>
         else S\<lparr>buckets := do_rehash h n (bs @ replicate (n - length bs) [])\<rparr>)"

section \<open>Operations\<close>

type_synonym iter = "(nat \<times> nat) option"

definition uset_find :: "('a \<Rightarrow> nat) \<Rightarrow> 'a \<Rightarrow> 'a uset \<Rightarrow> iter" where
  "uset_find h x S =
     (if buckets S = [] then None
      else
        (let b = h x mod length (buckets S); xs = buckets S ! b; i = length (takeWhile (\<lambda>y. y \<noteq> x) xs)
         in if i < length xs then Some (b, i) else None))"

definition contains :: "('a \<Rightarrow> nat) \<Rightarrow> 'a \<Rightarrow> 'a uset \<Rightarrow> bool" where
  "contains h x S \<longleftrightarrow> uset_find h x S \<noteq> None"

text \<open>The table is made larger when it is full, unless it has as many buckets as there can be.\<close>

definition grow :: "('a \<Rightarrow> nat) \<Rightarrow> nat \<Rightarrow> 'a uset \<Rightarrow> 'a uset" where
  "grow h max_size S =
     (if current_size S \<ge> current_limit S then
        (if length (buckets S) \<le> max_size div 2
         then (rehash h max_size (length (buckets S) * 2) S)\<lparr>current_limit := current_limit S * 2\<rparr>
         else S\<lparr>current_limit := size_max\<rparr>)
      else S)"

definition do_insert :: "('a \<Rightarrow> nat) \<Rightarrow> nat \<Rightarrow> 'a \<Rightarrow> 'a uset \<Rightarrow> (nat \<times> nat) \<times> bool \<times> 'a uset" where
  "do_insert h max_size x S =
     (case uset_find h x S of
        Some p \<Rightarrow> (p, False, S)
      | None \<Rightarrow>
          (let S = (if buckets S = [] then S\<lparr>buckets := replicate 4 [], current_limit := 3\<rparr> else grow h max_size S);
               b = h x mod length (buckets S)
           in ((b, length (buckets S ! b)), True,
               S\<lparr>buckets := (buckets S)[b := buckets S ! b @ [x]], current_size := current_size S + 1\<rparr>)))"

definition first_from :: "'a list list \<Rightarrow> nat \<Rightarrow> iter" where
  "first_from bs n = map_option (\<lambda>b. (b, 0)) (find (\<lambda>b. bs ! b \<noteq> []) [n..<length bs])"

definition uset_begin :: "'a uset \<Rightarrow> iter" where
  "uset_begin S = (if current_size S = 0 then None else first_from (buckets S) 0)"

definition iter_next :: "'a uset \<Rightarrow> nat \<times> nat \<Rightarrow> iter" where
  "iter_next S p =
     (case p of (b, i) \<Rightarrow> if i + 1 < length (buckets S ! b) then Some (b, i + 1) else first_from (buckets S) (b + 1))"

definition drop_at :: "nat \<times> nat \<Rightarrow> 'a uset \<Rightarrow> 'a uset" where
  "drop_at p S = (case p of (b, i) \<Rightarrow> S\<lparr>buckets := (buckets S)[b := take i (buckets S ! b) @ drop (i + 1) (buckets S ! b)]\<rparr>)"

text \<open>Erasing at an iterator yields the next element, which has moved up if it is in the same bucket.\<close>

definition erase_at :: "nat \<times> nat \<Rightarrow> 'a uset \<Rightarrow> iter \<times> 'a uset" where
  "erase_at p S =
     (case iter_next S p of
        None \<Rightarrow> (None, drop_at p S)
      | Some q \<Rightarrow> (Some (if fst q = fst p then p else q), drop_at p S))"

definition uset_erase :: "('a \<Rightarrow> nat) \<Rightarrow> 'a \<Rightarrow> 'a uset \<Rightarrow> nat \<times> 'a uset" where
  "uset_erase h x S = (case uset_find h x S of None \<Rightarrow> (0, S) | Some p \<Rightarrow> (1, drop_at p S))"

definition uset_size :: "'a uset \<Rightarrow> nat" where
  "uset_size S = current_size S"

definition uset_is_empty :: "'a uset \<Rightarrow> bool" where
  "uset_is_empty S \<longleftrightarrow> current_size S = 0"

definition uset_clear :: "'a uset \<Rightarrow> 'a uset" where
  "uset_clear S = S\<lparr>buckets := [], current_size := 0, current_limit := 0\<rparr>"

section \<open>The set that a table represents\<close>

definition elems :: "'a uset \<Rightarrow> 'a set" where
  "elems S = set (concat (buckets S))"

definition hashed :: "('a \<Rightarrow> nat) \<Rightarrow> nat \<Rightarrow> 'a list list \<Rightarrow> bool" where
  "hashed h n bs \<longleftrightarrow> (\<forall>b < length bs. \<forall>x \<in> set (bs ! b). h x mod n = b)"

definition uset_ok :: "('a \<Rightarrow> nat) \<Rightarrow> 'a uset \<Rightarrow> bool" where
  "uset_ok h S \<longleftrightarrow>
     hashed h (length (buckets S)) (buckets S) \<and> distinct (concat (buckets S)) \<and> length (concat (buckets S)) \<le> current_size S"

lemma buckets_to_max_exact: "buckets_to_max n = n * 3 div 4"
  unfolding buckets_to_max_def by presburger

lemma min_buckets_exact: "sz \<le> buckets_to_max m \<Longrightarrow> min_buckets m sz = sz * 4 div 3"
  unfolding min_buckets_def by simp presburger

lemma mset_concat_upd: "b < length bs \<Longrightarrow> mset (concat (bs[b := bs ! b @ [x]])) = add_mset x (mset (concat bs))"
  by (induction bs arbitrary: b) (auto split: nat.split)

lemma length_put_node [simp]: "length (put_node h n x bs) = length bs"
  by (simp add: put_node_def Let_def)

lemma put_node_hashed:
  assumes "hashed h n bs" "0 < n" "n \<le> length bs"
  shows "hashed h n (put_node h n x bs)"
  unfolding hashed_def put_node_def Let_def
proof (intro allI impI ballI)
  fix b y assume b: "b < length (bs[h x mod n := bs ! (h x mod n) @ [x]])" and y: "y \<in> set (bs[h x mod n := bs ! (h x mod n) @ [x]] ! b)"
  show "h y mod n = b"
  proof (cases "b = h x mod n")
    case True
    then show ?thesis using assms(1) b y by (auto simp: hashed_def)
  next
    case False
    then show ?thesis using assms(1) b y by (auto simp: hashed_def)
  qed
qed

lemma put_node_mset:
  assumes "0 < n" "n \<le> length bs"
  shows "mset (concat (put_node h n x bs)) = add_mset x (mset (concat bs))"
proof -
  have "h x mod n < length bs" using assms mod_less_divisor [of n "h x"] by linarith
  then show ?thesis by (simp add: put_node_def Let_def mset_concat_upd)
qed

lemma put_nodes:
  assumes "hashed h n bs" "0 < n" "n \<le> length bs"
  shows "hashed h n (fold (put_node h n) xs bs) \<and> length (fold (put_node h n) xs bs) = length bs \<and>
    mset (concat (fold (put_node h n) xs bs)) = mset xs + mset (concat bs)"
  using assms
proof (induction xs arbitrary: bs)
  case (Cons x xs)
  show ?case using Cons.IH [of "put_node h n x bs"] put_node_hashed [OF Cons.prems] put_node_mset [of n bs h x] Cons.prems by simp
qed simp

lemma length_do_rehash [simp]: "length (do_rehash h n bs) = length bs"
proof -
  have "length (fold (put_node h n) xs cs) = length cs" for xs cs by (induction xs arbitrary: cs) simp_all
  then show ?thesis by (simp add: do_rehash_def)
qed

lemma concat_replicate_Nil [simp]: "concat (replicate n []) = []"
  by (induction n) simp_all

lemma do_rehash_ok:
  assumes "0 < n" "n \<le> length bs"
  shows "hashed h n (do_rehash h n bs) \<and> length (do_rehash h n bs) = length bs \<and> mset (concat (do_rehash h n bs)) = mset (concat bs)"
  using put_nodes [of h n "replicate (length bs) []" "concat bs"] assms by (simp add: do_rehash_def hashed_def)

text \<open>Beyond the buckets that are hashed into there is nothing.\<close>

lemma hashed_take:
  assumes "hashed h n bs" "0 < n" "n \<le> length bs"
  shows "concat (take n bs) = concat bs" "hashed h n (take n bs)"
proof -
  have "xs = []" if "xs \<in> set (drop n bs)" for xs
  proof (rule ccontr)
    assume ne: "xs \<noteq> []"
    obtain i where i: "i < length bs - n" "xs = bs ! (n + i)" using \<open>xs \<in> set (drop n bs)\<close> by (auto simp: in_set_conv_nth)
    then have "h (hd xs) mod n = n + i" using assms(1) ne by (auto simp: hashed_def)
    then show False using assms(2) mod_less_divisor [of n "h (hd xs)"] by linarith
  qed
  then have "concat (drop n bs) = []" by simp
  then show "concat (take n bs) = concat bs" by (metis append_Nil2 append_take_drop_id concat_append)
  show "hashed h n (take n bs)" using assms by (auto simp: hashed_def)
qed

lemma rehash_ok:
  assumes "uset_ok h S" "0 < max_size"
  shows "uset_ok h (rehash h max_size n S) \<and> elems (rehash h max_size n S) = elems S \<and>
    (0 < n \<longrightarrow> buckets (rehash h max_size n S) \<noteq> []) \<and> current_size (rehash h max_size n S) = current_size S"
proof -
  define n' where "n' = max n (min_buckets max_size (current_size S))"
  define bs where "bs = (if n' < length (buckets S) then buckets S else buckets S @ replicate (n' - length (buckets S)) [])"
  define cs where "cs = do_rehash h n' bs"
  have R: "rehash h max_size n S = S\<lparr>buckets := take n' cs\<rparr>"
    by (auto simp: rehash_def n'_def [symmetric] cs_def bs_def Let_def)
  have conc: "concat bs = concat (buckets S)" by (simp add: bs_def)
  show ?thesis
  proof (cases "n' = 0")
    case True
    then have "min_buckets max_size (current_size S) = 0" by (simp add: n'_def)
    then have "current_size S = 0" using assms(2) unfolding min_buckets_def by (auto split: if_splits)
    then have "concat (buckets S) = []" using assms(1) by (simp add: uset_ok_def)
    then show ?thesis using True R \<open>current_size S = 0\<close> by (auto simp: uset_ok_def hashed_def elems_def n'_def)
  next
    case False
    then have ok: "hashed h n' cs" "mset (concat cs) = mset (concat (buckets S))" "n' \<le> length cs"
      using do_rehash_ok [of n' bs h] conc by (auto simp: cs_def bs_def)
    note tk = hashed_take [OF ok(1) _ ok(3)]
    have "distinct (concat cs) \<and> length (concat cs) = length (concat (buckets S)) \<and> set (concat cs) = set (concat (buckets S))"
      using ok(2) assms(1) by (metis mset_eq_imp_distinct_iff mset_eq_length mset_eq_setD uset_ok_def)
    then show ?thesis using R False tk ok(3) assms(1) by (auto simp: uset_ok_def elems_def)
  qed
qed

section \<open>Finding, inserting, erasing\<close>

lemma find_iff:
  assumes "uset_ok h S"
  shows "contains h x S \<longleftrightarrow> x \<in> elems S"
proof (cases "buckets S = []")
  case True
  then show ?thesis by (simp add: contains_def uset_find_def elems_def)
next
  case False
  let ?b = "h x mod length (buckets S)"
  have b: "?b < length (buckets S)" using False by simp
  have "x \<in> elems S \<longleftrightarrow> x \<in> set (buckets S ! ?b)"
  proof
    assume "x \<in> elems S"
    then obtain i where "i < length (buckets S)" "x \<in> set (buckets S ! i)" by (auto simp: elems_def in_set_conv_nth [of _ "buckets S"])
    then show "x \<in> set (buckets S ! ?b)" using assms by (auto simp: uset_ok_def hashed_def)
  qed (use b in \<open>auto simp: elems_def intro: nth_mem\<close>)
  moreover have "length (takeWhile (\<lambda>y. y \<noteq> x) xs) < length xs \<longleftrightarrow> x \<in> set xs" for xs :: "'a list"
    by (induction xs) auto
  ultimately show ?thesis using False by (simp add: contains_def uset_find_def Let_def)
qed

lemma uset_find_at:
  assumes "uset_find h x S = Some (b, i)"
  shows "b < length (buckets S)" "i < length (buckets S ! b)" "buckets S ! b ! i = x"
proof -
  have "\<not> (\<lambda>y. y \<noteq> x) (xs ! length (takeWhile (\<lambda>y. y \<noteq> x) xs))" if "length (takeWhile (\<lambda>y. y \<noteq> x) xs) < length xs" for xs
    using nth_length_takeWhile [OF that] .
  then show "b < length (buckets S)" "i < length (buckets S ! b)" "buckets S ! b ! i = x"
    using assms by (auto simp: uset_find_def Let_def split: if_splits)
qed

lemma grow_ok:
  assumes "uset_ok h S" "0 < max_size" "buckets S \<noteq> []"
  shows "uset_ok h (grow h max_size S) \<and> elems (grow h max_size S) = elems S \<and> buckets (grow h max_size S) \<noteq> []"
  using rehash_ok [OF assms(1,2), of "length (buckets S) * 2"] assms(1,3)
  by (auto simp: grow_def uset_ok_def elems_def)

lemma add_element:
  assumes ok: "uset_ok h S" and ne: "buckets S \<noteq> []" and new: "x \<notin> elems S" and b: "b = h x mod length (buckets S)"
  shows "uset_ok h (S\<lparr>buckets := (buckets S)[b := buckets S ! b @ [x]], current_size := current_size S + 1\<rparr>) \<and>
    elems (S\<lparr>buckets := (buckets S)[b := buckets S ! b @ [x]], current_size := current_size S + 1\<rparr>) = insert x (elems S)"
proof -
  have lt: "0 < length (buckets S)" "b < length (buckets S)" using ne b by simp_all
  let ?bs = "(buckets S)[b := buckets S ! b @ [x]]"
  have "hashed h (length (buckets S)) ?bs"
    using put_node_hashed [of h "length (buckets S)" "buckets S" x] ok lt(1) b by (simp add: put_node_def uset_ok_def Let_def)
  moreover have m: "mset (concat ?bs) = add_mset x (mset (concat (buckets S)))" by (rule mset_concat_upd [OF lt(2)])
  moreover have "set (concat ?bs) = insert x (elems S)" using arg_cong [OF m, of set_mset] by (simp add: elems_def)
  moreover have "distinct (concat ?bs)"
    using m new ok by (metis add_mset_add_single distinct.simps(2) elems_def mset.simps(2) mset_eq_imp_distinct_iff uset_ok_def)
  moreover have "length (concat ?bs) = Suc (length (concat (buckets S)))" using arg_cong [OF m, of size] by simp
  ultimately show ?thesis using ok by (simp add: uset_ok_def elems_def)
qed

lemma do_insert_ok:
  assumes "uset_ok h S" "0 < max_size" "do_insert h max_size x S = (p, fresh, S')"
  shows "uset_ok h S' \<and> elems S' = insert x (elems S) \<and> fresh = (x \<notin> elems S)"
proof (cases "uset_find h x S")
  case (Some q)
  then show ?thesis using assms find_iff [OF assms(1), of x] by (auto simp: do_insert_def contains_def)
next
  case None
  define T where "T = (if buckets S = [] then S\<lparr>buckets := replicate 4 [], current_limit := 3\<rparr> else grow h max_size S)"
  have T: "uset_ok h T \<and> elems T = elems S \<and> buckets T \<noteq> []"
  proof (cases "buckets S = []")
    case True
    then show ?thesis by (simp add: T_def uset_ok_def hashed_def elems_def)
  next
    case False
    then show ?thesis using grow_ok [OF assms(1,2)] by (simp add: T_def)
  qed
  have x: "x \<notin> elems S" using None find_iff [OF assms(1), of x] by (simp add: contains_def)
  then show ?thesis
    using None assms(3) T add_element [of h T x "h x mod length (buckets T)"]
    by (auto simp: do_insert_def T_def [symmetric] Let_def)
qed

lemma mset_concat_drop:
  "b < length bs \<Longrightarrow> i < length (bs ! b) \<Longrightarrow>
     add_mset (bs ! b ! i) (mset (concat (bs[b := take i (bs ! b) @ drop (i + 1) (bs ! b)]))) = mset (concat bs)"
proof (induction bs arbitrary: b)
  case (Cons xs bs)
  have "add_mset (xs ! i) (mset (take i xs) + mset (drop (Suc i) xs)) = mset xs" if "i < length xs"
    using id_take_nth_drop [OF that] by (metis mset.simps(2) mset_append union_mset_add_mset_right)
  then have "add_mset (xs ! i) (mset (take i xs) + mset (drop (Suc i) xs) + M) = mset xs + M" if "i < length xs" for M
    using that by (metis union_mset_add_mset_left)
  then show ?case using Cons.IH [of "b - 1"] Cons.prems by (cases b) (simp_all add: add.assoc flip: union_mset_add_mset_right)
qed simp

lemma uset_erase_ok:
  assumes ok: "uset_ok h S" and e: "uset_erase h x S = (n, S')"
  shows "uset_ok h S' \<and> elems S' = elems S - {x} \<and> n = (if x \<in> elems S then 1 else 0) \<and> uset_size S' = uset_size S"
proof (cases "uset_find h x S")
  case None
  then show ?thesis using e ok find_iff [OF ok, of x] by (auto simp: uset_erase_def contains_def)
next
  case (Some p)
  obtain b i where p: "p = (b, i)" by fastforce
  note f = uset_find_at [OF Some [unfolded p]]
  let ?bs = "(buckets S)[b := take i (buckets S ! b) @ drop (i + 1) (buckets S ! b)]"
  have S': "S' = S\<lparr>buckets := ?bs\<rparr>" "n = 1" using e Some p by (auto simp: uset_erase_def drop_at_def)
  have m: "add_mset x (mset (concat ?bs)) = mset (concat (buckets S))" using mset_concat_drop [OF f(1,2)] f(3) by simp
  have d: "distinct (x # concat ?bs)" using ok m by (metis mset.simps(2) mset_eq_imp_distinct_iff uset_ok_def)
  have "set (x # concat ?bs) = elems S" using m by (metis elems_def mset.simps(2) mset_eq_setD)
  moreover have "Suc (length (concat ?bs)) = length (concat (buckets S))" using m by (metis length_Cons mset.simps(2) mset_eq_length)
  moreover have "hashed h (length (buckets S)) ?bs"
    unfolding hashed_def
  proof (intro allI impI ballI)
    fix c y assume "c < length ?bs" "y \<in> set (?bs ! c)"
    then show "h y mod length (buckets S) = c"
      using ok by (cases "c = b") (auto simp: uset_ok_def hashed_def dest: in_set_takeD in_set_dropD)
  qed
  ultimately show ?thesis using d ok S' by (auto simp: uset_ok_def elems_def uset_size_def)
qed

section \<open>Histories\<close>

datatype 'a uset_op = Insert 'a | Erase 'a | Contains 'a | Rehash nat | Clear

fun uset_step :: "('a \<Rightarrow> nat) \<Rightarrow> nat \<Rightarrow> 'a uset_op \<Rightarrow> 'a uset \<Rightarrow> bool \<times> 'a uset" where
  "uset_step h m (Insert x) S = (case do_insert h m x S of (p, fresh, S') \<Rightarrow> (fresh, S'))"
| "uset_step h m (Erase x) S = (case uset_erase h x S of (n, S') \<Rightarrow> (n = 1, S'))"
| "uset_step h m (Contains x) S = (contains h x S, S)"
| "uset_step h m (Rehash n) S = (True, rehash h m n S)"
| "uset_step h m Clear S = (True, uset_clear S)"

fun set_step :: "'a uset_op \<Rightarrow> 'a set \<Rightarrow> bool \<times> 'a set" where
  "set_step (Insert x) A = (x \<notin> A, insert x A)"
| "set_step (Erase x) A = (x \<in> A, A - {x})"
| "set_step (Contains x) A = (x \<in> A, A)"
| "set_step (Rehash n) A = (True, A)"
| "set_step Clear A = (True, {})"

fun run_steps :: "('o \<Rightarrow> 's \<Rightarrow> bool \<times> 's) \<Rightarrow> 'o list \<Rightarrow> 's \<Rightarrow> bool list \<times> 's" where
  "run_steps f [] s = ([], s)"
| "run_steps f (x # xs) s = (case f x s of (b, s') \<Rightarrow> case run_steps f xs s' of (bs, s'') \<Rightarrow> (b # bs, s''))"

lemma uset_step_ok:
  assumes "uset_ok h S" "0 < m" "uset_step h m op S = (b, S')"
  shows "uset_ok h S' \<and> set_step op (elems S) = (b, elems S')"
proof (cases op)
  case (Insert x)
  then obtain p where "do_insert h m x S = (p, b, S')" using assms(3) by (auto split: prod.splits)
  from do_insert_ok [OF assms(1,2) this] show ?thesis using Insert by simp
next
  case (Erase x)
  then obtain n where "uset_erase h x S = (n, S')" "b = (n = 1)" using assms(3) by (auto split: prod.splits)
  with uset_erase_ok [OF assms(1) this(1)] show ?thesis using Erase by simp
next
  case (Contains x)
  then show ?thesis using assms find_iff [OF assms(1)] by auto
next
  case (Rehash n)
  then show ?thesis using assms rehash_ok [OF assms(1,2), of n] by simp
next
  case Clear
  then show ?thesis using assms by (auto simp: uset_clear_def uset_ok_def hashed_def elems_def)
qed

lemma run_uset_ok:
  "uset_ok h S \<Longrightarrow> 0 < m \<Longrightarrow> run_steps (uset_step h m) ops S = (bs, S') \<Longrightarrow>
     uset_ok h S' \<and> run_steps set_step ops (elems S) = (bs, elems S')"
proof (induction ops arbitrary: S bs)
  case (Cons op ops)
  obtain b S1 where 1: "uset_step h m op S = (b, S1)" by fastforce
  obtain bs1 where 2: "run_steps (uset_step h m) ops S1 = (bs1, S')" "bs = b # bs1" using Cons.prems(3) 1 by (auto split: prod.splits)
  note st = uset_step_ok [OF Cons.prems(1,2) 1]
  show ?case using Cons.IH [OF _ Cons.prems(2) 2(1)] st 2(2) by simp
qed simp

lemma uset_empty_ok: "uset_ok h uset_empty" "elems uset_empty = {}"
  by (simp_all add: uset_empty_def uset_ok_def hashed_def elems_def)



text \<open>
  Erasing does not count: after an element has been erased, the set reports one element more than
  it has, and with its only element erased it does not report to be empty.
\<close>

theorem erase_keeps_size:
  assumes "uset_ok h S" "uset_size S = card (elems S)" "x \<in> elems S" "uset_erase h x S = (n, S')"
  shows "uset_size S' = Suc (card (elems S')) \<and> \<not> uset_is_empty S'"
proof -
  have "finite (elems S)" by (simp add: elems_def)
  then have "card (elems S) = Suc (card (elems S - {x}))" using assms(3) by (metis card_Suc_Diff1)
  then show ?thesis using uset_erase_ok [OF assms(1,4)] assms(2) by (simp add: uset_is_empty_def uset_size_def)
qed

theorem erase_keeps_size_witness:
  "uset_size (snd (uset_erase (\<lambda>x. x) 7 (snd (snd (do_insert (\<lambda>x. x) 1000 (7 :: nat) uset_empty))))) = 1"
proof -
  obtain p b S where S: "do_insert (\<lambda>x. x) 1000 (7 :: nat) uset_empty = (p, b, S)" by (cases "do_insert (\<lambda>x. x) 1000 (7 :: nat) uset_empty")
  have ok: "uset_ok (\<lambda>x. x) S" "elems S = {7}" using do_insert_ok [OF uset_empty_ok(1) _ S] by (simp_all add: uset_empty_ok(2))
  have sz: "uset_size S = 1" using S by (auto simp: do_insert_def uset_find_def uset_empty_def uset_size_def Let_def)
  obtain n S' where e: "uset_erase (\<lambda>x. x) 7 S = (n, S')" by fastforce
  show ?thesis using erase_keeps_size [OF ok(1) _ _ e] uset_erase_ok [OF ok(1) e] ok(2) sz S e by simp
qed

section \<open>The set in order of insertion\<close>

text \<open>A record of the list is identified by its value.\<close>

record 'a lset =
  l_backing :: "'a uset"
  l_next :: "'a \<Rightarrow> 'a option"
  l_first :: "'a option"
  l_last :: "'a option"

definition lset_empty :: "'a lset" where
  "lset_empty = \<lparr>l_backing = uset_empty, l_next = (\<lambda>_. None), l_first = None, l_last = None\<rparr>"

definition add_back :: "('a \<Rightarrow> nat) \<Rightarrow> nat \<Rightarrow> 'a \<Rightarrow> 'a lset \<Rightarrow> bool \<times> 'a lset" where
  "add_back h max_size x L =
     (case do_insert h max_size x (l_backing L) of
        (_, False, B) \<Rightarrow> (False, L\<lparr>l_backing := B\<rparr>)
      | (_, True, B) \<Rightarrow>
          (let nx = (l_next L)(x := None);
               nx = (case l_last L of Some y \<Rightarrow> nx(y := Some x) | None \<Rightarrow> nx)
           in (True, L\<lparr>l_backing := B, l_next := nx, l_last := Some x,
                 l_first := (case l_first L of None \<Rightarrow> Some x | Some y \<Rightarrow> Some y)\<rparr>)))"

definition lset_rel :: "('a \<Rightarrow> nat) \<Rightarrow> 'a lset \<Rightarrow> 'a list \<Rightarrow> bool" where
  "lset_rel h L xs \<longleftrightarrow>
     uset_ok h (l_backing L) \<and> elems (l_backing L) = set xs \<and> distinct xs \<and>
     l_first L = (case xs of [] \<Rightarrow> None | x # _ \<Rightarrow> Some x) \<and> l_last L = (if xs = [] then None else Some (last xs)) \<and>
     (\<forall>i < length xs. l_next L (xs ! i) = (if Suc i < length xs then Some (xs ! Suc i) else None))"

lemma lset_rel_empty: "lset_rel h lset_empty []"
  by (simp add: lset_rel_def lset_empty_def uset_empty_ok)

lemma add_back_rel:
  assumes r: "lset_rel h L xs" and m: "0 < m" and a: "add_back h m x L = (b, L')"
  shows "b = (x \<notin> set xs) \<and> lset_rel h L' (if x \<in> set xs then xs else xs @ [x])"
proof -
  obtain p fresh B where B: "do_insert h m x (l_backing L) = (p, fresh, B)" by (cases "do_insert h m x (l_backing L)")
  have ins: "uset_ok h B \<and> elems B = insert x (set xs) \<and> fresh = (x \<notin> set xs)"
    using do_insert_ok [OF _ m B] r by (simp add: lset_rel_def)
  show ?thesis
  proof (cases "x \<in> set xs")
    case True
    then show ?thesis using a B ins r by (auto simp: add_back_def lset_rel_def insert_absorb)
  next
    case False
    let ?nx = "case l_last L of Some y \<Rightarrow> (l_next L)(x := None, y := Some x) | None \<Rightarrow> (l_next L)(x := None)"
    have L': "b" "l_backing L' = B" "l_next L' = ?nx" "l_last L' = Some x" "l_first L' = (case l_first L of None \<Rightarrow> Some x | Some y \<Rightarrow> Some y)"
      using a B ins False by (auto simp: add_back_def Let_def split: option.splits)
    have "?nx ((xs @ [x]) ! i) = (if Suc i < length (xs @ [x]) then Some ((xs @ [x]) ! Suc i) else None)" if "i < length (xs @ [x])" for i
    proof (cases "i < length xs")
      case True
      have ne: "xs ! i \<noteq> x" using True False by auto
      show ?thesis
      proof (cases "Suc i < length xs")
        case True
        then have "last xs = xs ! (length xs - 1)" by (intro last_conv_nth) auto
        then have "xs ! i \<noteq> last xs" using r True by (simp add: lset_rel_def nth_eq_iff_index_eq)
        then show ?thesis using r True ne by (auto simp: lset_rel_def nth_append split: option.splits)
      next
        case False
        then have i: "Suc i = length xs" using True by simp
        then have "last xs = xs ! i" using last_conv_nth [of xs] by (metis diff_Suc_1 length_0_conv nat.simps(3))
        note i = i this
        then show ?thesis using r True ne by (auto simp: lset_rel_def nth_append split: option.splits)
      qed
    next
      case False
      then have "i = length xs" using that by simp
      moreover have "xs \<noteq> [] \<Longrightarrow> last xs \<noteq> x" using \<open>x \<notin> set xs\<close> last_in_set by metis
      ultimately show ?thesis using r \<open>x \<notin> set xs\<close> by (auto simp: lset_rel_def nth_append split: option.splits)
    qed
    then show ?thesis using L' ins r False by (auto simp: lset_rel_def split: list.splits option.splits)
  qed
qed

end
