(* ===== verification/Cycle_Check.thy ===== *)
theory Cycle_Check
  imports Hash_Set Sample_Set
begin

text \<open>
  The search for dependency cycles (\<^verbatim>\<open>check_cycle\<close> of \<^verbatim>\<open>load-service.cc\<close>): a walk over the dependencies
  with a set of pending services that grows at its end while it is iterated over.
\<close>

section \<open>The search\<close>

text \<open>Adding the targets of some dependencies to the pending services; nothing if one is the service itself.\<close>

fun scan_deps :: "('x \<Rightarrow> 'p \<Rightarrow> 'p) \<Rightarrow> 'x \<Rightarrow> 'x list \<Rightarrow> 'p \<Rightarrow> 'p option" where
  "scan_deps add orig [] P = Some P"
| "scan_deps add orig (y # ys) P = (if y = orig then None else scan_deps add orig ys (add y P))"

text \<open>The iteration; the outer result is missing if the fuel runs out, the inner one says whether a cycle was found.\<close>

primrec pending_loop ::
  "nat \<Rightarrow> ('x \<Rightarrow> 'p \<Rightarrow> 'p) \<Rightarrow> ('p \<Rightarrow> 'x \<Rightarrow> 'x option) \<Rightarrow> ('x \<Rightarrow> 'x list) \<Rightarrow> 'x \<Rightarrow> 'x option \<Rightarrow> 'p \<Rightarrow> bool option" where
  "pending_loop 0 add nxt targets orig i P = None"
| "pending_loop (Suc n) add nxt targets orig i P =
     (case i of
        None \<Rightarrow> Some False
      | Some x \<Rightarrow>
          (case scan_deps add orig (targets x) P of
             None \<Rightarrow> Some True
           | Some P \<Rightarrow> pending_loop n add nxt targets orig (nxt P x) P))"

definition dep_targets :: "sset \<Rightarrow> sid \<Rightarrow> sid list" where
  "dep_targets st x = map (\<lambda>d. dep_to (deps st d)) (depends_on (svcs st x))"

definition check_cycle :: "nat \<Rightarrow> (sid \<Rightarrow> nat) \<Rightarrow> nat \<Rightarrow> sid list \<Rightarrow> sid \<Rightarrow> sset \<Rightarrow> bool option" where
  "check_cycle n h max_size new_deps orig st =
     (case scan_deps (\<lambda>x P. snd (add_back h max_size x P)) orig new_deps lset_empty of
        None \<Rightarrow> Some True
      | Some P \<Rightarrow>
          pending_loop n (\<lambda>x P. snd (add_back h max_size x P)) l_next (dep_targets st) orig (l_first P) P)"

section \<open>Correctness over any set that keeps its order\<close>

locale pending_set =
  fixes rel :: "'p \<Rightarrow> 'x list \<Rightarrow> bool"
    and new :: 'p
    and add :: "'x \<Rightarrow> 'p \<Rightarrow> 'p"
    and fst_of :: "'p \<Rightarrow> 'x option"
    and nxt :: "'p \<Rightarrow> 'x \<Rightarrow> 'x option"
  assumes rel_new: "rel new []"
    and rel_distinct: "rel P xs \<Longrightarrow> distinct xs"
    and rel_add: "rel P xs \<Longrightarrow> rel (add x P) (if x \<in> set xs then xs else xs @ [x])"
    and rel_first: "rel P xs \<Longrightarrow> fst_of P = (case xs of [] \<Rightarrow> None | x # _ \<Rightarrow> Some x)"
    and rel_next: "rel P xs \<Longrightarrow> i < length xs \<Longrightarrow> nxt P (xs ! i) = (if Suc i < length xs then Some (xs ! Suc i) else None)"
begin

lemma scan_deps_None: "scan_deps add orig ys P = None \<longleftrightarrow> orig \<in> set ys"
  by (induction ys arbitrary: P) auto

lemma scan_deps_Some:
  assumes "rel P xs" "scan_deps add orig ys P = Some P'"
  shows "\<exists>zs. rel P' (xs @ zs) \<and> set (xs @ zs) = set xs \<union> set ys"
  using assms
proof (induction ys arbitrary: P xs)
  case Nil
  then show ?case by (intro exI [of _ "[]"]) simp
next
  case (Cons y ys)
  then have "scan_deps add orig ys (add y P) = Some P'" by (simp split: if_splits)
  from Cons.IH [OF rel_add [OF Cons.prems(1)] this] obtain zs
    where zs: "rel P' ((if y \<in> set xs then xs else xs @ [y]) @ zs)"
      "set ((if y \<in> set xs then xs else xs @ [y]) @ zs) = set (if y \<in> set xs then xs else xs @ [y]) \<union> set ys" by blast
  show ?case
  proof (cases "y \<in> set xs")
    case True
    then show ?thesis using zs by (intro exI [of _ zs]) auto
  next
    case False
    then show ?thesis using zs by (intro exI [of _ "y # zs"]) auto
  qed
qed

lemma pending_loop_reach:
  assumes "rel P xs" "i \<le> length xs" "\<forall>j < i. set (targets (xs ! j)) \<subseteq> set xs" "orig \<notin> set xs" "set xs \<subseteq> U"
    and U: "finite U" "\<forall>x \<in> U. orig \<notin> set (targets x) \<longrightarrow> set (targets x) \<subseteq> U"
    and "card U < n + i" "cur = (if i < length xs then Some (xs ! i) else None)"
  shows "pending_loop n add nxt targets orig cur P = Some (\<exists>x \<in> set xs. (x, orig) \<in> {(x, y). y \<in> set (targets x)}\<^sup>*)"
  using assms(1-5,8,9)
proof (induction n arbitrary: P xs i cur)
  case 0
  have "length xs \<le> card U" using distinct_card [OF rel_distinct [OF "0"(1)]] card_mono [OF U(1) "0"(5)] by simp
  then show ?case using "0" by simp
next
  case (Suc n)
  let ?E = "{(x, y). y \<in> set (targets x)}"
  show ?case
  proof (cases "i < length xs")
    case False
    then have closed: "set (targets x) \<subseteq> set xs" if "x \<in> set xs" for x
      using Suc.prems(2,3) that by (metis in_set_conv_nth le_antisym not_le)
    have "y \<in> set xs" if "(x, y) \<in> ?E\<^sup>*" "x \<in> set xs" for x y
      using that by (induction rule: rtrancl_induct) (use closed in auto)
    then show ?thesis using False Suc.prems(4,7) by auto
  next
    case True
    let ?x = "xs ! i"
    have x: "?x \<in> set xs" using True by simp
    show ?thesis
    proof (cases "scan_deps add orig (targets ?x) P")
      case None
      then have "(?x, orig) \<in> ?E" by (simp add: scan_deps_None)
      then show ?thesis using None True Suc.prems(7) x by auto
    next
      case (Some P')
      have no: "orig \<notin> set (targets ?x)" using Some scan_deps_None [of orig "targets ?x" P] by simp
      obtain zs where zs: "rel P' (xs @ zs)" "set (xs @ zs) = set xs \<union> set (targets ?x)"
        using scan_deps_Some [OF Suc.prems(1) Some] by blast
      have tU: "set (targets ?x) \<subseteq> U" using U(2) x Suc.prems(5) no by blast
      have "pending_loop n add nxt targets orig (nxt P' ?x) P' = Some (\<exists>y \<in> set (xs @ zs). (y, orig) \<in> ?E\<^sup>*)"
      proof (rule Suc.IH [OF zs(1), of "Suc i"])
        show "\<forall>j < Suc i. set (targets ((xs @ zs) ! j)) \<subseteq> set (xs @ zs)"
          using Suc.prems(3) True zs(2) by (auto simp: nth_append less_Suc_eq)
        show "nxt P' ?x = (if Suc i < length (xs @ zs) then Some ((xs @ zs) ! Suc i) else None)"
          using rel_next [OF zs(1), of i] True by (simp add: nth_append)
      qed (use True no zs(2) tU Suc.prems in auto)
      moreover have "(\<exists>y \<in> set (xs @ zs). (y, orig) \<in> ?E\<^sup>*) \<longleftrightarrow> (\<exists>y \<in> set xs. (y, orig) \<in> ?E\<^sup>*)"
        unfolding zs(2) using x by (auto intro: converse_rtrancl_into_rtrancl)
      ultimately show ?thesis using Some True Suc.prems(7) by simp
    qed
  qed
qed

lemma search_exact:
  assumes "finite U" "set ys \<subseteq> U" "\<forall>x \<in> U. set (targets x) \<subseteq> U" "card U < n"
  shows "(case scan_deps add orig ys new of None \<Rightarrow> Some True | Some P \<Rightarrow> pending_loop n add nxt targets orig (fst_of P) P) =
    Some (\<exists>y \<in> set ys. (y, orig) \<in> {(x, y). y \<in> set (targets x)}\<^sup>*)"
proof (cases "scan_deps add orig ys new")
  case None
  then show ?thesis using scan_deps_None [of orig ys new] by auto
next
  case (Some P)
  obtain zs where zs: "rel P zs" "set zs = set ys" using scan_deps_Some [OF rel_new Some] by auto
  have "orig \<notin> set ys" using Some scan_deps_None [of orig ys new] by simp
  then have "pending_loop n add nxt targets orig (fst_of P) P = Some (\<exists>x \<in> set zs. (x, orig) \<in> {(x, y). y \<in> set (targets x)}\<^sup>*)"
    using assms zs rel_first [OF zs(1)] by (intro pending_loop_reach [where i = 0 and U = U]) (auto split: list.split)
  then show ?thesis using Some zs(2) by simp
qed

end

section \<open>The search with the linked hash set\<close>

lemma lset_pending:
  assumes "0 < m"
  shows "pending_set (lset_rel h) lset_empty (\<lambda>x P. snd (add_back h m x P)) l_first l_next"
proof
  fix P xs x
  assume r: "lset_rel h P xs"
  show "lset_rel h (snd (add_back h m x P)) (if x \<in> set xs then xs else xs @ [x])"
    using add_back_rel [OF r assms, of x] by (metis surjective_pairing)
qed (simp add: lset_rel_empty, auto simp: lset_rel_def)

text \<open>A vector has room for at least one bucket; the hash of a service is its address.\<close>

definition vec_max :: nat where "vec_max = 2 ^ 60"

interpretation lset: pending_set "lset_rel h" lset_empty "\<lambda>x P. snd (add_back h vec_max x P)" l_first l_next for h
  by (rule lset_pending) (simp add: vec_max_def)

section \<open>Exactness\<close>

abbreviation depends :: "sset \<Rightarrow> (sid \<times> sid) set" where
  "depends st \<equiv> {(x, y). y \<in> set (dep_targets st x)}"

lemma check_cycle_reach:
  assumes "finite U" "set new_deps \<subseteq> U" "\<forall>x \<in> U. set (dep_targets st x) \<subseteq> U" "card U < n"
  shows "check_cycle n h vec_max new_deps orig st = Some (\<exists>y \<in> set new_deps. (y, orig) \<in> (depends st)\<^sup>*)"
  unfolding check_cycle_def using assms by (rule lset.search_exact)

text \<open>
  C36. The check for dependency cycles terminates and is exact: it reports a cycle if and only if the
  service can be reached along dependencies from one of its new dependencies, however services are
  hashed.
\<close>

theorem check_cycle_exact:
  assumes "finite U" "set new_deps \<subseteq> U" "\<forall>x \<in> U. set (dep_targets st x) \<subseteq> U" "card U < n"
  shows "check_cycle n h vec_max new_deps orig st = Some (\<exists>y \<in> set new_deps. (y, orig) \<in> {(x, y). y \<in> set (dep_targets st x)}\<^sup>*)"
  using assms by (rule check_cycle_reach)

theorem check_cycle_exact_witness: "check_cycle 4 (\<lambda>x. x) vec_max [0] 2 sample_set = Some True"
proof -
  have "(0, 1) \<in> depends sample_set" "(1, 2) \<in> depends sample_set"
    by (simp_all add: dep_targets_def sample_set_def new_service_set_def new_service_record_def new_dep_def)
  then have "(0, 2) \<in> (depends sample_set)\<^sup>*" by (meson r_into_rtrancl rtrancl_into_rtrancl)
  moreover have "\<forall>x \<in> {0, 1, 2}. set (dep_targets sample_set x) \<subseteq> {0, 1, 2}"
    by (simp add: dep_targets_def sample_set_def new_service_set_def new_service_record_def new_dep_def)
  ultimately show ?thesis using check_cycle_exact [of "{0, 1, 2}" "[0]" sample_set 4 "\<lambda>x. x" 2] by auto
qed

end
