(* ===== verification/Heap_Strings.thy ===== *)
theory Heap_Strings
  imports Prelude
begin

text \<open>
  Strings that always live on the heap (\<^verbatim>\<open>ha_string\<close> of \<^verbatim>\<open>dinit-util.h\<close>), and the commands of process
  services, which are such a string together with pointers to the beginnings of its parts
  (\<^verbatim>\<open>separate_args\<close>, \<^verbatim>\<open>set_command\<close>, \<^verbatim>\<open>get_command\<close>). A buffer has an address; a freed buffer has no
  content, and an operation that would touch one, or the null pointer, has no result.
\<close>

section \<open>Buffers\<close>

type_synonym addr = nat

record char_heap =
  bufs :: "addr \<Rightarrow> string option"
  next_addr :: addr

definition empty_heap :: char_heap where
  "empty_heap = \<lparr>bufs = (\<lambda>_. None), next_addr = 0\<rparr>"

definition new_chars :: "string \<Rightarrow> char_heap \<Rightarrow> addr \<times> char_heap" where
  "new_chars s h = (next_addr h, h\<lparr>bufs := (bufs h)(next_addr h \<mapsto> s), next_addr := Suc (next_addr h)\<rparr>)"

text \<open>\<^verbatim>\<open>delete[]\<close>: nothing for the null pointer.\<close>

definition delete_chars :: "addr option \<Rightarrow> char_heap \<Rightarrow> char_heap" where
  "delete_chars p h = (case p of None \<Rightarrow> h | Some a \<Rightarrow> h\<lparr>bufs := (bufs h)(a := None)\<rparr>)"

text \<open>The first \<open>n\<close> characters behind a pointer, as far as they are there.\<close>

definition read_chars :: "char_heap \<Rightarrow> addr option \<Rightarrow> nat \<Rightarrow> string option" where
  "read_chars h p n =
     (case p of None \<Rightarrow> None
      | Some a \<Rightarrow> (case bufs h a of None \<Rightarrow> None | Some s \<Rightarrow> if n \<le> length s then Some (take n s) else None))"

text \<open>The C string that starts at an offset of a buffer: everything before the next null character.\<close>

definition read_c_string :: "char_heap \<Rightarrow> addr option \<times> nat \<Rightarrow> string option" where
  "read_c_string h p =
     (case Option.bind (fst p) (bufs h) of None \<Rightarrow> None
      | Some s \<Rightarrow>
          (let t = drop (snd p) s; u = takeWhile (\<lambda>c. c \<noteq> CHR 0x00) t
           in if length u < length t then Some u else None))"

section \<open>Operations of a string\<close>

record ha_string =
  str_data :: "addr option"
  str_len :: nat

definition ha_empty :: ha_string where
  "ha_empty = \<lparr>str_data = None, str_len = 0\<rparr>"

definition ha_assign_string :: "string \<Rightarrow> ha_string \<Rightarrow> char_heap \<Rightarrow> ha_string \<times> char_heap" where
  "ha_assign_string s this h =
     (let (a, h) = new_chars (s @ [CHR 0x00]) h in (\<lparr>str_data = Some a, str_len = length s\<rparr>, delete_chars (str_data this) h))"

text \<open>
  Copying copies the terminating character too; it fails on an empty string, whose data pointer is
  null. The buffer is freed before the other one is read, which matters if both are the same.
\<close>

definition ha_copy_assign :: "ha_string \<Rightarrow> ha_string \<Rightarrow> char_heap \<Rightarrow> (ha_string \<times> char_heap) option" where
  "ha_copy_assign this other h =
     (let h' = delete_chars (str_data this) h
      in case read_chars h' (str_data other) (str_len other + 1) of
           None \<Rightarrow> None
         | Some s \<Rightarrow> (let (a, h'') = new_chars s h' in Some (\<lparr>str_data = Some a, str_len = str_len other\<rparr>, h'')))"

text \<open>The new value, what is left of the other string, and the heap.\<close>

definition ha_move_assign :: "ha_string \<Rightarrow> ha_string \<Rightarrow> char_heap \<Rightarrow> ha_string \<times> ha_string \<times> char_heap" where
  "ha_move_assign this other h = (other, ha_empty, delete_chars (str_data this) h)"

text \<open>
  The constructor for values that are to be moved takes a constant reference, from which assignment can
  only copy.
\<close>

definition ha_move_construct :: "ha_string \<Rightarrow> char_heap \<Rightarrow> (ha_string \<times> char_heap) option" where
  "ha_move_construct other h = ha_copy_assign ha_empty other h"

definition ha_destroy :: "ha_string \<Rightarrow> char_heap \<Rightarrow> char_heap" where
  "ha_destroy this h = delete_chars (str_data this) h"

definition ha_put :: "ha_string \<Rightarrow> nat \<Rightarrow> char \<Rightarrow> char_heap \<Rightarrow> char_heap option" where
  "ha_put this i c h =
     (case str_data this of None \<Rightarrow> None
      | Some a \<Rightarrow>
          (case bufs h a of None \<Rightarrow> None
           | Some s \<Rightarrow> if i < length s then Some (h\<lparr>bufs := (bufs h)(a \<mapsto> s[i := c])\<rparr>) else None))"

text \<open>\<^verbatim>\<open>strncmp\<close> over the length of the string, with the outcome \<open>equal\<close> or not.\<close>

fun strncmp_eq :: "nat \<Rightarrow> string \<Rightarrow> string \<Rightarrow> bool" where
  "strncmp_eq 0 s t = True"
| "strncmp_eq (Suc n) (c # s) (d # t) = (c = d \<and> (c = CHR 0x00 \<or> strncmp_eq n s t))"
| "strncmp_eq (Suc n) _ _ = False"

definition ha_equals :: "char_heap \<Rightarrow> ha_string \<Rightarrow> string \<Rightarrow> bool option" where
  "ha_equals h this other =
     map_option (\<lambda>s. strncmp_eq (str_len this) s (other @ [CHR 0x00])) (read_chars h (str_data this) (str_len this))"

definition ha_is_empty :: "ha_string \<Rightarrow> bool" where
  "ha_is_empty this \<longleftrightarrow> str_len this = 0"

text \<open>\<open>Inl ()\<close> is the exception \<^verbatim>\<open>out_of_range\<close>.\<close>

definition ha_substr :: "char_heap \<Rightarrow> ha_string \<Rightarrow> nat \<Rightarrow> nat \<Rightarrow> (unit + string) option" where
  "ha_substr h this pos n =
     (if pos > str_len this then Some (Inl ())
      else map_option (\<lambda>s. Inr (drop pos s)) (read_chars h (str_data this) (pos + min n (str_len this - pos))))"

section \<open>Commands\<close>

fun terminate_parts :: "ha_string \<Rightarrow> (nat \<times> nat) list \<Rightarrow> char_heap \<Rightarrow> char_heap option" where
  "terminate_parts s [] h = Some h"
| "terminate_parts s (p # ps) h =
     (if snd p < str_len s
      then case ha_put s (snd p) (CHR 0x00) h of None \<Rightarrow> None | Some h \<Rightarrow> terminate_parts s ps h
      else terminate_parts s ps h)"

text \<open>The trailing null pointer of the vector is left out.\<close>

definition separate_args :: "ha_string \<Rightarrow> (nat \<times> nat) list \<Rightarrow> char_heap \<Rightarrow> ((addr option \<times> nat) list \<times> char_heap) option" where
  "separate_args s ps h =
     (case terminate_parts s ps h of None \<Rightarrow> None
      | Some h \<Rightarrow> Some (map (\<lambda>p. (str_data s, fst p)) ps, h))"

record command =
  program_name :: ha_string
  exec_arg_parts :: "(addr option \<times> nat) list"

definition set_command :: "ha_string \<Rightarrow> (addr option \<times> nat) list \<Rightarrow> command \<Rightarrow> char_heap \<Rightarrow> command \<times> char_heap" where
  "set_command s parts c h =
     (let (p, _, h) = ha_move_assign (program_name c) s h in (\<lparr>program_name = p, exec_arg_parts = parts\<rparr>, h))"

definition get_command :: "command \<Rightarrow> char_heap \<Rightarrow> (ha_string \<times> (addr option \<times> nat) list \<times> char_heap) option" where
  "get_command c h =
     (case ha_copy_assign ha_empty (program_name c) h of None \<Rightarrow> None
      | Some (s, h) \<Rightarrow> Some (s, exec_arg_parts c, h))"

text \<open>
  Changing the command of a service, then its dependencies; if the latter fails, the command is to be
  as before. \<open>ok\<close> is the outcome of changing the dependencies. Whatever is not moved is destroyed at
  the end.
\<close>

definition update_command :: "bool \<Rightarrow> ha_string \<Rightarrow> (nat \<times> nat) list \<Rightarrow> command \<Rightarrow> char_heap \<Rightarrow> (command \<times> char_heap) option" where
  "update_command ok s offsets c h =
     (case get_command c h of None \<Rightarrow> None
      | Some (orig_cmd, orig_arg_parts, h) \<Rightarrow>
          (case separate_args s offsets h of None \<Rightarrow> None
           | Some (cmd_arg_parts, h) \<Rightarrow>
               (let (c, h) = set_command s cmd_arg_parts c h
                in Some (if ok then (c, ha_destroy orig_cmd h) else set_command orig_cmd orig_arg_parts c h))))"

definition arguments :: "char_heap \<Rightarrow> command \<Rightarrow> string option list" where
  "arguments h c = map (read_c_string h) (exec_arg_parts c)"

section \<open>The arguments of a command\<close>

definition part_of :: "string \<Rightarrow> nat \<times> nat \<Rightarrow> string" where
  "part_of t p = take (snd p - fst p) (drop (fst p) t)"

text \<open>Parts in order, separated by at least one character, without null characters.\<close>

definition proper_parts :: "string \<Rightarrow> (nat \<times> nat) list \<Rightarrow> bool" where
  "proper_parts t ps \<longleftrightarrow>
     sorted_wrt (\<lambda>p q. snd p < fst q) ps \<and>
     (\<forall>p \<in> set ps. fst p \<le> snd p \<and> snd p \<le> length t \<and> CHR 0x00 \<notin> set (part_of t p))"

definition holds_text :: "char_heap \<Rightarrow> ha_string \<Rightarrow> string \<Rightarrow> bool" where
  "holds_text h s t \<longleftrightarrow>
     (\<exists>a. str_data s = Some a \<and> a < next_addr h \<and> bufs h a = Some (t @ [CHR 0x00]) \<and> str_len s = length t)"

definition terminated :: "string \<Rightarrow> (nat \<times> nat) list \<Rightarrow> string" where
  "terminated t ps = fold (\<lambda>p t. if snd p < length t - 1 then t[snd p := CHR 0x00] else t) ps t"

lemma length_terminated [simp]: "length (terminated t ps) = length t"
  unfolding terminated_def by (induction ps arbitrary: t) auto

lemma upd_twice: "(\<lambda>b. if b = a then x else if b = a then y else f b) = (\<lambda>b. if b = a then x else f b)"
  by auto

lemma terminate_parts_text:
  assumes "str_data s = Some a" "bufs h a = Some t" "str_len s = length t - 1"
  shows "terminate_parts s ps h = Some (h\<lparr>bufs := (bufs h)(a \<mapsto> terminated t ps)\<rparr>)"
  using assms
proof (induction ps arbitrary: h t)
  case Nil
  then have "(bufs h)(a \<mapsto> t) = bufs h" by auto
  then show ?case by (simp add: terminated_def)
next
  case (Cons p ps)
  show ?case
  proof (cases "snd p < length t - 1")
    case True
    let ?t = "t[snd p := CHR 0x00]"
    have "ha_put s (snd p) (CHR 0x00) h = Some (h\<lparr>bufs := (bufs h)(a \<mapsto> ?t)\<rparr>)" using Cons.prems True by (simp add: ha_put_def)
    then show ?thesis using Cons.IH [of "h\<lparr>bufs := (bufs h)(a \<mapsto> ?t)\<rparr>" ?t] Cons.prems True by (simp add: terminated_def upd_twice)
  next
    case False
    then show ?thesis using Cons by (simp add: terminated_def)
  qed
qed

text \<open>A position changes only if a part ends there.\<close>

lemma terminated_nth:
  assumes "i < length t"
  shows "terminated t ps ! i = (if i < length t - 1 \<and> i \<in> snd ` set ps then CHR 0x00 else t ! i)"
  using assms unfolding terminated_def
proof (induction ps arbitrary: t)
  case (Cons p ps)
  then show ?case by (auto simp: nth_list_update)
qed simp

lemma takeWhile_part:
  assumes "\<And>i. a \<le> i \<Longrightarrow> i < b \<Longrightarrow> u ! i \<noteq> c" "u ! b = c" "a \<le> b" "b < length u"
  shows "takeWhile (\<lambda>x. x \<noteq> c) (drop a u) = take (b - a) (drop a u)"
proof -
  have "takeWhile (\<lambda>x. x \<noteq> c) (drop a u) = take (b - a) (drop a u)"
    by (rule takeWhile_eq_take_P_nth) (use assms in auto)
  then show ?thesis .
qed

lemma sorted_wrt_apart: "sorted_wrt R xs \<Longrightarrow> x \<in> set xs \<Longrightarrow> y \<in> set xs \<Longrightarrow> x = y \<or> R x y \<or> R y x"
  by (induction xs) auto

lemma terminated_part:
  assumes "proper_parts t ps" "p \<in> set ps"
  shows "takeWhile (\<lambda>c. c \<noteq> CHR 0x00) (drop (fst p) (terminated (t @ [CHR 0x00]) ps)) = part_of t p"
proof -
  let ?u = "terminated (t @ [CHR 0x00]) ps"
  have p: "fst p \<le> snd p" "snd p \<le> length t" "CHR 0x00 \<notin> set (part_of t p)"
    using assms by (auto simp: proper_parts_def)
  have out: "\<not> (fst p \<le> i \<and> i < snd p)" if "q \<in> set ps" "i = snd q" for q i
  proof -
    have "q = p \<or> snd q < fst p \<or> snd p < fst q"
      using assms that(1) sorted_wrt_apart [of "\<lambda>p q. snd p < fst q" ps q p] by (simp add: proper_parts_def)
    moreover have "fst q \<le> snd q" using assms(1) that(1) by (simp add: proper_parts_def)
    ultimately show ?thesis using that(2) by auto
  qed
  have same: "?u ! i = t ! i" if "fst p \<le> i" "i < snd p" for i
    using that p(2) out by (auto simp: terminated_nth nth_append)
  moreover have "t ! i \<noteq> CHR 0x00" if i: "fst p \<le> i" "i < snd p" for i
  proof -
    have "t ! i = part_of t p ! (i - fst p)" "i - fst p < length (part_of t p)" using i p(2) by (simp_all add: part_of_def)
    then show ?thesis using p(3) by (metis nth_mem)
  qed
  moreover have "?u ! snd p = CHR 0x00" using assms(2) p(2) by (auto simp: terminated_nth nth_append)
  ultimately have "takeWhile (\<lambda>c. c \<noteq> CHR 0x00) (drop (fst p) ?u) = take (snd p - fst p) (drop (fst p) ?u)"
    by (intro takeWhile_part) (use p in auto)
  also have "\<dots> = part_of t p"
    unfolding part_of_def by (rule nth_equalityI) (use p same in auto)
  finally show ?thesis .
qed

text \<open>A command whose parts are read as C strings gives the parts of the text.\<close>

lemma separate_args_reads:
  assumes "holds_text h s t" "proper_parts t ps" "separate_args s ps h = Some (parts, h')"
  shows "map (read_c_string h') parts = map (\<lambda>p. Some (part_of t p)) ps"
proof -
  let ?u = "terminated (t @ [CHR 0x00]) ps"
  obtain a where a: "str_data s = Some a" "bufs h a = Some (t @ [CHR 0x00])" "str_len s = length t"
    using assms(1) by (auto simp: holds_text_def)
  then have h': "bufs h' a = Some ?u" and parts: "parts = map (\<lambda>p. (Some a, fst p)) ps"
    using assms(3) terminate_parts_text [of s a h "t @ [CHR 0x00]" ps] by (auto simp: separate_args_def)
  have "read_c_string h' (Some a, fst p) = Some (part_of t p)" if "p \<in> set ps" for p
    using terminated_part [OF assms(2) that] that assms(2)
    by (auto simp: read_c_string_def h' Let_def part_of_def proper_parts_def)
  then show ?thesis by (simp add: parts)
qed

lemma separate_args_other:
  assumes "str_data s = Some a" "separate_args s ps h = Some (parts, h')"
  shows "b \<noteq> a \<Longrightarrow> bufs h' b = bufs h b" "next_addr h' = next_addr h" "set (map fst parts) \<subseteq> {Some a}"
proof -
  have put: "ha_put s i c g = Some g' \<Longrightarrow> next_addr g' = next_addr g \<and> (b \<noteq> a \<longrightarrow> bufs g' b = bufs g b)" for i c g g'
    using assms(1) by (auto simp: ha_put_def split: option.splits if_splits)
  have "terminate_parts s ps g = Some g' \<Longrightarrow> next_addr g' = next_addr g \<and> (b \<noteq> a \<longrightarrow> bufs g' b = bufs g b)" for g g'
    by (induction ps arbitrary: g) (auto dest: put split: if_splits option.splits)
  then show "b \<noteq> a \<Longrightarrow> bufs h' b = bufs h b" "next_addr h' = next_addr h" "set (map fst parts) \<subseteq> {Some a}"
    using assms by (auto simp: separate_args_def split: option.splits)
qed

text \<open>What the installation of a command does to the heap, up to the outcome of the rest.\<close>

lemma update_command_steps:
  assumes "holds_text h (program_name c) t" "holds_text h s u" "str_data s \<noteq> str_data (program_name c)"
    and "update_command ok s ps c h = Some (c', h')"
  obtains a b parts h1 h2 where "str_data (program_name c) = Some a" "str_data s = Some b" "a \<noteq> b" "holds_text h1 s u"
    and "separate_args s ps h1 = Some (parts, h2)"
    and "bufs h2 (next_addr h) = Some (t @ [CHR 0x00])" "next_addr h \<notin> {a, b}"
    and "c' = (if ok then \<lparr>program_name = s, exec_arg_parts = parts\<rparr>
               else \<lparr>program_name = \<lparr>str_data = Some (next_addr h), str_len = length t\<rparr>, exec_arg_parts = exec_arg_parts c\<rparr>)"
    and "bufs h' = (bufs h2)(a := None, (if ok then next_addr h else b) := None)"
proof -
  obtain a where a: "str_data (program_name c) = Some a" "a < next_addr h" "bufs h a = Some (t @ [CHR 0x00])" "str_len (program_name c) = length t"
    using assms(1) by (auto simp: holds_text_def)
  obtain b where b: "str_data s = Some b" "b < next_addr h" "bufs h b = Some (u @ [CHR 0x00])" "str_len s = length u"
    using assms(2) by (auto simp: holds_text_def)
  let ?h1 = "h\<lparr>bufs := (bufs h)(next_addr h \<mapsto> t @ [CHR 0x00]), next_addr := Suc (next_addr h)\<rparr>"
  have copy: "get_command c h = Some (\<lparr>str_data = Some (next_addr h), str_len = length t\<rparr>, exec_arg_parts c, ?h1)"
    using a by (simp add: get_command_def ha_copy_assign_def read_chars_def ha_empty_def delete_chars_def new_chars_def)
  then obtain parts h2 where sep: "separate_args s ps ?h1 = Some (parts, h2)"
    using assms(4) by (auto simp: update_command_def split: option.splits)
  have h1: "holds_text ?h1 s u" using b by (simp add: holds_text_def)
  have "a \<noteq> b" "next_addr h \<notin> {a, b}" using assms(3) a b by auto
  moreover have "bufs h2 (next_addr h) = Some (t @ [CHR 0x00])" using separate_args_other(1) [OF b(1) sep, of "next_addr h"] \<open>next_addr h \<notin> {a, b}\<close> by simp
  moreover have "c' = (if ok then \<lparr>program_name = s, exec_arg_parts = parts\<rparr>
               else \<lparr>program_name = \<lparr>str_data = Some (next_addr h), str_len = length t\<rparr>, exec_arg_parts = exec_arg_parts c\<rparr>)"
    and "bufs h' = (bufs h2)(a := None, (if ok then next_addr h else b) := None)"
    using assms(4) copy sep a(1) b(1)
    by (auto simp: update_command_def set_command_def ha_move_assign_def ha_destroy_def delete_chars_def split: if_splits)
  ultimately show ?thesis using that [OF a(1) b(1) _ h1 sep] by blast
qed

text \<open>
  After the command of a service has been changed, its arguments are exactly the parts of the new
  text.
\<close>

theorem changed_command_arguments:
  assumes "holds_text h (program_name c) t" "holds_text h s u" "str_data s \<noteq> str_data (program_name c)"
    and "proper_parts u ps" "update_command True s ps c h = Some (c', h')"
  shows "arguments h' c' = map (\<lambda>p. Some (part_of u p)) ps"
proof -
  obtain a b parts h1 h2 where st: "str_data (program_name c) = Some a" "str_data s = Some b" "a \<noteq> b" "holds_text h1 s u"
    "separate_args s ps h1 = Some (parts, h2)" "bufs h2 (next_addr h) = Some (t @ [CHR 0x00])" "next_addr h \<notin> {a, b}"
    "c' = (if True then \<lparr>program_name = s, exec_arg_parts = parts\<rparr>
               else \<lparr>program_name = \<lparr>str_data = Some (next_addr h), str_len = length t\<rparr>, exec_arg_parts = exec_arg_parts c\<rparr>)"
    "bufs h' = (bufs h2)(a := None, (if True then next_addr h else b) := None)"
    by (rule update_command_steps [OF assms(1-3,5)])
  have "read_c_string h' p = read_c_string h2 p" if "p \<in> set parts" for p
  proof -
    have "fst p = Some b" using separate_args_other(3) [OF st(2,5)] that by auto
    then show ?thesis using st(3,7) by (simp add: read_c_string_def st(9))
  qed
  then have "map (read_c_string h') parts = map (read_c_string h2) parts" by simp
  then show ?thesis
    using separate_args_reads [OF st(4) assms(4) st(5)] st(8) by (simp add: arguments_def)
qed

text \<open>The command \<open>/sh x\<close> is to be replaced by \<open>/ls\<close>.\<close>

definition sample_heap :: char_heap where
  "sample_heap = \<lparr>bufs = [0 \<mapsto> ''/sh'' @ [CHR 0x00] @ ''x'' @ [CHR 0x00], 1 \<mapsto> ''/ls'' @ [CHR 0x00]], next_addr = 2\<rparr>"

definition sample_command :: command where
  "sample_command = \<lparr>program_name = \<lparr>str_data = Some 0, str_len = 5\<rparr>, exec_arg_parts = [(Some 0, 0), (Some 0, 4)]\<rparr>"

definition new_text :: ha_string where
  "new_text = \<lparr>str_data = Some 1, str_len = 3\<rparr>"

lemma sample_texts:
  "holds_text sample_heap (program_name sample_command) (''/sh'' @ [CHR 0x00] @ ''x'')" "holds_text sample_heap new_text ''/ls''"
  "str_data new_text \<noteq> str_data (program_name sample_command)"
  by (simp_all add: holds_text_def sample_heap_def sample_command_def new_text_def)

lemma sample_update: "update_command ok new_text [(0, 3)] sample_command sample_heap \<noteq> None"
  by (simp add: update_command_def get_command_def ha_copy_assign_def read_chars_def ha_empty_def delete_chars_def new_chars_def
      separate_args_def set_command_def ha_move_assign_def sample_heap_def sample_command_def new_text_def)

theorem changed_command_arguments_witness:
  "\<exists>c h. update_command True new_text [(0, 3)] sample_command sample_heap = Some (c, h) \<and> arguments h c = [Some ''/ls'']"
proof -
  obtain c h where u: "update_command True new_text [(0, 3)] sample_command sample_heap = Some (c, h)" using sample_update by fastforce
  have "proper_parts ''/ls'' [(0, 3)]" by (simp add: proper_parts_def part_of_def)
  then show ?thesis using changed_command_arguments [OF sample_texts _ u] u by (simp add: part_of_def)
qed

text \<open>
  If the change of a command is undone because the dependencies could not be changed, the text is
  restored, in a new buffer, but the pointers to the arguments still refer to the old buffer, which has
  been freed: no argument can be read any more.
\<close>

theorem undone_command_dangles:
  assumes "holds_text h (program_name c) t" "holds_text h s u" "str_data s \<noteq> str_data (program_name c)"
    and "set (map fst (exec_arg_parts c)) \<subseteq> {str_data (program_name c)}" "update_command False s ps c h = Some (c', h')"
  shows "arguments h' c' = map (\<lambda>_. None) (exec_arg_parts c) \<and> read_c_string h' (str_data (program_name c'), 0) = read_c_string h (str_data (program_name c), 0)"
proof -
  obtain a b parts h1 h2 where st: "str_data (program_name c) = Some a" "str_data s = Some b" "a \<noteq> b" "holds_text h1 s u"
    "separate_args s ps h1 = Some (parts, h2)" "bufs h2 (next_addr h) = Some (t @ [CHR 0x00])" "next_addr h \<notin> {a, b}"
    "c' = (if False then \<lparr>program_name = s, exec_arg_parts = parts\<rparr>
               else \<lparr>program_name = \<lparr>str_data = Some (next_addr h), str_len = length t\<rparr>, exec_arg_parts = exec_arg_parts c\<rparr>)"
    "bufs h' = (bufs h2)(a := None, (if False then next_addr h else b) := None)"
    by (rule update_command_steps [OF assms(1-3,5)])
  have "read_c_string h' p = None" if "p \<in> set (exec_arg_parts c)" for p
    using assms(4) st(1,9) that by (auto simp: read_c_string_def)
  then have "arguments h' c' = map (\<lambda>_. None) (exec_arg_parts c)" by (simp add: arguments_def st(8))
  moreover have "read_c_string h' (str_data (program_name c'), 0) = read_c_string h (str_data (program_name c), 0)"
    using assms(1) st(1,6,7) by (auto simp: read_c_string_def holds_text_def st(8,9))
  ultimately show ?thesis by simp
qed

theorem undone_command_dangles_witness:
  "arguments sample_heap sample_command = [Some ''/sh'', Some ''x''] \<and>
   (\<exists>c h. update_command False new_text [(0, 3)] sample_command sample_heap = Some (c, h) \<and> arguments h c = [None, None])"
proof -
  obtain c h where u: "update_command False new_text [(0, 3)] sample_command sample_heap = Some (c, h)" using sample_update by fastforce
  have "arguments h c = [None, None]"
    using undone_command_dangles [OF sample_texts _ u] by (simp add: sample_command_def)
  moreover have "arguments sample_heap sample_command = [Some ''/sh'', Some ''x'']"
    by (simp add: arguments_def sample_command_def sample_heap_def read_c_string_def)
  ultimately show ?thesis using u by blast
qed

text \<open>A comparison looks only at as many characters as the string has: a string equals whatever it is a prefix of.\<close>

lemma strncmp_prefix: "strncmp_eq (length s) s (s @ t)"
  by (induction s) auto

lemma equals_longer_text:
  "holds_text h s t \<Longrightarrow> ha_equals h s (t @ u) = Some True"
  by (auto simp: holds_text_def ha_equals_def read_chars_def strncmp_prefix)

end
