(* ===== verification/Service_Reload.thy ===== *)
theory Service_Reload
  imports Cycle_Check Service_Links Service_Settings Heap_Strings
begin

text \<open>
  Changing the settings of a service that is loaded already (\<^verbatim>\<open>load-service.cc\<close>): whether new settings
  can be taken over, and the exchange of its dependencies and of its command, with what is undone if
  memory runs out on the way.
\<close>

section \<open>Whether settings can be taken over\<close>

text \<open>\<^verbatim>\<open>strncmp\<close> on the fixed-size fields of the \<^verbatim>\<open>utmp\<close> settings.\<close>

definition same_field :: "nat \<Rightarrow> string \<Rightarrow> string \<Rightarrow> bool" where
  "same_field n s t \<longleftrightarrow> strncmp_eq n (s @ [CHR 0x00]) (t @ [CHR 0x00])"

definition check_settings_for_reload :: "sset \<Rightarrow> sid \<Rightarrow> string \<times> string \<Rightarrow> sid settings \<Rightarrow> bool outcome" where
  "check_settings_for_reload st x utmp S =
     (let s = svcs st x; p = procs st x; ty = record_type s
      in if service_state s \<noteq> STOPPED then
           (if s_service_type S \<noteq> ty then Throws (Load_exc ''cannot change type of non-stopped service.'')
            else if service_state s \<noteq> STARTED
            then Throws (Load_exc ''cannot alter settings for service which is currently starting/stopping.'')
            else
              (case find (\<lambda>(to, dt). dt = REGULAR \<and> service_state (svcs st to) \<noteq> STARTED) (s_depends S) of
                 Some (to, _) \<Rightarrow>
                   Throws (Load_exc (''cannot add non-started dependency '' @ [CHR 0x27] @ service_name (svcs st to) @ [CHR 0x27] @ ''.''))
               | None \<Rightarrow>
                   if starts_on_console (onstart_flags s) \<noteq> starts_on_console (s_onstart_flags S) \<or>
                      shares_console (onstart_flags s) \<noteq> shares_console (s_onstart_flags S)
                   then Throws (Load_exc ''cannot change starts_on_console/shares_console flags for a running service.'')
                   else if ty = BGPROCESS \<and> pid_file p \<noteq> s_pid_file S
                   then Throws (Load_exc ''cannot change pid_file for running service.'')
                   else if ty = PROCESS \<and>
                      (\<not> same_field ut_id_size (fst utmp) (s_inittab_id S) \<or> \<not> same_field ut_line_size (snd utmp) (s_inittab_line S))
                   then Throws (Load_exc ''cannot change inittab-id or inittab-line settings for running service.'')
                   else if ty \<in> {PROCESS, BGPROCESS, SCRIPTED} \<and> log_type p \<noteq> s_log_type S
                   then Throws (Load_exc ''cannot change log-type for running service.'')
                   else Done False))
         else Done (s_service_type S \<noteq> ty))"

section \<open>Exchanging the dependencies\<close>

text \<open>
  An iterator into a list of links that are known to stay is the link it points to, or nothing at the
  end of the list.
\<close>

definition first_of :: "'a list \<Rightarrow> 'a option" where
  "first_of l = (case l of [] \<Rightarrow> None | d # _ \<Rightarrow> Some d)"

definition pos_of :: "'a option \<Rightarrow> 'a list \<Rightarrow> nat" where
  "pos_of p l = (case p of None \<Rightarrow> length l | Some d \<Rightarrow> length (takeWhile (\<lambda>e. e \<noteq> d) l))"

definition splice_before :: "sid \<Rightarrow> did \<Rightarrow> sset \<Rightarrow> sset" where
  "splice_before x d st =
     upd_svc (dep_from (deps st d)) (\<lambda>s. s\<lparr>depends_on := d # depends_on s\<rparr>)
       (upd_svc x (\<lambda>s. s\<lparr>dependents := d # dependents s\<rparr>) st)"

text \<open>Results: whether everything could be allocated, and what is left to be inserted.\<close>

fun insert_befores :: "os_env \<Rightarrow> sid \<Rightarrow> did list \<Rightarrow> sset \<Rightarrow> bool \<times> did list \<times> sset" where
  "insert_befores E x [] st = (True, [], st)"
| "insert_befores E x (d # ds) st =
     (let (ok, st) = ask (os_alloc E) st
      in if ok then insert_befores E x ds (splice_before x d st) else (False, d # ds, st))"

type_synonym link_spec = "did \<times> sid \<times> dependency_type"

fun add_new_deps :: "os_env \<Rightarrow> sid \<Rightarrow> did option \<Rightarrow> link_spec list \<Rightarrow> sset \<Rightarrow> bool \<times> link_spec list \<times> sset" where
  "add_new_deps E x pre [] st = (True, [], st)"
| "add_new_deps E x pre ((d, to, ty) # ds) st =
     (let (ok, st) = add_dep E d x to ty (pos_of pre (depends_on (svcs st x))) st
      in if ok then add_new_deps E x pre ds st else (False, (d, to, ty) # ds, st))"

definition rm_dependent :: "nat \<Rightarrow> os_env \<Rightarrow> did \<Rightarrow> sset \<Rightarrow> sset option" where
  "rm_dependent n E d st = rm_dep_link n E (dep_from (deps st d)) d st"

definition undo_new_links :: "nat \<Rightarrow> os_env \<Rightarrow> sid \<Rightarrow> did option \<Rightarrow> did option \<Rightarrow> sset \<Rightarrow> sset option" where
  "undo_new_links n E x pre_dept pre st =
     (let depts = dependents (svcs st x)
      in do {
           st \<leftarrow> fold_opt (rm_dependent n E) (take (pos_of pre_dept depts) depts) st;
           let ds = depends_on (svcs st x);
           fold_opt (rm_dep_at n E x) (take (pos_of pre ds) ds) st
         })"

definition drop_old_links :: "nat \<Rightarrow> os_env \<Rightarrow> sid \<Rightarrow> did list \<Rightarrow> did list \<Rightarrow> sset \<Rightarrow> sset option" where
  "drop_old_links n E x old_deps old_depts st =
     do {
       st \<leftarrow> fold_opt (rm_dep_at n E x) (filter (\<lambda>d. dep_type (deps st d) \<noteq> BEFORE) old_deps) st;
       fold_opt (rm_dependent n E) (filter (\<lambda>d. dep_type (deps st d) = BEFORE) old_depts) st
     }"

text \<open>
  The cycle check with the memory it needs; all its allocations are one question to the system.
\<close>

definition try_check_cycle :: "nat \<Rightarrow> os_env \<Rightarrow> (sid \<Rightarrow> nat) \<Rightarrow> sid list \<Rightarrow> sid \<Rightarrow> string \<Rightarrow> sset \<Rightarrow> unit outcome \<times> sset" where
  "try_check_cycle n E h new_deps orig report_name st =
     (let (ok, st) = ask (os_alloc E) st
      in if \<not> ok then (Throws Bad_alloc, st)
         else case check_cycle n h vec_max new_deps orig st of
                None \<Rightarrow> (Throws Fuel_spent, st)
              | Some True \<Rightarrow> (Throws (Cyclic_dependency report_name), st)
              | Some False \<Rightarrow> (Done (), st))"

text \<open>
  \<^verbatim>\<open>update_depenencies\<close>. Beside the outcome there are the new dependencies and the links for \<^verbatim>\<open>before\<close>
  that have not been put in.
\<close>

definition exchange_links ::
  "nat \<Rightarrow> os_env \<Rightarrow> sid \<Rightarrow> link_spec list \<Rightarrow> did list \<Rightarrow> sset \<Rightarrow> unit outcome \<times> link_spec list \<times> did list \<times> sset" where
  "exchange_links n E x new_deps before_deps st =
     (let old_deps = depends_on (svcs st x); pre = first_of old_deps;
          old_depts = dependents (svcs st x); pre_dept = first_of old_depts;
          (ok, before_deps, st) = insert_befores E x before_deps st;
          (ok, new_deps, st) = (if ok then add_new_deps E x pre new_deps st else (False, new_deps, st))
      in case (if ok then drop_old_links n E x old_deps old_depts st else undo_new_links n E x pre_dept pre st) of
           None \<Rightarrow> (Throws Fuel_spent, new_deps, before_deps, st)
         | Some st \<Rightarrow> (if ok then Done () else Throws Bad_alloc, new_deps, before_deps, st))"

definition update_dependencies ::
  "nat \<Rightarrow> os_env \<Rightarrow> (sid \<Rightarrow> nat) \<Rightarrow> sid \<Rightarrow> link_spec list \<Rightarrow> did list \<Rightarrow> sset \<Rightarrow> unit outcome \<times> link_spec list \<times> did list \<times> sset" where
  "update_dependencies n E h x new_deps before_deps st =
     (case try_check_cycle n E h (map (fst \<circ> snd) new_deps) x (service_name (svcs st x)) st of
        (Done _, st) \<Rightarrow> exchange_links n E x new_deps before_deps st
      | (r, st) \<Rightarrow> (r, new_deps, before_deps, st))"

section \<open>What removing links does to the lists\<close>

definition same_link :: "sset \<Rightarrow> sset \<Rightarrow> did \<Rightarrow> bool" where
  "same_link a b d \<longleftrightarrow>
     dep_from (deps b d) = dep_from (deps a d) \<and> dep_to (deps b d) = dep_to (deps a d) \<and> dep_type (deps b d) = dep_type (deps a d)"

text \<open>Exactly the given links are gone from all lists; the others are as they were, in the same order.\<close>

definition removes :: "did list \<Rightarrow> sset \<Rightarrow> sset \<Rightarrow> bool" where
  "removes ds a b \<longleftrightarrow>
     (\<forall>y. depends_on (svcs b y) = filter (\<lambda>d. d \<notin> set ds) (depends_on (svcs a y)) \<and>
          dependents (svcs b y) = filter (\<lambda>d. d \<notin> set ds) (dependents (svcs a y))) \<and>
     (\<forall>d. same_link a b d)"

lemma removes_Nil: "removes [] a a"
  by (simp add: removes_def same_link_def)

lemma removes_trans: "removes ds a b \<Longrightarrow> removes es b c \<Longrightarrow> removes (ds @ es) a c"
  by (simp add: removes_def same_link_def conj_commute)

lemma soundD:
  assumes "sound st"
  shows "d \<in> set (depends_on (svcs st y)) \<Longrightarrow> dep_from (deps st d) = y" "d \<in> set (dependents (svcs st y)) \<Longrightarrow> dep_to (deps st d) = y"
    "distinct (depends_on (svcs st y))" "distinct (dependents (svcs st y))"
  using assms by (simp_all add: sound_def wf_links_def wf_depts_def)

lemma others_absent: "d \<notin> set l \<Longrightarrow> filter (\<lambda>e. e \<noteq> d) l = l"
  by (auto simp: filter_id_conv)

lemma remove1_others: "distinct l \<Longrightarrow> remove1 d l = filter (\<lambda>e. e \<noteq> d) l"
  by (induction l) (auto simp: others_absent)

lemma removes_rm_dep_at:
  assumes "rm_dep_at n E x d st = Some st'" "sound st" "d \<in> set (depends_on (svcs st x))"
  shows "removes [d] st st'"
proof -
  define to where "to = dep_to (deps st d)"
  define st1 where "st1 = upd_svc to (\<lambda>s. s\<lparr>dependents := remove1 d (dependents s)\<rparr>) st"
  obtain st2 where st2: "st' = upd_svc x (\<lambda>s. s\<lparr>depends_on := remove1 d (depends_on s)\<rparr>) st2"
    and r: "(if holding_acq (deps st d) then release n E to True st1 else Some st1) = Some st2"
    using assms(1) by (auto simp: rm_dep_at_def Let_def to_def st1_def bind_eq_Some_conv split: if_splits)
  have "dept_step (dec_required to st1) st2 \<or> st2 = st1"
    using r yieldsD [OF dept.release [OF dept.refl]] by (auto split: if_splits)
  then have links: "same_links st1 st2" by (auto simp: dept_step_def same_links_def)
  have out: "d \<notin> set (depends_on (svcs st y))" if "y \<noteq> x" for y using soundD(1) [OF assms(2)] assms(3) that by blast
  have out': "d \<notin> set (dependents (svcs st y))" if "y \<noteq> to" for y using soundD(2) [OF assms(2)] that by (auto simp: to_def)
  note dist = soundD(3,4) [OF assms(2)]
  have "depends_on (svcs st' y) = (if y = x then remove1 d (depends_on (svcs st y)) else depends_on (svcs st y))"
    and "dependents (svcs st' y) = (if y = to then remove1 d (dependents (svcs st y)) else dependents (svcs st y))" for y
    by (simp_all add: st2 same_linksD [OF links]) (simp_all add: st1_def)
  then have lists: "depends_on (svcs st' y) = filter (\<lambda>e. e \<noteq> d) (depends_on (svcs st y))"
    "dependents (svcs st' y) = filter (\<lambda>e. e \<noteq> d) (dependents (svcs st y))" for y
    by (simp_all add: remove1_others dist others_absent out out')
  have "same_link st st' e" for e using links by (simp add: same_link_def st2 same_links_def st1_def)
  then show ?thesis by (simp add: removes_def lists)
qed

lemma removes_fold_deps:
  assumes "fold_opt (rm_dep_at n E x) ds st = Some st'" "sound st" "set ds \<subseteq> set (depends_on (svcs st x))" "distinct ds"
  shows "sound st' \<and> removes ds st st'"
  using assms
proof (induction ds arbitrary: st)
  case Nil
  then show ?case by (simp add: removes_Nil)
next
  case (Cons d ds)
  obtain st1 where st1: "rm_dep_at n E x d st = Some st1" "fold_opt (rm_dep_at n E x) ds st1 = Some st'"
    using Cons.prems(1) by (auto simp: bind_eq_Some_conv)
  have d: "d \<in> set (depends_on (svcs st x))" using Cons.prems(3) by simp
  have r: "removes [d] st st1" using removes_rm_dep_at [OF st1(1) Cons.prems(2) d] .
  then have "set ds \<subseteq> set (depends_on (svcs st1 x))" using Cons.prems(3,4) by (auto simp: removes_def)
  then have "sound st' \<and> removes ds st1 st'"
    using Cons.IH [OF st1(2) sound_rm_dep_at [OF st1(1) Cons.prems(2) d]] Cons.prems(4) by simp
  then show ?case using removes_trans [OF r, of ds st'] by simp
qed

lemma removes_fold_depts:
  assumes "fold_opt (rm_dependent n E) ds st = Some st'" "sound st" "\<forall>d \<in> set ds. d \<in> set (depends_on (svcs st (dep_from (deps st d))))" "distinct ds"
  shows "sound st' \<and> removes ds st st'"
  using assms
proof (induction ds arbitrary: st)
  case Nil
  then show ?case by (simp add: removes_Nil)
next
  case (Cons d ds)
  let ?x = "dep_from (deps st d)"
  have d: "d \<in> set (depends_on (svcs st ?x))" using Cons.prems(3) by simp
  obtain st1 where st1: "rm_dep_at n E ?x d st = Some st1" "fold_opt (rm_dependent n E) ds st1 = Some st'"
    using Cons.prems(1) d by (auto simp: bind_eq_Some_conv rm_dependent_def [of n E d st] rm_dep_link_def)
  have r: "removes [d] st st1" using removes_rm_dep_at [OF st1(1) Cons.prems(2) d] .
  then have "\<forall>e \<in> set ds. e \<in> set (depends_on (svcs st1 (dep_from (deps st1 e))))"
    using Cons.prems(3,4) by (auto simp: removes_def same_link_def)
  then have "sound st' \<and> removes ds st1 st'"
    using Cons.IH [OF st1(2) sound_rm_dep_at [OF st1(1) Cons.prems(2) d]] Cons.prems(4) by simp
  then show ?case using removes_trans [OF r, of ds st'] by simp
qed

section \<open>What inserting links does to the lists\<close>

text \<open>The order of the lists does not matter for soundness.\<close>

lemma sound_reorder:
  assumes "sound a" "\<And>y. mset (dependents (svcs b y)) = mset (dependents (svcs a y))"
    "\<And>y. mset (depends_on (svcs b y)) = mset (depends_on (svcs a y))" "deps b = deps a"
    "\<And>y. required_by (svcs b y) = required_by (svcs a y) \<and> start_explicit (svcs b y) = start_explicit (svcs a y)"
  shows "sound b"
proof -
  note sets = mset_eq_setD [OF assms(2)] mset_eq_setD [OF assms(3)]
  note dist = mset_eq_imp_distinct_iff [OF assms(2)] mset_eq_imp_distinct_iff [OF assms(3)]
  have "size (filter_mset P (mset (dependents (svcs b y)))) = size (filter_mset P (mset (dependents (svcs a y))))" for P y
    by (simp only: assms(2))
  then have "held b y = held a y" for y by (simp add: held_def assms(4) flip: mset_filter)
  then show ?thesis using assms(1) by (simp add: sound_def wf_links_def wf_depts_def sets dist slack_def assms(4,5))
qed

lemma sound_splice_before:
  assumes "sound st" "fresh_link d st" "deps st d = new_dep y x BEFORE"
  shows "sound (splice_before x d st)"
proof (rule sound_reorder [OF sound_enter [OF assms(1,2), of x y BEFORE]])
  have "dep_from (deps st d) = y" by (simp add: assms(3) new_dep_def)
  then show "mset (dependents (svcs (splice_before x d st) z)) = mset (dependents (svcs (push_dependent d x (enter_link y d x BEFORE st)) z))"
    "mset (depends_on (svcs (splice_before x d st) z)) = mset (depends_on (svcs (push_dependent d x (enter_link y d x BEFORE st)) z))"
    "required_by (svcs (splice_before x d st) z) = required_by (svcs (push_dependent d x (enter_link y d x BEFORE st)) z) \<and>
     start_explicit (svcs (splice_before x d st) z) = start_explicit (svcs (push_dependent d x (enter_link y d x BEFORE st)) z)" for z
    by (simp_all add: splice_before_def push_dependent_def enter_link_def)
  show "deps (splice_before x d st) = deps (push_dependent d x (enter_link y d x BEFORE st))"
    using assms(3) by (auto simp: splice_before_def push_dependent_def enter_link_def)
qed

lemma splice_before_lists:
  "depends_on (svcs (splice_before x d st) y) = (if y = dep_from (deps st d) then d # depends_on (svcs st y) else depends_on (svcs st y))"
  "dependents (svcs (splice_before x d st) y) = (if y = x then d # dependents (svcs st y) else dependents (svcs st y))"
  "deps (splice_before x d st) = deps st"
  by (simp_all add: splice_before_def)

lemma require_links: "same_links st (require to st)"
proof -
  have "same_links st (inc_required to st)" by (simp add: same_links_def)
  moreover have "same_links (inc_required to st) (require to st)" using acq.require [OF acq.refl, of to st] by (simp add: acq_step_def)
  ultimately show ?thesis by (rule same_links_trans)
qed

lemma add_dep_lists:
  assumes "add_dep E d x to ty i st = (ok, st')" "fresh_link d st" "distinct (depends_on (svcs st x))"
  shows "depends_on (svcs st' y) = (if ok \<and> y = x then insert_at i d (depends_on (svcs st y)) else depends_on (svcs st y))"
    "dependents (svcs st' y) = (if ok \<and> y = to then dependents (svcs st y) @ [d] else dependents (svcs st y))"
    "e \<noteq> d \<Longrightarrow> same_link st st' e" "ok \<Longrightarrow> dep_from (deps st' d) = x \<and> dep_to (deps st' d) = to \<and> dep_type (deps st' d) = ty"
proof -
  have d: "d \<notin> set (depends_on (svcs st x))" using assms(2) by (simp add: fresh_link_def)
  note rl = same_linksD [OF require_links]
  note defs = add_dep_def ask_def Let_def emplace_dep_def push_dependent_def rl insert_at(3) [OF assms(3) d]
  show "depends_on (svcs st' y) = (if ok \<and> y = x then insert_at i d (depends_on (svcs st y)) else depends_on (svcs st y))"
    using assms(1) by (auto simp: defs split: if_splits)
  show "dependents (svcs st' y) = (if ok \<and> y = to then dependents (svcs st y) @ [d] else dependents (svcs st y))"
    using assms(1) by (auto simp: defs split: if_splits)
  show "e \<noteq> d \<Longrightarrow> same_link st st' e"
    using assms(1) by (auto simp: defs same_link_def split: if_splits)
  show "ok \<Longrightarrow> dep_from (deps st' d) = x \<and> dep_to (deps st' d) = to \<and> dep_type (deps st' d) = ty"
    using assms(1) by (auto simp: defs new_dep_def split: if_splits)
qed

section \<open>The stages of an exchange\<close>

definition without :: "'a set \<Rightarrow> 'a list \<Rightarrow> 'a list" where
  "without A l = filter (\<lambda>d. d \<notin> A) l"

lemma without_simps [simp]:
  "without {} l = l" "without A [] = []" "without A (l @ m) = without A l @ without A m"
  "without A (d # l) = (if d \<in> A then without A l else d # without A l)"
  by (simp_all add: without_def)

lemma without_fresh: "d \<notin> set l \<Longrightarrow> without (insert d A) l = without A l"
  by (auto simp: without_def intro: filter_cong)

lemma without_disjoint: "set l \<inter> A = {} \<Longrightarrow> without A l = l"
  by (auto simp: without_def filter_id_conv)

lemma without_subset: "set l \<subseteq> A \<Longrightarrow> without A l = []"
  by (auto simp: without_def filter_empty_conv)

lemma without_insert_at:
  assumes "d \<notin> set u"
  shows "without (insert d A) (insert_at i d u) = without A u"
proof -
  have "d \<notin> set (take i u)" "d \<notin> set (drop i u)" using assms by (meson in_set_takeD in_set_dropD)+
  then have "without (insert d A) (insert_at i d u) = without A (take i u @ drop i u)"
    by (simp add: insert_at_def without_fresh del: append_take_drop_id)
  then show ?thesis by simp
qed

text \<open>
  The new dependents \<open>bs\<close> and the new dependencies \<open>ms\<close> stand before the old ones, and without them
  every list is as it was. \<open>N\<close> are the links that may have been constructed since.
\<close>

definition stage :: "sset \<Rightarrow> sid \<Rightarrow> did set \<Rightarrow> did list \<Rightarrow> did list \<Rightarrow> sset \<Rightarrow> bool" where
  "stage a x N bs ms st \<longleftrightarrow>
     sound st \<and> dependents (svcs st x) = bs @ dependents (svcs a x) \<and> depends_on (svcs st x) = ms @ depends_on (svcs a x) \<and>
     (\<forall>y. without (set bs \<union> set ms) (dependents (svcs st y)) = dependents (svcs a y) \<and>
          without (set bs \<union> set ms) (depends_on (svcs st y)) = depends_on (svcs a y)) \<and>
     (\<forall>d \<in> set bs. d \<in> set (depends_on (svcs st (dep_from (deps st d))))) \<and>
     (\<forall>d. d \<notin> N \<longrightarrow> same_link a st d) \<and> set ms \<subseteq> N \<and> set bs \<inter> N = {}"

lemma stage_start: "sound a \<Longrightarrow> stage a x N [] [] a"
  by (simp add: stage_def same_link_def)

lemma stage_splice:
  assumes "stage a x N bs ms st" "fresh_link d st" "deps st d = new_dep y x BEFORE" "y \<noteq> x" "d \<notin> N"
  shows "stage a x N (d # bs) ms (splice_before x d st)"
proof -
  have d: "d \<notin> set (dependents (svcs st z))" "d \<notin> set (depends_on (svcs st z))" for z
    using assms(2) by (simp_all add: fresh_link_def)
  have y: "dep_from (deps st d) = y" by (simp add: assms(3) new_dep_def)
  have "sound (splice_before x d st)" using assms by (intro sound_splice_before) (simp_all add: stage_def)
  moreover have "without (insert d (set bs \<union> set ms)) (dependents (svcs (splice_before x d st) z)) = dependents (svcs a z) \<and>
      without (insert d (set bs \<union> set ms)) (depends_on (svcs (splice_before x d st) z)) = depends_on (svcs a z)" for z
  proof -
    have "without (set bs \<union> set ms) (dependents (svcs st z)) = dependents (svcs a z)"
      "without (set bs \<union> set ms) (depends_on (svcs st z)) = depends_on (svcs a z)" using assms(1) by (simp_all add: stage_def)
    then show ?thesis by (auto simp: splice_before_lists without_fresh [OF d(1)] without_fresh [OF d(2)])
  qed
  moreover have "\<forall>e \<in> set (d # bs). e \<in> set (depends_on (svcs (splice_before x d st) (dep_from (deps (splice_before x d st) e))))"
    using assms(1) by (auto simp: splice_before_lists stage_def)
  ultimately show ?thesis
    using assms(1,4,5) y by (simp add: stage_def splice_before_lists same_link_def del: set_append)
qed

lemma insert_before_old:
  assumes "set ms \<inter> set old = {}"
  shows "insert_at (pos_of (first_of old) (ms @ old)) d (ms @ old) = (ms @ [d]) @ old"
proof (cases old)
  case (Cons e old')
  then have "takeWhile (\<lambda>u. u \<noteq> e) (ms @ old) = ms" using assms by (auto simp: takeWhile_append)
  then show ?thesis using Cons by (simp add: pos_of_def first_of_def insert_at_def)
qed (simp add: pos_of_def first_of_def insert_at_def)

lemma stage_add_dep:
  assumes st: "stage a x N bs ms st" and d: "fresh_link d st" "d \<in> N" and to: "to \<noteq> x"
    and r: "add_dep E d x to ty (pos_of (first_of (depends_on (svcs a x))) (depends_on (svcs st x))) st = (ok, st')"
  shows "stage a x N bs (if ok then ms @ [d] else ms) st'"
proof -
  have st': "sound st" "dependents (svcs st x) = bs @ dependents (svcs a x)" "depends_on (svcs st x) = ms @ depends_on (svcs a x)"
    using st by (simp_all add: stage_def)
  note l = add_dep_lists [OF r d(1) soundD(3) [OF st'(1)]]
  have "set ms \<inter> set (depends_on (svcs a x)) = {}" using soundD(3) [OF st'(1), of x] st'(3) by simp
  note pos = insert_before_old [OF this, of d]
  have dn: "d \<notin> set (dependents (svcs st z))" "d \<notin> set (depends_on (svcs st z))" for z
    using d(1) by (simp_all add: fresh_link_def)
  have db: "d \<notin> set bs" using st d(2) by (auto simp: stage_def)
  have same: "same_link st st' e" if "e \<in> set bs" for e using l(3) [of e] that db by (cases "e = d") auto
  have "sound st'" using sound_add_dep [OF st'(1) d(1)] r by (metis snd_conv)
  moreover have "dependents (svcs st' x) = bs @ dependents (svcs a x)" using to st'(2) by (simp add: l(2))
  moreover have "depends_on (svcs st' x) = (if ok then ms @ [d] else ms) @ depends_on (svcs a x)" using pos st'(3) by (simp add: l(1))
  moreover have "without (set bs \<union> set (if ok then ms @ [d] else ms)) (dependents (svcs st' z)) = dependents (svcs a z) \<and>
      without (set bs \<union> set (if ok then ms @ [d] else ms)) (depends_on (svcs st' z)) = depends_on (svcs a z)" for z
  proof (cases ok)
    case True
    have old: "without (set bs \<union> set ms) (dependents (svcs st z)) = dependents (svcs a z)"
      "without (set bs \<union> set ms) (depends_on (svcs st z)) = depends_on (svcs a z)" using st by (simp_all add: stage_def)
    have "set bs \<union> set (ms @ [d]) = insert d (set bs \<union> set ms)" by auto
    then show ?thesis using True dn old by (auto simp: l(1,2) without_fresh without_insert_at simp del: set_append)
  next
    case False
    then show ?thesis using st by (simp add: l(1,2) stage_def)
  qed
  moreover have "e \<in> set (depends_on (svcs st' (dep_from (deps st' e))))" if "e \<in> set bs" for e
  proof -
    have "e \<in> set (depends_on (svcs st (dep_from (deps st e))))" using st that by (simp add: stage_def)
    moreover have "set (depends_on (svcs st y)) \<subseteq> set (depends_on (svcs st' y))" for y
      using insert_at(2) [OF soundD(3) [OF st'(1)] dn(2)] by (auto simp: l(1))
    ultimately show ?thesis using same [OF that] by (auto simp: same_link_def)
  qed
  moreover have "same_link a st' e" if "e \<notin> N" for e
  proof -
    have "same_link a st e" "e \<noteq> d" using st that d(2) by (auto simp: stage_def)
    then show ?thesis using l(3) [of e] by (simp add: same_link_def)
  qed
  moreover have "set (if ok then ms @ [d] else ms) \<subseteq> N \<and> set bs \<inter> N = {}" using st d(2) by (simp add: stage_def)
  ultimately show ?thesis by (simp only: stage_def) blast
qed

lemma insert_befores_stage:
  assumes "insert_befores E x ds st = (ok, rest, st')" "stage a x N bs [] st" "distinct ds"
    "\<forall>d \<in> set ds. fresh_link d st \<and> d \<notin> N \<and> (\<exists>y. y \<noteq> x \<and> deps st d = new_dep y x BEFORE)"
  shows "\<exists>ds'. ds = ds' @ rest \<and> stage a x N (rev ds' @ bs) [] st' \<and> deps st' = deps st \<and> (ok \<longrightarrow> rest = []) \<and>
    (\<forall>e. fresh_link e st \<longrightarrow> e \<notin> set ds \<longrightarrow> fresh_link e st')"
  using assms
proof (induction ds arbitrary: st bs)
  case Nil
  then show ?case by auto
next
  case (Cons d ds)
  define st1 where "st1 = st\<lparr>os_calls := Suc (os_calls st)\<rparr>"
  have f1: "fresh_link e st1 = fresh_link e st" for e by (simp add: st1_def fresh_link_def)
  have s1: "stage a x N bs [] st1" using Cons.prems(2) sound_cong(1) [of st1 st] by (simp add: stage_def st1_def same_link_def)
  show ?case
  proof (cases "os_alloc E (os_calls st)")
    case False
    then show ?thesis using Cons.prems(1) s1 f1 by (auto simp: ask_def st1_def)
  next
    case True
    let ?st2 = "splice_before x d st1"
    have r: "insert_befores E x ds ?st2 = (ok, rest, st')" using Cons.prems(1) True by (simp add: ask_def st1_def)
    obtain y where d: "fresh_link d st1" "d \<notin> N" "y \<noteq> x" "deps st1 d = new_dep y x BEFORE"
      using Cons.prems(4) f1 by (auto simp: st1_def)
    have fr: "fresh_link e ?st2" if "fresh_link e st" "e \<noteq> d" for e
      using that by (simp add: fresh_link_def splice_before_lists) (simp add: st1_def)
    have "deps ?st2 = deps st" by (simp add: splice_before_lists) (simp add: st1_def)
    then show ?thesis
      using Cons.IH [OF r stage_splice [OF s1 d(1,4,3,2)]] Cons.prems(3,4) fr by (fastforce intro: exI [of _ "d # _"])
  qed
qed

lemma add_new_deps_stage:
  assumes "add_new_deps E x (first_of (depends_on (svcs a x))) ds st = (ok, rest, st')" "stage a x N bs ms st" "distinct (map fst ds)"
    "\<forall>(d, to, ty) \<in> set ds. fresh_link d st \<and> d \<in> N \<and> to \<noteq> x"
  shows "\<exists>ds'. ds = ds' @ rest \<and> stage a x N bs (ms @ map fst ds') st' \<and> (ok \<longrightarrow> rest = []) \<and>
    (\<forall>(d, to, ty) \<in> set ds'. dep_to (deps st' d) = to \<and> dep_type (deps st' d) = ty) \<and> (\<forall>e. e \<notin> fst ` set ds \<longrightarrow> same_link st st' e)"
  using assms
proof (induction ds arbitrary: st ms)
  case Nil
  then show ?case by (auto simp: same_link_def)
next
  case (Cons p ds)
  obtain d to ty where p: "p = (d, to, ty)" by (cases p)
  have d: "fresh_link d st" "d \<in> N" "to \<noteq> x" using Cons.prems(4) p by auto
  obtain ok1 st1 where st1: "add_dep E d x to ty (pos_of (first_of (depends_on (svcs a x))) (depends_on (svcs st x))) st = (ok1, st1)"
    by fastforce
  note s1 = stage_add_dep [OF Cons.prems(2) d st1]
  have dist: "distinct (depends_on (svcs st x))" using soundD(3) Cons.prems(2) unfolding stage_def by blast
  note l = add_dep_lists [OF st1 d(1) dist]
  show ?case
  proof (cases ok1)
    case False
    then show ?thesis using Cons.prems(1) p st1 s1 l(3) by (auto simp: Let_def)
  next
    case True
    have r: "add_new_deps E x (first_of (depends_on (svcs a x))) ds st1 = (ok, rest, st')"
      using Cons.prems(1) p st1 True by simp
    have fresh1: "fresh_link e st1" if "fresh_link e st" "e \<noteq> d" for e
      using that by (auto simp: fresh_link_def l(1,2) insert_at_def dest: in_set_takeD in_set_dropD)
    have "\<forall>(e, to, ty) \<in> set ds. fresh_link e st1 \<and> e \<in> N \<and> to \<noteq> x" using Cons.prems(3,4) p fresh1 by force
    then obtain ds' where ds': "ds = ds' @ rest" "stage a x N bs ((ms @ [d]) @ map fst ds') st'" "ok \<longrightarrow> rest = []"
        "\<forall>(d, to, ty) \<in> set ds'. dep_to (deps st' d) = to \<and> dep_type (deps st' d) = ty"
        "\<forall>e. e \<notin> fst ` set ds \<longrightarrow> same_link st1 st' e"
      using Cons.IH [OF r, of "ms @ [d]"] s1 True Cons.prems(3) by auto
    have "same_link st1 st' d" using ds'(5) Cons.prems(3) p by auto
    then have "dep_to (deps st' d) = to \<and> dep_type (deps st' d) = ty" using l(4) True by (simp add: same_link_def)
    moreover have "same_link st st' e" if "e \<notin> fst ` set (p # ds)" for e
    proof -
      have "same_link st st1 e" "same_link st1 st' e" using that p l(3) [of e] ds'(5) by auto
      then show ?thesis by (simp add: same_link_def)
    qed
    ultimately show ?thesis using ds' p by (intro exI [of _ "p # ds'"]) auto
  qed
qed

lemma take_new:
  assumes "set bs \<inter> set old = {}"
  shows "take (pos_of (first_of old) (bs @ old)) (bs @ old) = bs"
proof (cases old)
  case (Cons e old')
  then have "takeWhile (\<lambda>u. u \<noteq> e) (bs @ old) = bs" using assms by (auto simp: takeWhile_append)
  then show ?thesis using Cons by (simp add: pos_of_def first_of_def)
qed (simp add: pos_of_def first_of_def)

lemma stage_apart:
  assumes "stage a x N bs ms st"
  shows "set bs \<inter> set (dependents (svcs a x)) = {}" "set ms \<inter> set (depends_on (svcs a x)) = {}"
    "set bs \<inter> set (depends_on (svcs st x)) = {}" "distinct bs" "distinct ms"
proof -
  have st: "sound st" "dependents (svcs st x) = bs @ dependents (svcs a x)" "depends_on (svcs st x) = ms @ depends_on (svcs a x)"
    "without (set bs \<union> set ms) (depends_on (svcs st x)) = depends_on (svcs a x)" "set ms \<subseteq> N" "set bs \<inter> N = {}"
    using assms unfolding stage_def by blast+
  show "set bs \<inter> set (dependents (svcs a x)) = {}" "distinct bs" using soundD(4) [OF st(1), of x] st(2) by simp_all
  show "set ms \<inter> set (depends_on (svcs a x)) = {}" "distinct ms" using soundD(3) [OF st(1), of x] st(3) by simp_all
  have "set (without A l) \<inter> A = {}" for A and l :: "did list" by (auto simp: without_def)
  then have "set (depends_on (svcs a x)) \<inter> set bs = {}" using st(4) by (metis Int_Un_distrib Un_empty)
  then show "set bs \<inter> set (depends_on (svcs st x)) = {}" using st(3,5,6) by auto
qed

lemma undo_restores:
  assumes st: "stage a x N bs ms st"
    and r: "undo_new_links n E x (first_of (dependents (svcs a x))) (first_of (depends_on (svcs a x))) st = Some st'"
  shows "stage a x N [] [] st'"
proof -
  note ap = stage_apart [OF st]
  have st': "sound st" "dependents (svcs st x) = bs @ dependents (svcs a x)" "depends_on (svcs st x) = ms @ depends_on (svcs a x)"
    using st by (simp_all add: stage_def)
  obtain st1 where st1: "fold_opt (rm_dependent n E) bs st = Some st1"
    and st2: "fold_opt (rm_dep_at n E x) (take (pos_of (first_of (depends_on (svcs a x))) (depends_on (svcs st1 x))) (depends_on (svcs st1 x))) st1 = Some st'"
    using r by (auto simp: undo_new_links_def st'(2) take_new [OF ap(1)] Let_def bind_eq_Some_conv simp del: take_append)
  have b: "sound st1" "removes bs st st1"
    using removes_fold_depts [OF st1 st'(1)] st ap(4) by (auto simp: stage_def)
  have "depends_on (svcs st1 x) = without (set bs) (depends_on (svcs st x))" using b(2) by (simp add: removes_def without_def)
  then have own: "depends_on (svcs st1 x) = ms @ depends_on (svcs a x)" using without_disjoint [of "depends_on (svcs st x)" "set bs"] ap(3) st'(3) by auto
  have m: "sound st'" "removes ms st1 st'"
    using removes_fold_deps [OF st2 b(1)] ap(2,5) own by (auto simp: take_new simp del: take_append)
  have all: "removes (bs @ ms) st st'" using removes_trans [OF b(2) m(2)] .
  then have "depends_on (svcs st' y) = depends_on (svcs a y) \<and> dependents (svcs st' y) = dependents (svcs a y)" for y
    using st by (simp add: stage_def removes_def without_def)
  moreover have "same_link a st' e" if "e \<notin> N" for e using st all that by (simp add: stage_def removes_def same_link_def)
  ultimately show ?thesis using m(1) st by (simp add: stage_def)
qed

section \<open>Exchanging dependencies is atomic\<close>

text \<open>
  The links to be put in are new: those for \<^verbatim>\<open>before\<close> are constructed, but in no list yet; those for the
  dependencies are only identities so far. No other service is named \<open>x\<close>.
\<close>

definition new_links :: "sset \<Rightarrow> sid \<Rightarrow> link_spec list \<Rightarrow> did list \<Rightarrow> bool" where
  "new_links st x new_deps before_deps \<longleftrightarrow>
     distinct (map fst new_deps @ before_deps) \<and> list_all (\<lambda>d. fresh_link d st) (map fst new_deps @ before_deps) \<and>
     list_all (\<lambda>d. dep_from (deps st d) \<noteq> x \<and> deps st d = new_dep (dep_from (deps st d)) x BEFORE) before_deps"

lemma fst_new: "fst ` set ds = set (map fst ds)"
  by simp

lemma new_links_in_stages:
  assumes "sound st" "new_links st x new_deps before_deps" "x \<notin> set (map (fst \<circ> snd) new_deps)"
    "insert_befores E x before_deps st = (ok1, rest1, st1)"
    "(if ok1 then add_new_deps E x (first_of (depends_on (svcs st x))) new_deps st1 else (False, new_deps, st1)) = (ok, rest, st2)"
  shows "\<exists>bs ds. before_deps = bs @ rest1 \<and> new_deps = ds @ rest \<and> stage st x (fst ` set new_deps) (rev bs) (map fst ds) st2 \<and>
    (ok \<longrightarrow> rest1 = [] \<and> rest = []) \<and> (\<forall>(d, to, ty) \<in> set ds. dep_to (deps st2 d) = to \<and> dep_type (deps st2 d) = ty)"
proof -
  let ?N = "fst ` set new_deps"
  have b: "distinct before_deps" "\<forall>d \<in> set before_deps. fresh_link d st \<and> d \<notin> ?N \<and> (\<exists>y. y \<noteq> x \<and> deps st d = new_dep y x BEFORE)"
  proof -
    show "distinct before_deps" using assms(2) by (simp add: new_links_def)
    have "fresh_link d st \<and> d \<notin> ?N \<and> dep_from (deps st d) \<noteq> x \<and> deps st d = new_dep (dep_from (deps st d)) x BEFORE" if "d \<in> set before_deps" for d
    proof -
      have "set (map fst new_deps) \<inter> set before_deps = {}" using assms(2) unfolding new_links_def by (simp only: distinct_append)
      then have "d \<notin> ?N" using that by auto
      moreover have "fresh_link d st" "dep_from (deps st d) \<noteq> x \<and> deps st d = new_dep (dep_from (deps st d)) x BEFORE"
        using assms(2) that unfolding new_links_def list_all_iff by simp_all
      ultimately show ?thesis by simp
    qed
    then show "\<forall>d \<in> set before_deps. fresh_link d st \<and> d \<notin> ?N \<and> (\<exists>y. y \<noteq> x \<and> deps st d = new_dep y x BEFORE)" by blast
  qed
  obtain bs where bs: "before_deps = bs @ rest1" "stage st x ?N (rev bs) [] st1" "ok1 \<longrightarrow> rest1 = []"
    "\<forall>e. fresh_link e st \<longrightarrow> e \<notin> set before_deps \<longrightarrow> fresh_link e st1"
    using insert_befores_stage [OF assms(4) stage_start [OF assms(1)] b] by auto
  show ?thesis
  proof (cases ok1)
    case True
    have "fresh_link d st1 \<and> d \<in> ?N \<and> to \<noteq> x" if p: "(d, to, ty) \<in> set new_deps" for d to ty
    proof -
      have d: "d \<in> ?N" using imageI [OF p, of fst] by simp
      have "x \<noteq> to" using assms(3) imageI [OF p, of "fst \<circ> snd"] by auto
      moreover have "fresh_link d st" using assms(2) d unfolding new_links_def list_all_iff by simp
      ultimately show ?thesis using bs(4) b(2) d by blast
    qed
    then have "\<forall>(d, to, ty) \<in> set new_deps. fresh_link d st1 \<and> d \<in> ?N \<and> to \<noteq> x" by blast
    then obtain ds where "new_deps = ds @ rest" "stage st x ?N (rev bs) ([] @ map fst ds) st2" "ok \<longrightarrow> rest = []"
      "\<forall>(d, to, ty) \<in> set ds. dep_to (deps st2 d) = to \<and> dep_type (deps st2 d) = ty"
      using add_new_deps_stage [OF _ bs(2), of E new_deps ok rest st2] assms(2,5) True by (auto simp: new_links_def)
    then show ?thesis using bs True by auto
  next
    case False
    then show ?thesis using bs assms(5) by (intro exI [of _ bs] exI [of _ "[]"]) auto
  qed
qed

lemma try_check_cycle_frame: "try_check_cycle n E h ds x name st = (r, st') \<Longrightarrow> st' = st\<lparr>os_calls := Suc (os_calls st)\<rparr>"
  by (auto simp: try_check_cycle_def ask_def split: option.splits bool.splits if_splits)

lemma try_check_cycle_target: "try_check_cycle n E h ds x name st = (Done (), st') \<Longrightarrow> x \<notin> set ds"
  using lset.scan_deps_None [of h x ds lset_empty]
  by (auto simp: try_check_cycle_def ask_def check_cycle_def split: option.splits bool.splits if_splits)

text \<open>Unless it runs out of fuel, an exchange of links that starts after a successful check ends in one of two ways.\<close>

lemma exchange_links_cases:
  assumes "exchange_links n E x new_deps before_deps st = (r, ds', bs', st')" "r \<noteq> Throws Fuel_spent"
    and st: "sound st" "new_links st x new_deps before_deps" "x \<notin> set (map (fst \<circ> snd) new_deps)"
  obtains (failed) "r = Throws Bad_alloc" "stage st x (fst ` set new_deps) [] [] st'"
  | (exchanged) st2 where "r = Done ()" "stage st x (fst ` set new_deps) (rev before_deps) (map fst new_deps) st2"
      "\<forall>(d, to, ty) \<in> set new_deps. dep_to (deps st2 d) = to \<and> dep_type (deps st2 d) = ty"
      "drop_old_links n E x (depends_on (svcs st x)) (dependents (svcs st x)) st2 = Some st'"
proof -
  obtain ok1 rest1 st1 where b: "insert_befores E x before_deps st = (ok1, rest1, st1)" by (metis prod_cases3)
  obtain ok rest st2 where a: "(if ok1 then add_new_deps E x (first_of (depends_on (svcs st x))) new_deps st1 else (False, new_deps, st1)) = (ok, rest, st2)"
    by (metis prod_cases3)
  obtain bs ds where s: "before_deps = bs @ rest1" "new_deps = ds @ rest" "stage st x (fst ` set new_deps) (rev bs) (map fst ds) st2"
    "ok \<longrightarrow> rest1 = [] \<and> rest = []" "\<forall>(d, to, ty) \<in> set ds. dep_to (deps st2 d) = to \<and> dep_type (deps st2 d) = ty"
    using new_links_in_stages [OF st b a] by blast
  show thesis
  proof (cases ok)
    case True
    then show thesis using assms(1,2) b a s by (intro exchanged [of st2]) (auto simp: exchange_links_def Let_def split: option.splits)
  next
    case False
    then have "undo_new_links n E x (first_of (dependents (svcs st x))) (first_of (depends_on (svcs st x))) st2 = Some st'" "r = Throws Bad_alloc"
      using assms(1,2) b a by (auto simp: exchange_links_def Let_def split: option.splits)
    then show thesis using failed undo_restores [OF s(3)] by blast
  qed
qed

lemma new_links_calls: "new_links (st\<lparr>os_calls := k\<rparr>) x new_deps before_deps = new_links st x new_deps before_deps"
  by (simp add: new_links_def fresh_link_def)

lemma update_dependencies_steps:
  assumes "update_dependencies n E h x new_deps before_deps st = (r, ds', bs', st')" "r \<noteq> Throws Fuel_spent"
    and "sound st" "new_links st x new_deps before_deps"
  obtains (checked) st0 e where "st0 = st\<lparr>os_calls := Suc (os_calls st)\<rparr>" "r = Throws e" "st' = st0"
  | (exchanged) st0 where "st0 = st\<lparr>os_calls := Suc (os_calls st)\<rparr>" "sound st0" "new_links st0 x new_deps before_deps"
      "x \<notin> set (map (fst \<circ> snd) new_deps)" "exchange_links n E x new_deps before_deps st0 = (r, ds', bs', st')"
proof -
  obtain r0 st0 where c: "try_check_cycle n E h (map (fst \<circ> snd) new_deps) x (service_name (svcs st x)) st = (r0, st0)" by fastforce
  have st0: "st0 = st\<lparr>os_calls := Suc (os_calls st)\<rparr>" using try_check_cycle_frame [OF c] .
  have never: "r0 \<noteq> Overrun" using c by (auto simp: try_check_cycle_def ask_def split: option.splits bool.splits if_splits)
  show thesis
  proof (cases r0)
    case (Done u)
    then show thesis
      using assms c st0 try_check_cycle_target [of n E h "map (fst \<circ> snd) new_deps" x "service_name (svcs st x)" st st0] sound_cong(1) [of st0 st]
      by (intro exchanged [OF st0]) (auto simp: update_dependencies_def new_links_calls)
  qed (use assms(1) c st0 checked never in \<open>auto simp: update_dependencies_def\<close>)
qed

text \<open>
  C37. Changing the dependencies of a service is atomic: if it ends with an exception, because of a cycle
  or for lack of memory at any point, all lists of dependencies and dependents are what they were, in
  the same order, and every acquisition count is still sound.
\<close>

theorem update_dependencies_atomic:
  assumes "update_dependencies n E h x new_deps before_deps st = (Throws e, ds', bs', st')" "e \<noteq> Fuel_spent"
    and "sound st" "new_links st x new_deps before_deps"
  shows "sound st' \<and> (\<forall>y. depends_on (svcs st' y) = depends_on (svcs st y) \<and> dependents (svcs st' y) = dependents (svcs st y))"
proof -
  have "Throws e \<noteq> Throws Fuel_spent" using assms(2) by simp
  from assms(1) this assms(3,4) show ?thesis
  proof (cases rule: update_dependencies_steps)
    case (checked st0 e)
    then show ?thesis using assms(3) sound_cong(1) [of st0 st] by simp
  next
    case (exchanged st0)
    from exchanged(5) \<open>Throws e \<noteq> Throws Fuel_spent\<close> exchanged(2,3,4) show ?thesis
    proof (cases rule: exchange_links_cases)
      case failed
      then show ?thesis using exchanged(1) by (simp add: stage_def)
    qed simp
  qed
qed

section \<open>What a service depends on afterwards\<close>

text \<open>No link of \<open>x\<close> leads to itself, and those that lead to it are in the lists of their dependents.\<close>

definition linked_both_ways :: "sset \<Rightarrow> sid \<Rightarrow> bool" where
  "linked_both_ways st x \<longleftrightarrow>
     set (depends_on (svcs st x)) \<inter> set (dependents (svcs st x)) = {} \<and>
     list_all (\<lambda>d. d \<in> set (depends_on (svcs st (dep_from (deps st d))))) (dependents (svcs st x))"

lemma without_filter: "without (set (filter P l) \<union> A) l = filter (\<lambda>d. \<not> P d \<and> d \<notin> A) l"
  by (auto simp: without_def intro: filter_cong)

lemma drop_old_result:
  assumes st: "stage a x (set ms) bs ms st" and l: "linked_both_ways a x"
    and r: "drop_old_links n E x (depends_on (svcs a x)) (dependents (svcs a x)) st = Some st'"
  shows "sound st'" "depends_on (svcs st' x) = ms @ filter (\<lambda>d. dep_type (deps a d) = BEFORE) (depends_on (svcs a x))"
    "dependents (svcs st' x) = bs @ filter (\<lambda>d. dep_type (deps a d) \<noteq> BEFORE) (dependents (svcs a x))"
    "\<forall>d. same_link st st' d" "\<forall>d \<in> set bs. d \<in> set (depends_on (svcs st' (dep_from (deps st' d))))"
proof -
  let ?old = "depends_on (svcs a x)" and ?depts = "dependents (svcs a x)"
  note ap = stage_apart [OF st]
  have lists: "dependents (svcs st x) = bs @ ?depts" "depends_on (svcs st x) = ms @ ?old" "sound st"
    "\<forall>d \<in> set bs. d \<in> set (depends_on (svcs st (dep_from (deps st d))))" "\<forall>d. d \<notin> set ms \<longrightarrow> same_link a st d"
    "\<forall>y. without (set bs \<union> set ms) (dependents (svcs st y)) = dependents (svcs a y)"
    "\<forall>y. without (set bs \<union> set ms) (depends_on (svcs st y)) = depends_on (svcs a y)"
    using st unfolding stage_def by blast+
  have sub: "set (without A m) \<subseteq> set m" "set (without A m) \<inter> A = {}" for A and m :: "did list" by (auto simp: without_def)
  have md: "set ms \<inter> set ?depts = {}" using lists(6) sub(2) [of "set bs \<union> set ms" "dependents (svcs st x)"] by auto
  have self: "set ?old \<inter> set ?depts = {}" and two_way: "\<forall>d \<in> set ?depts. d \<in> set (depends_on (svcs a (dep_from (deps a d))))"
    using l by (simp_all add: linked_both_ways_def list_all_iff)
  have ty: "dep_type (deps st d) = dep_type (deps a d)" if "d \<in> set ?old \<union> set ?depts" for d
    using that ap(2) md lists(5) by (auto simp: same_link_def)
  define D1 where "D1 = filter (\<lambda>d. dep_type (deps a d) \<noteq> BEFORE) ?old"
  define D2 where "D2 = filter (\<lambda>d. dep_type (deps a d) = BEFORE) ?depts"
  have D1: "filter (\<lambda>d. dep_type (deps st d) \<noteq> BEFORE) ?old = D1" using ty unfolding D1_def by (intro filter_cong) auto
  obtain st1 where st1: "fold_opt (rm_dep_at n E x) D1 st = Some st1"
    and st2: "fold_opt (rm_dependent n E) (filter (\<lambda>d. dep_type (deps st1 d) = BEFORE) ?depts) st1 = Some st'"
    using r by (auto simp: drop_old_links_def D1 bind_eq_Some_conv)
  have dist: "distinct ?old" "distinct ?depts" using soundD(3,4) [OF lists(3), of x] lists(1,2) by simp_all
  have r1: "sound st1" "removes D1 st st1"
    using removes_fold_deps [OF st1 lists(3)] dist lists(2) by (auto simp: D1_def)
  have ty1: "same_link st st1 d" for d using r1(2) by (simp add: removes_def)
  have D2: "filter (\<lambda>d. dep_type (deps st1 d) = BEFORE) ?depts = D2"
    using ty ty1 unfolding D2_def by (intro filter_cong) (auto simp: same_link_def)
  have "d \<in> set (depends_on (svcs st1 (dep_from (deps st1 d))))" if "d \<in> set D2" for d
  proof -
    have d: "d \<in> set ?depts" "dep_type (deps a d) = BEFORE" using that by (simp_all add: D2_def)
    have "same_link a st d" using lists(5) md d(1) by blast
    then have "dep_from (deps st1 d) = dep_from (deps a d)" using ty1 [of d] by (simp add: same_link_def)
    moreover have "d \<in> set (depends_on (svcs st (dep_from (deps a d))))"
      using two_way d(1) lists(7) sub(1) [of "set bs \<union> set ms" "depends_on (svcs st (dep_from (deps a d)))"] by auto
    ultimately show ?thesis using r1(2) d by (auto simp: removes_def D1_def)
  qed
  then have r2: "sound st'" "removes D2 st1 st'"
    using removes_fold_depts [OF st2 r1(1)] dist unfolding D2 by (auto simp: D2_def)
  have r: "removes (D1 @ D2) st st'" using removes_trans [OF r1(2) r2(2)] .
  show "sound st'" by (rule r2(1))
  show same: "\<forall>d. same_link st st' d" using r by (simp add: removes_def)
  have out: "set D1 \<subseteq> set ?old" "set D2 \<subseteq> set ?depts" by (auto simp: D1_def D2_def)
  have "depends_on (svcs st' x) = without (set (D1 @ D2)) (ms @ ?old)" using r lists(2) by (simp add: removes_def without_def)
  also have "without (set (D1 @ D2)) ms = ms" using out ap(2) md by (intro without_disjoint) auto
  then have "without (set (D1 @ D2)) (ms @ ?old) = ms @ without (set (D1 @ D2)) ?old" by simp
  also have "without (set (D1 @ D2)) ?old = filter (\<lambda>d. dep_type (deps a d) = BEFORE) ?old"
    using out(2) self unfolding without_def D1_def by (intro filter_cong) auto
  finally show "depends_on (svcs st' x) = ms @ filter (\<lambda>d. dep_type (deps a d) = BEFORE) ?old" .
  have bs_out: "set bs \<inter> set (D1 @ D2) = {}" using out ap(1,3) lists(2) by auto
  have "dependents (svcs st' x) = without (set (D1 @ D2)) (bs @ ?depts)" using r lists(1) by (simp add: removes_def without_def)
  also have "\<dots> = bs @ without (set (D1 @ D2)) ?depts" using bs_out without_disjoint [of bs] by simp
  also have "without (set (D1 @ D2)) ?depts = filter (\<lambda>d. dep_type (deps a d) \<noteq> BEFORE) ?depts"
    using out(1) self unfolding without_def D2_def by (intro filter_cong) auto
  finally show "dependents (svcs st' x) = bs @ filter (\<lambda>d. dep_type (deps a d) \<noteq> BEFORE) ?depts" .
  show "\<forall>d \<in> set bs. d \<in> set (depends_on (svcs st' (dep_from (deps st' d))))"
    using lists(4) bs_out r by (auto simp: removes_def same_link_def)
qed

lemma update_dependencies_done:
  assumes "update_dependencies n E h x new_deps before_deps st = (Done (), ds', bs', st')"
    and "sound st" "new_links st x new_deps before_deps" "linked_both_ways st x"
  obtains "sound st'" "depends_on (svcs st' x) = map fst new_deps @ filter (\<lambda>d. dep_type (deps st d) = BEFORE) (depends_on (svcs st x))"
    "dependents (svcs st' x) = rev before_deps @ filter (\<lambda>d. dep_type (deps st d) \<noteq> BEFORE) (dependents (svcs st x))"
    "\<forall>(d, to, ty) \<in> set new_deps. dep_to (deps st' d) = to \<and> dep_type (deps st' d) = ty"
    "\<forall>d. d \<notin> fst ` set new_deps \<longrightarrow> same_link st st' d"
    "\<forall>d \<in> set before_deps. d \<in> set (depends_on (svcs st' (dep_from (deps st' d))))"
proof -
  have "Done () \<noteq> Throws Fuel_spent" by simp
  from assms(1) this assms(2,3) show thesis
  proof (cases rule: update_dependencies_steps)
    case (exchanged st0)
    from exchanged(5) \<open>Done () \<noteq> Throws Fuel_spent\<close> exchanged(2,3,4) show thesis
    proof (cases rule: exchange_links_cases)
      case inner: (exchanged st2)
      have N: "fst ` set new_deps = set (map fst new_deps)" by simp
      have "linked_both_ways st0 x" using assms(4) exchanged(1) by (simp add: linked_both_ways_def)
      note d = drop_old_result [OF inner(2) [unfolded N] this inner(4)]
      have "same_link st st' e" if "e \<notin> fst ` set new_deps" for e
      proof -
        have "same_link st0 st2 e" using inner(2) that by (simp add: stage_def)
        then show ?thesis using d(4) exchanged(1) by (simp add: same_link_def)
      qed
      then show thesis
        using d inner(3) exchanged(1) by (intro that) (auto simp: same_link_def)
    qed simp
  qed simp
qed

text \<open>
  C38. After a successful change a service depends on exactly the services its new description names, in
  this order, and then on those that name it in a \<^verbatim>\<open>before\<close> of their own; depending on it are the services
  it names in \<^verbatim>\<open>before\<close> now, and the old dependents other than those of its former \<^verbatim>\<open>before\<close> settings.
\<close>

theorem update_dependencies_result:
  assumes "update_dependencies n E h x new_deps before_deps st = (Done (), ds', bs', st')"
    and "sound st" "new_links st x new_deps before_deps" "linked_both_ways st x"
  shows "map (\<lambda>d. (dep_to (deps st' d), dep_type (deps st' d))) (depends_on (svcs st' x)) =
      map snd new_deps @ map (\<lambda>d. (dep_to (deps st d), BEFORE)) (filter (\<lambda>d. dep_type (deps st d) = BEFORE) (depends_on (svcs st x))) \<and>
    map (\<lambda>d. dep_from (deps st' d)) (dependents (svcs st' x)) =
      map (\<lambda>d. dep_from (deps st d)) (rev before_deps @ filter (\<lambda>d. dep_type (deps st d) \<noteq> BEFORE) (dependents (svcs st x)))"
proof -
  have old: "d \<notin> fst ` set new_deps" if "d \<in> set (depends_on (svcs st x)) \<or> d \<in> set (dependents (svcs st x)) \<or> d \<in> set before_deps" for d
  proof -
    have "\<forall>d \<in> set (map fst new_deps). fresh_link d st" "set (map fst new_deps) \<inter> set before_deps = {}"
      using assms(3) unfolding new_links_def list_all_iff by (simp_all only: distinct_append) auto
    then show ?thesis using that by (auto simp: fresh_link_def)
  qed
  show ?thesis
  proof (rule update_dependencies_done [OF assms])
    assume d: "depends_on (svcs st' x) = map fst new_deps @ filter (\<lambda>d. dep_type (deps st d) = BEFORE) (depends_on (svcs st x))"
      "dependents (svcs st' x) = rev before_deps @ filter (\<lambda>d. dep_type (deps st d) \<noteq> BEFORE) (dependents (svcs st x))"
      "\<forall>(d, to, ty) \<in> set new_deps. dep_to (deps st' d) = to \<and> dep_type (deps st' d) = ty"
      "\<forall>d. d \<notin> fst ` set new_deps \<longrightarrow> same_link st st' d"
    have "map (\<lambda>p. (dep_to (deps st' (fst p)), dep_type (deps st' (fst p)))) new_deps = map snd new_deps"
      using d(3) by (intro map_cong) auto
    moreover have "same_link st st' e" if "e \<in> set (depends_on (svcs st x)) \<or> e \<in> set (dependents (svcs st x)) \<or> e \<in> set before_deps" for e
      using d(4) old that by blast
    ultimately show ?thesis by (auto simp: d(1,2) same_link_def o_def)
  qed
qed


section \<open>An example\<close>

text \<open>\<open>net\<close> comes after \<open>base\<close>, which names it in a \<^verbatim>\<open>before\<close>; now \<open>net\<close> is to come before \<open>base\<close> and after \<open>disk\<close>.\<close>

definition reload_set :: sset where
  "reload_set = new_service_set\<lparr>
     svcs := (svcs new_service_set)(1 := (new_service_record ''net'')\<lparr>record_type := INTERNAL, depends_on := [5]\<rparr>,
       2 := (new_service_record ''base'')\<lparr>record_type := INTERNAL, dependents := [5]\<rparr>,
       3 := (new_service_record ''disk'')\<lparr>record_type := INTERNAL\<rparr>),
     deps := (deps new_service_set)(5 := new_dep 1 2 BEFORE, 6 := new_dep 2 1 BEFORE), records := [1, 2, 3]\<rparr>"

lemma sample_os_alloc: "os_alloc sample_os k"
  by (simp add: sample_os_def)

lemma reload_set_checked:
  "check_cycle 5 (\<lambda>x. x) vec_max [3] 1 (reload_set\<lparr>os_calls := k\<rparr>) = Some False"
proof -
  have t: "dep_targets (reload_set\<lparr>os_calls := k\<rparr>) 3 = []"
    by (simp add: dep_targets_def reload_set_def new_service_set_def new_service_record_def)
  then have "(3, 1) \<notin> (depends (reload_set\<lparr>os_calls := k\<rparr>))\<^sup>*" by (auto elim: converse_rtranclE)
  then show ?thesis using check_cycle_reach [of "{3}" "[3]" "reload_set\<lparr>os_calls := k\<rparr>" 5 "\<lambda>x. x" 1] t by simp
qed

lemma exchanged_parts:
  "\<exists>st. insert_befores E 1 [6] (reload_set\<lparr>os_calls := k\<rparr>) = (True, [], st) \<and> (\<forall>y. service_state (svcs st y) = STOPPED) \<and> depends_on (svcs st 1) = [5]
    \<and> dep_type (deps st 5) = BEFORE" if "\<And>k. os_alloc E k" for E
  using that by (simp add: ask_def splice_before_def reload_set_def upd_svc_def new_dep_def new_service_set_def new_service_record_def)

lemma add_dep_stopped:
  assumes "\<And>k. os_alloc E k" "service_state (svcs st x) = STOPPED"
  shows "\<exists>st'. add_dep E d x to ty i st = (True, st') \<and> (\<forall>e. e \<noteq> d \<longrightarrow> deps st' e = deps st e)"
  using assms by (auto simp: add_dep_def ask_def Let_def push_dependent_def emplace_dep_def)

lemma reload_set_exchanged:
  "\<exists>ds bs st. update_dependencies 5 sample_os (\<lambda>x. x) 1 [(7, 3, REGULAR)] [6] reload_set = (Done (), ds, bs, st)"
proof -
  let ?s = "reload_set\<lparr>os_calls := 1\<rparr>"
  have c: "try_check_cycle 5 sample_os (\<lambda>x. x) [3] 1 (service_name (svcs reload_set 1)) reload_set = (Done (), ?s)"
    using reload_set_checked [of 1] by (simp add: try_check_cycle_def ask_def sample_os_alloc) (simp add: reload_set_def new_service_set_def)
  obtain st where st: "insert_befores sample_os 1 [6] ?s = (True, [], st)" "service_state (svcs st 1) = STOPPED" "dep_type (deps st 5) = BEFORE"
    using exchanged_parts [OF sample_os_alloc] by blast
  obtain st' where st': "add_dep sample_os 7 1 3 REGULAR (pos_of (Some 5) (depends_on (svcs st 1))) st = (True, st')" "deps st' 5 = deps st 5"
    using add_dep_stopped [OF sample_os_alloc st(2), of 7 3 REGULAR "pos_of (Some 5) (depends_on (svcs st 1))"] by (elim exE conjE) (erule that, simp)
  have "depends_on (svcs ?s 1) = [5]" "dependents (svcs ?s 1) = []" by (simp_all add: reload_set_def new_service_record_def)
  then show ?thesis using c st st' by (simp add: update_dependencies_def exchange_links_def first_of_def drop_old_links_def o_def)
qed

lemma reload_set_failed:
  "\<exists>ds bs st. update_dependencies 5 (sample_os\<lparr>os_alloc := (\<lambda>k. k < 2)\<rparr>) (\<lambda>x. x) 1 [(7, 3, REGULAR)] [6] reload_set = (Throws Bad_alloc, ds, bs, st)"
  using reload_set_checked [of 1]
  by (simp add: update_dependencies_def try_check_cycle_def ask_def sample_os_alloc o_def)
     (simp add: reload_set_def exchange_links_def Let_def ask_def sample_os_alloc splice_before_def add_dep_def emplace_dep_def push_dependent_def
     insert_at_def pos_of_def first_of_def undo_new_links_def rm_dep_at_def rm_dependent_def rm_dep_link_def upd_svc_def upd_dep_def new_dep_def
     new_service_set_def new_service_record_def)
lemma reload_set_ok: "sound reload_set" "new_links reload_set 1 [(7, 3, REGULAR)] [6]" "linked_both_ways reload_set 1"
  by (simp_all add: reload_set_def sound_def wf_links_def wf_depts_def slack_def held_def new_links_def fresh_link_def linked_both_ways_def
     new_service_set_def new_service_record_def new_dep_def)

theorem update_dependencies_atomic_witness:
  "\<exists>ds bs st. update_dependencies 5 (sample_os\<lparr>os_alloc := (\<lambda>k. k < 2)\<rparr>) (\<lambda>x. x) 1 [(7, 3, REGULAR)] [6] reload_set = (Throws Bad_alloc, ds, bs, st) \<and>
     dependents (svcs st 1) = [] \<and> dependents (svcs st 3) = []"
proof -
  obtain ds bs st where r: "update_dependencies 5 (sample_os\<lparr>os_alloc := (\<lambda>k. k < 2)\<rparr>) (\<lambda>x. x) 1 [(7, 3, REGULAR)] [6] reload_set = (Throws Bad_alloc, ds, bs, st)"
    using reload_set_failed by blast
  have "\<forall>y. dependents (svcs st y) = dependents (svcs reload_set y)"
    using update_dependencies_atomic [OF r _ reload_set_ok(1,2)] by simp
  then show ?thesis using r by (simp add: reload_set_def new_service_record_def)
qed

theorem update_dependencies_result_witness:
  "\<exists>ds bs st. update_dependencies 5 sample_os (\<lambda>x. x) 1 [(7, 3, REGULAR)] [6] reload_set = (Done (), ds, bs, st) \<and>
     map (\<lambda>d. (dep_to (deps st d), dep_type (deps st d))) (depends_on (svcs st 1)) = [(3, REGULAR), (2, BEFORE)] \<and>
     map (\<lambda>d. dep_from (deps st d)) (dependents (svcs st 1)) = [2]"
proof -
  obtain ds bs st where r: "update_dependencies 5 sample_os (\<lambda>x. x) 1 [(7, 3, REGULAR)] [6] reload_set = (Done (), ds, bs, st)"
    using reload_set_exchanged by blast
  then show ?thesis using update_dependencies_result [OF r reload_set_ok] by (simp add: reload_set_def new_service_record_def new_dep_def)
qed


end
