(* ===== verification/Control_Conn.thy ===== *)
theory Control_Conn
  imports Service_Links Environment Setting_Text "HOL-Library.Word"
begin

text \<open>
  A control connection (\<^verbatim>\<open>control.h\<close>, \<^verbatim>\<open>control.cc\<close>): the queue of outgoing packets, the handles that
  stand for services, and the packets that tell a client about services. What the receive buffer holds
  is a plain text here; that the circular buffer behaves as one is shown in \<^verbatim>\<open>Control_Buffer\<close>. Numbers
  in packets are in the byte order of a little-endian machine.

  Allocations are asked for where the program handles their failure: for entries of the output queue,
  of the list of listeners and of the handle tables.
\<close>

section \<open>Codes\<close>

definition state_code :: "service_state_t \<Rightarrow> nat" where
  "state_code s = (case s of STOPPED \<Rightarrow> 0 | STARTING \<Rightarrow> 1 | STARTED \<Rightarrow> 2 | STOPPING \<Rightarrow> 3)"

definition event_code :: "service_event_t \<Rightarrow> nat" where
  "event_code e =
     (case e of EV_STARTED \<Rightarrow> 0 | EV_STOPPED \<Rightarrow> 1 | EV_FAILEDSTART \<Rightarrow> 2 | EV_STARTCANCELLED \<Rightarrow> 3 | EV_STOPCANCELLED \<Rightarrow> 4)"

definition reason_code :: "stopped_reason_t \<Rightarrow> nat" where
  "reason_code r =
     (case r of NORMAL \<Rightarrow> 0 | DEPRESTART \<Rightarrow> 1 | DEPFAILED \<Rightarrow> 2 | FAILED \<Rightarrow> 3 | EXECFAILED \<Rightarrow> 4 | TIMEDOUT \<Rightarrow> 5 | TERMINATED \<Rightarrow> 6)"

definition dep_type_of :: "nat \<Rightarrow> dependency_type option" where
  "dep_type_of v = map_of (zip [0..<6] [REGULAR, SOFT, WAITS_FOR, MILESTONE, BEFORE, AFTER]) v"

definition shutdown_of :: "nat \<Rightarrow> shutdown_type_t option" where
  "shutdown_of v = map_of (zip [0..<7] [SD_NONE, SD_REMAIN, SD_HALT, SD_POWEROFF, SD_REBOOT, SD_SOFTREBOOT, SD_KEXEC]) v"

datatype cp_rply =
    ACK | NAK | BADREQ | OOM | CPVERSION | SERVICERECORD | NOSERVICE | ALREADYSS | SVCINFO | LISTDONE | LOADER_MECH | DEPENDENTS
  | SERVICENAME | PINNEDSTOPPED | PINNEDSTARTED | SHUTTINGDOWN | R_SERVICESTATUS | SERVICE_DESC_ERR | SERVICE_LOAD_ERR | SERVICE_LOG
  | SIGNAL_NOPID | SIGNAL_BADSIG | SIGNAL_KILLERR | SVCDSCDIR | ALLENV | PREACK

definition rply_code :: "cp_rply \<Rightarrow> nat" where
  "rply_code r =
     (case r of
        ACK \<Rightarrow> 50 | NAK \<Rightarrow> 51 | BADREQ \<Rightarrow> 52 | OOM \<Rightarrow> 53 | CPVERSION \<Rightarrow> 58 | SERVICERECORD \<Rightarrow> 59 | NOSERVICE \<Rightarrow> 60 | ALREADYSS \<Rightarrow> 61
      | SVCINFO \<Rightarrow> 62 | LISTDONE \<Rightarrow> 63 | LOADER_MECH \<Rightarrow> 64 | DEPENDENTS \<Rightarrow> 65 | SERVICENAME \<Rightarrow> 66 | PINNEDSTOPPED \<Rightarrow> 67
      | PINNEDSTARTED \<Rightarrow> 68 | SHUTTINGDOWN \<Rightarrow> 69 | R_SERVICESTATUS \<Rightarrow> 70 | SERVICE_DESC_ERR \<Rightarrow> 71 | SERVICE_LOAD_ERR \<Rightarrow> 72
      | SERVICE_LOG \<Rightarrow> 73 | SIGNAL_NOPID \<Rightarrow> 74 | SIGNAL_BADSIG \<Rightarrow> 75 | SIGNAL_KILLERR \<Rightarrow> 76 | SVCDSCDIR \<Rightarrow> 77 | ALLENV \<Rightarrow> 78
      | PREACK \<Rightarrow> 79)"

definition byte :: "nat \<Rightarrow> char" where
  "byte n = char_of (n mod 256)"

definition rply :: "cp_rply \<Rightarrow> char" where
  "rply r = byte (rply_code r)"

text \<open>The object representation of an unsigned number of \<open>k\<close> bytes, and the number it represents.\<close>

primrec le_bytes :: "nat \<Rightarrow> nat \<Rightarrow> string" where
  "le_bytes 0 n = []"
| "le_bytes (Suc k) n = byte n # le_bytes k (n div 256)"

primrec le_nat :: "string \<Rightarrow> nat" where
  "le_nat [] = 0"
| "le_nat (c # s) = of_char c + 256 * le_nat s"

lemma of_byte: "of_char (byte n) = n mod 256"
  by (simp add: byte_def)

lemma length_le_bytes [simp]: "length (le_bytes k n) = k"
  by (induction k arbitrary: n) simp_all

lemma le_nat_le_bytes: "le_nat (le_bytes k n) = n mod 256 ^ k"
  by (induction k arbitrary: n) (simp_all add: of_byte mod_mult2_eq)

text \<open>A signed number of 32 bits.\<close>

definition int_bytes :: "int \<Rightarrow> string" where
  "int_bytes i = le_bytes 4 (nat (i mod 2 ^ 32))"

section \<open>Connections\<close>

datatype write_reply = Wrote nat | W_again | W_pipe | W_error

record conn =
  bad_conn_close :: bool
  oom_close :: bool
  chklen :: nat
  rbuf :: string
  service_key_map :: "(sid \<times> nat) list"
  key_service_map :: "(nat \<times> sid) list"
  outbuf :: "string list"
  outbuf_size :: "32 word"
  outpkt_index :: nat
  conn_calls :: nat
  sent :: string

definition new_conn :: conn where
  "new_conn =
     \<lparr>bad_conn_close = False, oom_close = False, chklen = 0, rbuf = [], service_key_map = [], key_service_map = [],
      outbuf = [], outbuf_size = 0, outpkt_index = 0, conn_calls = 0, sent = []\<rparr>"

text \<open>What the system answers to a connection. The argument counts the questions so far.\<close>

record conn_os =
  co_write :: "nat \<Rightarrow> write_reply"
  co_alloc :: "nat \<Rightarrow> bool"

definition conn_ask :: "(nat \<Rightarrow> 'a) \<Rightarrow> conn \<Rightarrow> 'a \<times> conn" where
  "conn_ask q c = (q (conn_calls c), c\<lparr>conn_calls := Suc (conn_calls c)\<rparr>)"

section \<open>Output\<close>

definition do_oom_close :: "conn \<Rightarrow> conn" where
  "do_oom_close c = c\<lparr>bad_conn_close := True, oom_close := True\<rparr>"

text \<open>
  \<^verbatim>\<open>queue_packet\<close> for an array: what could not be written at once is queued as a packet of its own. The
  result is false if the connection should be closed.
\<close>

definition queue_chars :: "conn_os \<Rightarrow> string \<Rightarrow> conn \<Rightarrow> bool \<times> conn" where
  "queue_chars W pkt c =
     (let was_empty = (outbuf c = []);
          enqueue = (\<lambda>pkt c.
            (let (ok, c) = conn_ask (co_alloc W) c
             in if ok then (True, c\<lparr>outbuf := outbuf c @ [pkt], outbuf_size := outbuf_size c + of_nat (length pkt)\<rparr>)
                else (\<not> was_empty, do_oom_close c)))
      in if was_empty then
           (case conn_ask (co_write W) c of
              (W_pipe, c) \<Rightarrow> (False, c)
            | (W_error, c) \<Rightarrow> (False, c)
            | (W_again, c) \<Rightarrow> enqueue pkt c
            | (Wrote n, c) \<Rightarrow>
                (let c = c\<lparr>sent := sent c @ take n pkt\<rparr>
                 in if n \<ge> length pkt then (True, c) else enqueue (drop n pkt) c))
         else enqueue pkt c)"

text \<open>
  \<^verbatim>\<open>queue_packet\<close> for a vector: the packet is queued as a whole and the index says how much of it has been
  written. Its size is taken after it has been moved into the queue, when it is empty.
\<close>

definition queue_vec :: "conn_os \<Rightarrow> string \<Rightarrow> conn \<Rightarrow> bool \<times> conn" where
  "queue_vec W pkt c =
     (let was_empty = (outbuf c = []);
          enqueue = (\<lambda>c.
            (let (ok, c) = conn_ask (co_alloc W) c; moved_from = ([] :: string)
             in if ok then (True, c\<lparr>outbuf := outbuf c @ [pkt], outbuf_size := outbuf_size c + of_nat (length moved_from)\<rparr>)
                else (\<not> was_empty, do_oom_close c)))
      in if was_empty then
           (case conn_ask (co_write W) (c\<lparr>outpkt_index := 0\<rparr>) of
              (W_pipe, c) \<Rightarrow> (False, c)
            | (W_error, c) \<Rightarrow> (False, c)
            | (W_again, c) \<Rightarrow> enqueue c
            | (Wrote n, c) \<Rightarrow>
                (let c = c\<lparr>sent := sent c @ take n pkt\<rparr>
                 in if n \<ge> length pkt then (True, c) else enqueue (c\<lparr>outpkt_index := n\<rparr>)))
         else enqueue c)"

text \<open>
  \<^verbatim>\<open>send_data\<close>: whether the connection is to be deleted. It has no meaning if there is nothing to send and
  the connection is in order.
\<close>

definition send_data :: "conn_os \<Rightarrow> conn \<Rightarrow> (bool \<times> conn) option" where
  "send_data W c =
     (case outbuf c of
        [] \<Rightarrow>
          if \<not> bad_conn_close c then None
          else if oom_close c then
            Some (case conn_ask (co_write W) c of
                    (Wrote n, c) \<Rightarrow> (True, c\<lparr>sent := sent c @ take n [rply OOM]\<rparr>)
                  | (_, c) \<Rightarrow> (True, c))
          else Some (True, c)
      | pkt # rest \<Rightarrow>
          Some (case conn_ask (co_write W) c of
                  (W_again, c) \<Rightarrow> (False, c)
                | (W_pipe, c) \<Rightarrow> (True, c)
                | (W_error, c) \<Rightarrow> (True, c)
                | (Wrote n, c) \<Rightarrow>
                    (let out = take n (drop (outpkt_index c) pkt);
                         c = c\<lparr>sent := sent c @ out, outpkt_index := outpkt_index c + length out\<rparr>
                     in if outpkt_index c = length pkt then
                          (let c = c\<lparr>outbuf_size := outbuf_size c - of_nat (length pkt), outbuf := rest, outpkt_index := 0\<rparr>
                           in (\<not> oom_close c \<and> outbuf c = [] \<and> bad_conn_close c, c))
                        else (False, c))))"

text \<open>The events a connection waits for after each event (\<^verbatim>\<open>control_conn_cb\<close>).\<close>

definition OUTBUF_LIMIT :: nat where "OUTBUF_LIMIT = 16384"

definition watches_in :: "conn \<Rightarrow> bool" where
  "watches_in c \<longleftrightarrow> \<not> bad_conn_close c \<and> unat (outbuf_size c) < OUTBUF_LIMIT"

definition watches_out :: "conn \<Rightarrow> bool" where
  "watches_out c \<longleftrightarrow> outbuf c \<noteq> [] \<or> bad_conn_close c"

section \<open>What clients are told about a service\<close>

definition get_pid :: "sset \<Rightarrow> sid \<Rightarrow> int" where
  "get_pid st x = (if is_process_based (record_type (svcs st x)) then pid (procs st x) else -1)"

definition status_flags :: "sset \<Rightarrow> sid \<Rightarrow> nat" where
  "status_flags st x =
     (let s = svcs st x
      in of_bool (waiting_for_console s) + 2 * of_bool (have_console s) + 4 * of_bool (start_skipped s) + 8 * of_bool (start_explicit s) +
         16 * of_bool (get_pid st x \<noteq> -1))"

text \<open>Stage and error number of a failed launch are an argument.\<close>

definition status_head :: "nat \<times> int \<Rightarrow> sset \<Rightarrow> sid \<Rightarrow> string" where
  "status_head err st x =
     (let s = svcs st x
      in [byte (state_code (service_state s)), byte (state_code (desired_state s)), byte (status_flags st x), byte (reason_code (stop_reason s))] @
         (if get_pid st x = -1 \<and> stop_reason s = EXECFAILED then le_bytes 2 (fst err) else le_bytes 2 0))"

definition fill_status_buffer :: "nat \<times> int \<Rightarrow> sset \<Rightarrow> sid \<Rightarrow> string" where
  "fill_status_buffer err st x =
     status_head err st x @
     (if get_pid st x \<noteq> -1 then int_bytes (get_pid st x)
      else if stop_reason (svcs st x) = EXECFAILED then int_bytes (snd err)
      else int_bytes (if did_exit_clean (get_exit_status st x) then 0 else -1))"

definition fill_status_buffer5 :: "nat \<times> int \<Rightarrow> sset \<Rightarrow> sid \<Rightarrow> string" where
  "fill_status_buffer5 err st x =
     status_head err st x @
     (if get_pid st x \<noteq> -1 then int_bytes (get_pid st x) @ le_bytes 4 0
      else if stop_reason (svcs st x) = EXECFAILED then int_bytes (snd err) @ le_bytes 4 0
      else int_bytes (wait_si_code (get_exit_status st x)) @ int_bytes (wait_si_status (get_exit_status st x)))"

definition STATUS_BUFFER_SIZE :: nat where "STATUS_BUFFER_SIZE = 10"
definition STATUS_BUFFER5_SIZE :: nat where "STATUS_BUFFER5_SIZE = 14"

definition event_packets :: "nat \<times> int \<Rightarrow> sset \<Rightarrow> sid \<Rightarrow> service_event_t \<Rightarrow> nat \<Rightarrow> string \<times> string" where
  "event_packets err st x ev key =
     ([byte 101, byte (3 + 4 + STATUS_BUFFER5_SIZE)] @ le_bytes 4 key @ [byte (event_code ev)] @ fill_status_buffer5 err st x,
      [byte 100, byte (3 + 4 + STATUS_BUFFER_SIZE)] @ le_bytes 4 key @ [byte (event_code ev)] @ fill_status_buffer err st x)"

text \<open>\<^verbatim>\<open>service_event\<close>: two packets for each handle of the service; what comes of queueing them is not looked at.\<close>

definition service_event :: "conn_os \<Rightarrow> nat \<times> int \<Rightarrow> sset \<Rightarrow> sid \<Rightarrow> service_event_t \<Rightarrow> conn \<Rightarrow> conn" where
  "service_event W err st x ev c =
     fold (\<lambda>(_, key) c.
        (let (pkt5, pkt) = event_packets err st x ev key
         in snd (queue_vec W pkt (snd (queue_vec W pkt5 c)))))
       (filter (\<lambda>p. fst p = x) (service_key_map c)) c"

definition environ_event :: "conn_os \<Rightarrow> string \<Rightarrow> bool \<Rightarrow> conn \<Rightarrow> conn" where
  "environ_event W var_and_val overridden c =
     (let ln = (length var_and_val + 1) mod 2 ^ 16
      in snd (queue_vec W ([byte 102, byte 5, byte (of_bool overridden)] @ le_bytes 2 ln @ take ln (var_and_val @ [CHR 0x00])) c))"

section \<open>The connection among services and environment\<close>

text \<open>
  Whether this connection listens to a service, how many others do, and whether it listens to the
  environment.
\<close>

record ctl =
  k_set :: sset
  k_conn :: conn
  k_env :: environment
  k_listening :: "sid \<Rightarrow> bool"
  k_others :: "sid \<Rightarrow> nat"
  k_env_listening :: bool

datatype kill_reply = K_ok | K_einval | K_error

text \<open>
  The world around: answers of the system, the environment of the daemon, loading and reloading of
  services (virtual methods of the service set), the service set as it was when an event was issued, and
  the addresses of new objects.
\<close>

record ctl_env =
  ce_conn :: conn_os
  ce_os :: os_env
  ce_fuel :: nat
  ce_environ :: "string list"
  ce_load :: "string \<Rightarrow> sset \<Rightarrow> (load_exc + sid) \<times> sset"
  ce_reload :: "sid \<Rightarrow> sset \<Rightarrow> (load_exc + sid) \<times> sset"
  ce_kill :: "nat \<Rightarrow> kill_reply"
  ce_exec_err :: "sid \<Rightarrow> nat \<times> int"
  ce_dsc_dir :: "sid \<Rightarrow> string"
  ce_load_dirs :: "string list option"
  ce_cwd :: "nat \<Rightarrow> string option"
  ce_snap :: "nat \<Rightarrow> sset"
  ce_addr :: "nat \<Rightarrow> nat"

definition upd_conn :: "(conn \<Rightarrow> conn) \<Rightarrow> ctl \<Rightarrow> ctl" where
  "upd_conn f k = k\<lparr>k_conn := f (k_conn k)\<rparr>"

text \<open>A change of the service set, and the events it has issued.\<close>

definition new_events :: "sset \<Rightarrow> sset \<Rightarrow> (sid \<times> service_event_t) list" where
  "new_events st st' =
     List.map_filter (\<lambda>e. case e of Notify x ev \<Rightarrow> Some (x, ev) | _ \<Rightarrow> None)
       (rev (take (length (effects st') - length (effects st)) (effects st')))"

definition set_services :: "ctl_env \<Rightarrow> sset \<Rightarrow> ctl \<Rightarrow> ctl" where
  "set_services E st k =
     fold (\<lambda>(x, ev) k.
        if k_listening k x
        then upd_conn (\<lambda>c. service_event (ce_conn E) (ce_exec_err E x) (ce_snap E (conn_calls c)) x ev c) k else k)
       (new_events (k_set k) st) (k\<lparr>k_set := st\<rparr>)"

section \<open>Handles\<close>

fun free_handle :: "nat \<Rightarrow> (nat \<times> sid) list \<Rightarrow> nat" where
  "free_handle candidate [] = candidate"
| "free_handle candidate ((h, _) # m) = (if h = candidate then free_handle (Suc candidate) m else candidate)"

definition enter_handle :: "nat \<Rightarrow> sid \<Rightarrow> (nat \<times> sid) list \<Rightarrow> (nat \<times> sid) list" where
  "enter_handle h x m = filter (\<lambda>p. fst p < h) m @ (h, x) # filter (\<lambda>p. fst p > h) m"

definition erase_handle :: "nat \<Rightarrow> (nat \<times> sid) list \<Rightarrow> (nat \<times> sid) list" where
  "erase_handle h m = filter (\<lambda>p. fst p \<noteq> h) m"

definition find_service_for_key :: "conn \<Rightarrow> nat \<Rightarrow> sid option" where
  "find_service_for_key c h = map_of (key_service_map c) h"

text \<open>
  \<^verbatim>\<open>allocate_service_handle\<close>. Without memory for the listener the exception goes on (no handle); without
  memory for the tables it is swallowed, and the handle that is returned stands for nothing.
\<close>

definition allocate_service_handle :: "conn_os \<Rightarrow> sid \<Rightarrow> ctl \<Rightarrow> nat option \<times> ctl" where
  "allocate_service_handle W x k =
     (let c = k_conn k;
          candidate = free_handle 0 (key_service_map c);
          is_unique = (x \<notin> fst ` set (service_key_map c));
          (ok, c) = (if is_unique then conn_ask (co_alloc W) c else (True, c))
      in if \<not> ok then (None, k\<lparr>k_conn := c\<rparr>)
         else
           (let (ok1, c) = conn_ask (co_alloc W) c;
                (ok2, c) = (if ok1 then conn_ask (co_alloc W) c else (False, c))
            in if ok2 then
                 (Some candidate,
                  k\<lparr>k_conn := c\<lparr>key_service_map := enter_handle candidate x (key_service_map c),
                               service_key_map := service_key_map c @ [(x, candidate)]\<rparr>,
                    k_listening := (k_listening k)(x := True)\<rparr>)
               else
                 (Some candidate,
                  k\<lparr>k_conn := c\<lparr>key_service_map := erase_handle candidate (key_service_map c)\<rparr>,
                    k_listening := (if is_unique then (k_listening k)(x := False) else k_listening k)\<rparr>)))"

section \<open>The stream of output\<close>

definition pending :: "conn \<Rightarrow> string" where
  "pending c = drop (outpkt_index c) (concat (outbuf c))"

definition out_ok :: "conn \<Rightarrow> bool" where
  "out_ok c \<longleftrightarrow> outpkt_index c \<le> (case outbuf c of [] \<Rightarrow> 0 | pkt # _ \<Rightarrow> length pkt)"

text \<open>Either memory has run out, or what was sent and what is waiting are the bytes accepted so far.\<close>

definition streams :: "conn \<Rightarrow> string \<Rightarrow> bool" where
  "streams c q \<longleftrightarrow> oom_close c \<or> (out_ok c \<and> sent c @ pending c = q)"

lemma pending_snoc:
  assumes "out_ok c"
  shows "drop (outpkt_index c) (concat (outbuf c @ [pkt])) = pending c @ pkt"
  using assms by (auto simp: pending_def out_ok_def split: list.splits)

lemma out_ok_snoc: "out_ok c \<Longrightarrow> out_ok (c\<lparr>outbuf := outbuf c @ [pkt], outbuf_size := k\<rparr>)"
  by (auto simp: out_ok_def split: list.splits)

lemma queue_chars_streams:
  assumes "streams c q" "queue_chars W pkt c = (ok, c')"
  shows "streams c' (if ok then q @ pkt else q)"
proof (cases "oom_close c")
  case True
  then show ?thesis using assms(2) by (auto simp: streams_def queue_chars_def conn_ask_def do_oom_close_def Let_def split: write_reply.splits if_splits)
next
  case False
  then have c: "out_ok c" "sent c @ pending c = q" using assms(1) by (simp_all add: streams_def)
  show ?thesis
  proof (cases "outbuf c = []")
    case True
    then have "outpkt_index c = 0" "sent c = q" using c by (auto simp: out_ok_def pending_def)
    then show ?thesis using assms(2) True
      by (auto simp: streams_def queue_chars_def conn_ask_def do_oom_close_def Let_def pending_def out_ok_def split: write_reply.splits if_splits)
  next
    case ne: False
    then show ?thesis using assms(2) c pending_snoc [OF c(1), of pkt] out_ok_snoc [OF c(1)]
      by (auto simp: streams_def queue_chars_def conn_ask_def do_oom_close_def Let_def pending_def out_ok_def split: if_splits)
  qed
qed

lemma queue_vec_streams:
  assumes "streams c q" "queue_vec W pkt c = (ok, c')"
  shows "streams c' (if ok then q @ pkt else q)"
proof (cases "oom_close c")
  case True
  then show ?thesis using assms(2) by (auto simp: streams_def queue_vec_def conn_ask_def do_oom_close_def Let_def split: write_reply.splits if_splits)
next
  case False
  then have c: "out_ok c" "sent c @ pending c = q" using assms(1) by (simp_all add: streams_def)
  show ?thesis
  proof (cases "outbuf c = []")
    case True
    then have "outpkt_index c = 0" "sent c = q" using c by (auto simp: out_ok_def pending_def)
    then show ?thesis using assms(2) True
      by (auto simp: streams_def queue_vec_def conn_ask_def do_oom_close_def Let_def pending_def out_ok_def split: write_reply.splits if_splits)
  next
    case ne: False
    then show ?thesis using assms(2) c pending_snoc [OF c(1), of pkt] out_ok_snoc [OF c(1)]
      by (auto simp: streams_def queue_vec_def conn_ask_def do_oom_close_def Let_def pending_def out_ok_def split: if_splits)
  qed
qed

lemma send_data_streams:
  assumes "streams c q" "send_data W c = Some (del, c')"
  shows "streams c' q"
proof (cases "oom_close c")
  case True
  then show ?thesis using assms(2) by (auto simp: streams_def send_data_def conn_ask_def Let_def split: write_reply.splits if_splits list.splits)
next
  case False
  then have c: "out_ok c" "sent c @ pending c = q" using assms(1) by (simp_all add: streams_def)
  show ?thesis
  proof (cases "outbuf c")
    case Nil
    then show ?thesis using assms False by (auto simp: send_data_def split: if_splits)
  next
    case (Cons pkt rest)
    show ?thesis
    proof (cases "co_write W (conn_calls c)")
      case (Wrote n)
      let ?out = "take n (drop (outpkt_index c) pkt)"
      have le: "outpkt_index c \<le> length pkt" using c(1) Cons by (simp add: out_ok_def)
      have p: "pending c = drop (outpkt_index c) pkt @ concat rest" using le Cons by (simp add: pending_def)
      have "drop (outpkt_index c) pkt = ?out @ drop (outpkt_index c + length ?out) pkt"
        by (metis append_take_drop_id drop_drop length_take take_all_iff drop_all min_def add.commute nat_le_linear)
      moreover have "outpkt_index c + length ?out \<le> length pkt" using le by simp
      ultimately show ?thesis using assms(2) c p Cons Wrote
        by (auto simp: streams_def send_data_def conn_ask_def Let_def pending_def out_ok_def split: if_splits list.splits)
    qed (use assms(2) c Cons in \<open>auto simp: streams_def send_data_def conn_ask_def Let_def pending_def out_ok_def\<close>)
  qed
qed

datatype out_op = Put_chars string | Put_vec string | Send

text \<open>A history of output; the accepted bytes are collected.\<close>

fun run_out :: "conn_os \<Rightarrow> out_op list \<Rightarrow> string \<Rightarrow> conn \<Rightarrow> (string \<times> conn) option" where
  "run_out W [] q c = Some (q, c)"
| "run_out W (Put_chars pkt # ops) q c = (let (ok, c) = queue_chars W pkt c in run_out W ops (if ok then q @ pkt else q) c)"
| "run_out W (Put_vec pkt # ops) q c = (let (ok, c) = queue_vec W pkt c in run_out W ops (if ok then q @ pkt else q) c)"
| "run_out W (Send # ops) q c = (case send_data W c of None \<Rightarrow> None | Some (_, c) \<Rightarrow> run_out W ops q c)"

lemma run_out_streams: "run_out W ops q c = Some (q', c') \<Longrightarrow> streams c q \<Longrightarrow> streams c' q'"
proof (induction ops arbitrary: q c)
  case (Cons op ops)
  show ?case
  proof (cases op)
    case (Put_chars pkt)
    obtain ok c1 where "queue_chars W pkt c = (ok, c1)" by fastforce
    then show ?thesis using Cons queue_chars_streams [OF Cons.prems(2)] Put_chars by (auto split: if_splits)
  next
    case (Put_vec pkt)
    obtain ok c1 where "queue_vec W pkt c = (ok, c1)" by fastforce
    then show ?thesis using Cons queue_vec_streams [OF Cons.prems(2)] Put_vec by (auto split: if_splits)
  next
    case Send
    then show ?thesis using Cons by (auto dest: send_data_streams split: option.splits)
  qed
qed simp

lemma new_conn_streams: "streams new_conn []"
  by (simp add: streams_def new_conn_def out_ok_def pending_def)

text \<open>
  C23. Whatever the socket answers, and however output is cut into pieces by it: as long as memory has not
  run out, the bytes a client has received, followed by those still waiting, are exactly the packets
  that were accepted, in order, complete and without repetition.
\<close>

theorem output_in_order:
  assumes "run_out W ops [] new_conn = Some (q, c)" "\<not> oom_close c"
  shows "sent c @ pending c = q"
  using run_out_streams [OF assms(1) new_conn_streams] assms(2) by (simp add: streams_def)

definition slow_socket :: conn_os where
  "slow_socket = \<lparr>co_write = (\<lambda>k. if even k then Wrote 1 else W_again), co_alloc = (\<lambda>_. True)\<rparr>"

theorem output_in_order_witness:
  "\<exists>c. run_out slow_socket [Put_vec ''abc'', Put_chars ''de'', Send, Send] [] new_conn = Some (''abcde'', c) \<and> sent c @ pending c = ''abcde''"
proof -
  have "\<exists>c. run_out slow_socket [Put_vec ''abc'', Put_chars ''de'', Send, Send] [] new_conn = Some (''abcde'', c) \<and> \<not> oom_close c"
    by (simp add: slow_socket_def new_conn_def queue_vec_def queue_chars_def send_data_def conn_ask_def)
  then show ?thesis using output_in_order by blast
qed

lemma unat_minus_of_nat:
  assumes "0 < n" "n < 2 ^ 31"
  shows "unat (- of_nat n :: 32 word) = 2 ^ 32 - n"
proof -
  have "unat (of_nat n :: 32 word) = n" using assms by (simp add: unat_of_nat)
  moreover have "unat (0 - of_nat n :: 32 word) = (if unat (of_nat n :: 32 word) \<le> unat (0 :: 32 word) then unat (0 :: 32 word) - unat (of_nat n :: 32 word)
      else unat (0 :: 32 word) + 2 ^ size (0 :: 32 word) - unat (of_nat n :: 32 word))" by (rule unat_sub_if_size)
  ultimately show ?thesis using assms by (simp add: word_size)
qed

text \<open>
  C24. The count of waiting output is wrong for packets that are queued as vectors: such a packet is not
  counted when it is queued but discounted when it has been sent. The count wraps around to a value above
  the limit, and the connection no longer waits for requests although nothing is waiting to be sent.
\<close>

theorem queued_reply_deafens:
  assumes "outbuf c = []" "outbuf_size c = 0" "0 < length pkt" "length pkt < 2 ^ 31"
    and "co_write W (conn_calls c) = W_again" "co_alloc W (Suc (conn_calls c))"
    and "co_write W (Suc (Suc (conn_calls c))) = Wrote (length pkt)"
    and "queue_vec W pkt c = (ok, c1)" "send_data W c1 = Some (del, c2)"
  shows "outbuf c2 = [] \<and> \<not> watches_in c2"
proof -
  have c2: "outbuf c2 = []" "outbuf_size c2 = - of_nat (length pkt)"
    using assms by (auto simp: queue_vec_def send_data_def conn_ask_def Let_def)
  have "unat (outbuf_size c2) = 2 ^ 32 - length pkt" using unat_minus_of_nat [OF assms(3,4)] by (simp add: c2(2))
  then show ?thesis using assms(4) c2(1) by (simp add: watches_in_def OUTBUF_LIMIT_def) linarith
qed

definition busy_socket :: conn_os where
  "busy_socket = \<lparr>co_write = (\<lambda>k. if k = 0 then W_again else Wrote 3), co_alloc = (\<lambda>_. True)\<rparr>"

theorem queued_reply_deafens_witness:
  "watches_in new_conn \<and> (\<exists>ok c1 del c2. queue_vec busy_socket ''abc'' new_conn = (ok, c1) \<and> send_data busy_socket c1 = Some (del, c2) \<and> \<not> watches_in c2)"
proof -
  obtain ok c1 where r1: "queue_vec busy_socket ''abc'' new_conn = (ok, c1)" by fastforce
  then have "send_data busy_socket c1 \<noteq> None" by (auto simp: busy_socket_def new_conn_def queue_vec_def send_data_def conn_ask_def)
  then obtain del c2 where r: "queue_vec busy_socket ''abc'' new_conn = (ok, c1)" "send_data busy_socket c1 = Some (del, c2)" using r1 by auto
  have "\<not> watches_in c2" using queued_reply_deafens [OF _ _ _ _ _ _ _ r] by (simp add: new_conn_def busy_socket_def)
  then show ?thesis using r by (auto simp: watches_in_def new_conn_def OUTBUF_LIMIT_def)
qed

end
