(* ===== verification/Control_Commands.thy ===== *)
theory Control_Commands
  imports Control_Conn Setting_Params Cycle_Check
begin

text \<open>
  The commands of the control protocol (\<^verbatim>\<open>control.cc\<close>): every handler of a packet, their dispatch, and the
  reading of requests from the socket. A handler has no result if the fuel of the service set runs out
  or if the program would do something C++ gives no meaning to.
\<close>

section \<open>Steps that handlers share\<close>

datatype reply = Returns bool | Out_of_memory

definition field :: "nat \<Rightarrow> nat \<Rightarrow> conn \<Rightarrow> nat" where
  "field i n c = le_nat (take n (drop i (rbuf c)))"

abbreviation rbyte :: "nat \<Rightarrow> conn \<Rightarrow> nat" where
  "rbyte i c \<equiv> of_char (rbuf c ! i)"

definition consume_packet :: "nat \<Rightarrow> ctl \<Rightarrow> ctl" where
  "consume_packet n = upd_conn (\<lambda>c. c\<lparr>rbuf := drop n (rbuf c), chklen := 0\<rparr>)"

definition await_length :: "nat \<Rightarrow> ctl \<Rightarrow> (reply \<times> ctl) option" where
  "await_length n k = Some (Returns True, upd_conn (\<lambda>c. c\<lparr>chklen := n\<rparr>) k)"

definition put_chars :: "ctl_env \<Rightarrow> string \<Rightarrow> ctl \<Rightarrow> bool \<times> ctl" where
  "put_chars E pkt k = (let (ok, c) = queue_chars (ce_conn E) pkt (k_conn k) in (ok, k\<lparr>k_conn := c\<rparr>))"

definition put_vec :: "ctl_env \<Rightarrow> string \<Rightarrow> ctl \<Rightarrow> bool \<times> ctl" where
  "put_vec E pkt k = (let (ok, c) = queue_vec (ce_conn E) pkt (k_conn k) in (ok, k\<lparr>k_conn := c\<rparr>))"

text \<open>The reply is the last thing a handler does, or the packet is taken from the buffer after it.\<close>

definition end_reply :: "ctl_env \<Rightarrow> cp_rply \<Rightarrow> ctl \<Rightarrow> (reply \<times> ctl) option" where
  "end_reply E r k = (let (ok, k) = put_chars E [rply r] k in Some (Returns ok, k))"

definition end_packet :: "ctl_env \<Rightarrow> string \<Rightarrow> ctl \<Rightarrow> (reply \<times> ctl) option" where
  "end_packet E pkt k = (let (ok, k) = put_vec E pkt k in Some (Returns ok, k))"

definition reply_consume :: "ctl_env \<Rightarrow> cp_rply \<Rightarrow> nat \<Rightarrow> ctl \<Rightarrow> (reply \<times> ctl) option" where
  "reply_consume E r n k =
     (let (ok, k) = put_chars E [rply r] k in Some (if ok then (Returns True, consume_packet n k) else (Returns False, k)))"

definition bad_request :: "ctl_env \<Rightarrow> ctl \<Rightarrow> (reply \<times> ctl) option" where
  "bad_request E k =
     (let (ok, k) = put_chars E [rply BADREQ] k
      in Some (if ok then (Returns True, upd_conn (\<lambda>c. c\<lparr>bad_conn_close := True\<rparr>) k) else (Returns False, k)))"

definition run_queues :: "ctl_env \<Rightarrow> sset \<Rightarrow> sset option" where
  "run_queues E st = process_queues (ce_os E) (ce_fuel E) st"

abbreviation services_ctx :: "ctl_env \<Rightarrow> ctx" where
  "services_ctx E \<equiv> run_ctx (ce_os E) (ce_fuel E)"

definition is_shutting_down :: "sset \<Rightarrow> bool" where
  "is_shutting_down st \<longleftrightarrow> \<not> restart_enabled st"

section \<open>Finding, loading and closing\<close>

definition load_fail_code :: "load_exc \<Rightarrow> cp_rply" where
  "load_fail_code e =
     (case e of
        Description_exc _ _ \<Rightarrow> SERVICE_DESC_ERR | Setting_exc _ _ \<Rightarrow> SERVICE_DESC_ERR | Setting_pos_exc _ _ _ \<Rightarrow> SERVICE_DESC_ERR
      | Service_not_found _ \<Rightarrow> NOSERVICE
      | _ \<Rightarrow> SERVICE_LOAD_ERR)"

definition hand_out_handle :: "ctl_env \<Rightarrow> sid \<Rightarrow> ctl \<Rightarrow> (reply \<times> ctl) option" where
  "hand_out_handle E x k =
     (case allocate_service_handle (ce_conn E) x k of
        (None, k) \<Rightarrow> Some (Out_of_memory, k)
      | (Some h, k) \<Rightarrow>
          end_packet E
            ([rply SERVICERECORD, byte (state_code (service_state (svcs (k_set k) x)))] @ le_bytes 4 h @
             [byte (state_code (desired_state (svcs (k_set k) x)))]) k)"

definition process_find_load :: "bool \<Rightarrow> ctl_env \<Rightarrow> ctl \<Rightarrow> (reply \<times> ctl) option" where
  "process_find_load load E k =
     (if length (rbuf (k_conn k)) < 4 then await_length 4 k
      else
        (let len = field 1 2 (k_conn k)
         in if len = 0 \<or> len > 1024 - 3 then bad_request E k
            else if length (rbuf (k_conn k)) < len + 3 then await_length (len + 3) k
            else
              (let name = c_str (take len (drop 3 (rbuf (k_conn k))));
                   k = consume_packet (len + 3) k
               in if load then
                    (case ce_load E name (k_set k) of
                       (Inr x, st) \<Rightarrow> hand_out_handle E x (set_services E st k)
                     | (Inl Fuel_spent, st) \<Rightarrow> None
                     | (Inl Bad_alloc, st) \<Rightarrow> Some (Out_of_memory, set_services E st k)
                     | (Inl e, st) \<Rightarrow> end_packet E [rply (load_fail_code e)] (set_services E st k))
                  else
                    (case find_service (k_set k) name False of
                       Some x \<Rightarrow> hand_out_handle E x k
                     | None \<Rightarrow> end_packet E [rply NOSERVICE] k))))"

definition process_close_handle :: "ctl_env \<Rightarrow> ctl \<Rightarrow> (reply \<times> ctl) option" where
  "process_close_handle E k =
     (if length (rbuf (k_conn k)) < 5 then await_length 5 k
      else
        (let h = field 1 4 (k_conn k); k = consume_packet 5 k; c = k_conn k
         in case find_service_for_key c h of
              None \<Rightarrow> bad_request E k
            | Some x \<Rightarrow>
                (let hs = map snd (filter (\<lambda>p. fst p = x) (service_key_map c));
                     c = c\<lparr>key_service_map := erase_handle h (key_service_map c),
                           service_key_map := remove1 (x, h) (service_key_map c)\<rparr>
                 in if h \<notin> set hs then None
                    else
                      end_reply E ACK
                        (k\<lparr>k_conn := c, k_listening := (if hs = [h] then (k_listening k)(x := False) else k_listening k)\<rparr>))))"

section \<open>Starting and stopping\<close>

fun allocate_all :: "conn_os \<Rightarrow> sid list \<Rightarrow> ctl \<Rightarrow> nat list option \<times> ctl" where
  "allocate_all W [] k = (Some [], k)"
| "allocate_all W (x # xs) k =
     (case allocate_service_handle W x k of
        (None, k) \<Rightarrow> (None, k)
      | (Some h, k) \<Rightarrow>
          (case allocate_all W xs k of
             (None, k) \<Rightarrow> (None, k)
           | (Some hs, k) \<Rightarrow> (Some (h # hs), k)))"

definition affected_dependents :: "sset \<Rightarrow> sid \<Rightarrow> sid list" where
  "affected_dependents st x =
     map (\<lambda>d. dep_from (deps st d)) (filter (\<lambda>d. dep_type (deps st d) = REGULAR \<and> holding_acq (deps st d)) (dependents (svcs st x)))"

text \<open>
  What becomes of a command: an acknowledgement to be sent, a reply that has been sent, a connection to
  be closed, or an exception.
\<close>

datatype verdict = Ack cp_rply | Replied | Closing | Thrown

definition dependents_packet :: "nat list \<Rightarrow> string" where
  "dependents_packet hs = [rply DEPENDENTS] @ le_bytes 8 (length hs) @ concat (map (le_bytes 4) hs)"

text \<open>\<^verbatim>\<open>check_dependents\<close>: nothing if no dependent is affected.\<close>

definition check_dependents :: "ctl_env \<Rightarrow> sid \<Rightarrow> ctl \<Rightarrow> verdict option \<times> ctl" where
  "check_dependents E x k =
     (case allocate_all (ce_conn E) (affected_dependents (k_set k) x) k of
        (None, k) \<Rightarrow> (Some Thrown, k)
      | (Some hs, k) \<Rightarrow>
          if hs = [] then (None, k)
          else
            (let (ok, k) = put_vec E (dependents_packet hs) k
             in (Some (if ok then Replied else Closing), k)))"

definition settled :: "sid \<Rightarrow> service_state_t \<Rightarrow> cp_rply \<Rightarrow> ctl \<Rightarrow> verdict" where
  "settled x wanted r k = Ack (if service_state (svcs (k_set k) x) = wanted then ALREADYSS else r)"

definition is_down :: "service_record \<Rightarrow> bool" where
  "is_down s \<longleftrightarrow> service_state s = STOPPED \<or> service_state s = STOPPING"

definition is_up :: "service_record \<Rightarrow> bool" where
  "is_up s \<longleftrightarrow> service_state s = STARTED \<or> service_state s = STARTING"

definition start_command :: "ctl_env \<Rightarrow> bool \<Rightarrow> sid \<Rightarrow> ctl \<Rightarrow> (verdict \<times> ctl) option" where
  "start_command E do_pin x k =
     (let st = k_set k
      in if is_shutting_down st then Some (Ack SHUTTINGDOWN, k)
         else if is_down (svcs st x) \<and> pinned_stopped (svcs st x) then Some (Ack PINNEDSTOPPED, k)
         else do {
           st \<leftarrow> run_queues E (start x (if do_pin then pin_start x st else st));
           let k = set_services E st k;
           Some (settled x STARTED ACK k, k)
         })"

definition stop_command_of :: "ctl_env \<Rightarrow> bool \<Rightarrow> bool \<Rightarrow> bool \<Rightarrow> sid \<Rightarrow> ctl \<Rightarrow> (verdict \<times> ctl) option" where
  "stop_command_of E do_pin gentle restart_it x k =
     (let st = k_set k
      in if restart_it \<and> is_shutting_down st then Some (Ack SHUTTINGDOWN, k)
         else if is_up (svcs st x) \<and> is_start_pinned (svcs st x) then Some (Ack PINNEDSTARTED, k)
         else
           (case (if gentle then check_dependents E x k else (None, k)) of
              (Some v, k) \<Rightarrow> Some (v, k)
            | (None, k) \<Rightarrow>
                if restart_it then
                  do {
                    (ok, st) \<leftarrow> restart (ce_fuel E) (ce_os E) x st;
                    if \<not> ok then Some (Ack NAK, set_services E st k)
                    else do {
                      st \<leftarrow> run_queues E st;
                      let k = set_services E st k;
                      Some (settled x STARTED ACK k, k)
                    }
                  }
                else
                  do {
                    st \<leftarrow> stop (ce_fuel E) (ce_os E) x True (if do_pin then pin_stop x st else st);
                    st \<leftarrow> run_queues E (forced_stop x st);
                    let k = set_services E st k;
                    Some (settled x STOPPED ACK k, k)
                  }))"

definition wake_dependent :: "did \<Rightarrow> bool \<times> sset \<Rightarrow> bool \<times> sset" where
  "wake_dependent d r =
     (case r of (found, st) \<Rightarrow>
        if is_only_ordering (deps st d) \<or> \<not> is_up (svcs st (dep_from (deps st d))) then (found, st)
        else (True, if holding_acq (deps st d) then st else start_dep d st))"

definition wake_command :: "ctl_env \<Rightarrow> bool \<Rightarrow> sid \<Rightarrow> ctl \<Rightarrow> (verdict \<times> ctl) option" where
  "wake_command E do_pin x k =
     (let st = k_set k
      in if is_shutting_down st then Some (Ack SHUTTINGDOWN, k)
         else if is_down (svcs st x) \<and> pinned_stopped (svcs st x) then Some (Ack PINNEDSTOPPED, k)
         else
           (let (found, st) = fold wake_dependent (dependents (svcs st x)) (False, st)
            in do {
                 st \<leftarrow> run_queues E (if do_pin then pin_start x st else st);
                 let k = set_services E st k;
                 Some (settled x STARTED (if found then ACK else NAK) k, k)
               }))"

definition release_command :: "ctl_env \<Rightarrow> bool \<Rightarrow> sid \<Rightarrow> ctl \<Rightarrow> (verdict \<times> ctl) option" where
  "release_command E do_pin x k =
     (let st = k_set k
      in do {
           st \<leftarrow> stop (ce_fuel E) (ce_os E) x False (if do_pin then pin_stop x st else st);
           st \<leftarrow> run_queues E st;
           let k = set_services E st k;
           Some (settled x STOPPED ACK k, k)
         })"

datatype start_stop_cmd = STARTSERVICE | STOPSERVICE | WAKESERVICE | RELEASESERVICE

definition start_stop_command :: "start_stop_cmd \<Rightarrow> ctl_env \<Rightarrow> nat \<Rightarrow> sid \<Rightarrow> ctl \<Rightarrow> (verdict \<times> ctl) option" where
  "start_stop_command cmd E flags x k =
     (case cmd of
        STARTSERVICE \<Rightarrow> start_command E (bit flags 0) x k
      | STOPSERVICE \<Rightarrow> stop_command_of E (bit flags 0) (bit flags 1) (bit flags 2) x k
      | WAKESERVICE \<Rightarrow> wake_command E (bit flags 0) x k
      | RELEASESERVICE \<Rightarrow> release_command E (bit flags 0) x k)"

text \<open>The end of a command: its acknowledgement, and the packet is cleared from the buffer.\<close>

definition finish_command :: "ctl_env \<Rightarrow> (verdict \<times> ctl) option \<Rightarrow> (reply \<times> ctl) option" where
  "finish_command E res =
     (case res of
        None \<Rightarrow> None
      | Some (Thrown, k) \<Rightarrow> Some (Out_of_memory, k)
      | Some (Closing, k) \<Rightarrow> Some (Returns False, k)
      | Some (Replied, k) \<Rightarrow> Some (Returns True, consume_packet 6 k)
      | Some (Ack r, k) \<Rightarrow> reply_consume E r 6 k)"

definition process_start_stop :: "start_stop_cmd \<Rightarrow> ctl_env \<Rightarrow> ctl \<Rightarrow> (reply \<times> ctl) option" where
  "process_start_stop cmd E k =
     (if length (rbuf (k_conn k)) < 6 then await_length 6 k
      else
        (let flags = rbyte 1 (k_conn k)
         in case find_service_for_key (k_conn k) (field 2 4 (k_conn k)) of
              None \<Rightarrow> bad_request E k
            | Some x \<Rightarrow>
                (let (ok, k) = (if bit flags 7 then put_chars E [rply PREACK] k else (True, k))
                 in if \<not> ok then Some (Returns False, k) else finish_command E (start_stop_command cmd E flags x k))))"

section \<open>Unpinning, unloading, reloading, shutting down\<close>

definition with_handle :: "nat \<Rightarrow> nat \<Rightarrow> ctl_env \<Rightarrow> (nat \<Rightarrow> sid \<Rightarrow> ctl \<Rightarrow> (reply \<times> ctl) option) \<Rightarrow> ctl \<Rightarrow> (reply \<times> ctl) option" where
  "with_handle i n E f k =
     (if length (rbuf (k_conn k)) < n then await_length n k
      else
        (let h = field i 4 (k_conn k)
         in case find_service_for_key (k_conn k) h of None \<Rightarrow> bad_request E k | Some x \<Rightarrow> f h x k))"

definition process_unpin_service :: "ctl_env \<Rightarrow> ctl \<Rightarrow> (reply \<times> ctl) option" where
  "process_unpin_service E =
     with_handle 1 5 E (\<lambda>h x k.
       do {
         st \<leftarrow> unpin (services_ctx E) x (k_set k);
         st \<leftarrow> run_queues E st;
         reply_consume E ACK 5 (set_services E st k)
       })"

text \<open>\<^verbatim>\<open>has_lone_ref\<close>; the first listener is skipped without a look whether there is one.\<close>

definition has_lone_ref :: "bool \<Rightarrow> sid \<Rightarrow> ctl \<Rightarrow> bool option" where
  "has_lone_ref check_deps x k =
     (if check_deps \<and> \<not> list_all (\<lambda>d. is_only_ordering (deps (k_set k) d)) (dependents (svcs (k_set k) x)) then Some False
      else (let n = of_bool (k_listening k x) + k_others k x in if n = 0 then None else Some (n = 1)))"

definition drop_handle :: "nat \<Rightarrow> sid \<Rightarrow> ctl \<Rightarrow> ctl" where
  "drop_handle h x k =
     k\<lparr>k_conn := (k_conn k)\<lparr>service_key_map := filter (\<lambda>p. fst p \<noteq> x) (service_key_map (k_conn k)),
                             key_service_map := erase_handle h (key_service_map (k_conn k))\<rparr>,
       k_listening := (k_listening k)(x := False)\<rparr>"

definition process_unload_service :: "ctl_env \<Rightarrow> ctl \<Rightarrow> (reply \<times> ctl) option" where
  "process_unload_service E =
     with_handle 1 5 E (\<lambda>h x k.
       do {
         lone \<leftarrow> has_lone_ref True x k;
         if \<not> lone \<or> service_state (svcs (k_set k) x) \<noteq> STOPPED then reply_consume E NAK 5 k
         else do {
           st \<leftarrow> unload_service (ce_fuel E) (ce_os E) (ce_addr E (conn_calls (k_conn k))) x (k_set k);
           reply_consume E ACK 5 (drop_handle h x (set_services E st k))
         }
       })"

definition process_reload_service :: "ctl_env \<Rightarrow> ctl \<Rightarrow> (reply \<times> ctl) option" where
  "process_reload_service E =
     with_handle 1 5 E (\<lambda>h x k.
       do {
         lone \<leftarrow> has_lone_ref False x k;
         if \<not> lone then reply_consume E NAK 5 k
         else
           (let k = drop_handle h x k
            in case ce_reload E x (k_set k) of
                 (Inr _, st) \<Rightarrow> do { st \<leftarrow> run_queues E st; reply_consume E ACK 5 (set_services E st k) }
               | (Inl Fuel_spent, st) \<Rightarrow> None
               | (Inl Bad_alloc, st) \<Rightarrow> Some (Out_of_memory, set_services E st k)
               | (Inl e, st) \<Rightarrow> reply_consume E NAK 5 (set_services E st k))
       })"

definition process_shutdown :: "ctl_env \<Rightarrow> ctl \<Rightarrow> (reply \<times> ctl) option" where
  "process_shutdown E k =
     (if length (rbuf (k_conn k)) < 2 then await_length 2 k
      else
        (case shutdown_of (rbyte 1 (k_conn k)) of
           None \<Rightarrow> bad_request E k
         | Some SD_NONE \<Rightarrow> bad_request E k
         | Some ty \<Rightarrow>
             do {
               st \<leftarrow> stop_all_services (services_ctx E) ty (k_set k);
               reply_consume E ACK 2 (set_services E st k)
             }))"

section \<open>Queries\<close>

definition service_info :: "(nat \<times> int \<Rightarrow> sset \<Rightarrow> sid \<Rightarrow> string) \<Rightarrow> ctl_env \<Rightarrow> sset \<Rightarrow> sid \<Rightarrow> string" where
  "service_info fill E st x =
     (let name = service_name (svcs st x); n = min 256 (length name)
      in [rply SVCINFO, byte n] @ fill (ce_exec_err E x) st x @ take n name)"

fun put_all :: "ctl_env \<Rightarrow> string list \<Rightarrow> ctl \<Rightarrow> bool \<times> ctl" where
  "put_all E [] k = (True, k)"
| "put_all E (pkt # pkts) k = (let (ok, k) = put_vec E pkt k in if ok then put_all E pkts k else (False, k))"

definition list_services_with :: "(nat \<times> int \<Rightarrow> sset \<Rightarrow> sid \<Rightarrow> string) \<Rightarrow> ctl_env \<Rightarrow> ctl \<Rightarrow> (reply \<times> ctl) option" where
  "list_services_with fill E k =
     (let k = consume_packet 1 k; st = k_set k;
          (ok, k) = put_all E (map (service_info fill E st) (filter (\<lambda>x. record_type (svcs st x) \<noteq> PLACEHOLDER) (records st))) k
      in if ok then end_reply E LISTDONE k else Some (Returns False, k))"

definition list_services :: "ctl_env \<Rightarrow> ctl \<Rightarrow> (reply \<times> ctl) option" where
  "list_services = list_services_with fill_status_buffer"

definition list_services5 :: "ctl_env \<Rightarrow> ctl \<Rightarrow> (reply \<times> ctl) option" where
  "list_services5 = list_services_with fill_status_buffer5"

text \<open>Queries by handle: the packet is consumed first, and a bad handle is refused without closing.\<close>

definition query_handle :: "nat \<Rightarrow> nat \<Rightarrow> ctl_env \<Rightarrow> (conn \<Rightarrow> sid \<Rightarrow> ctl \<Rightarrow> (reply \<times> ctl) option) \<Rightarrow> ctl \<Rightarrow> (reply \<times> ctl) option" where
  "query_handle i n E f k =
     (if length (rbuf (k_conn k)) < n then await_length n k
      else
        (let c = k_conn k; k = consume_packet n k
         in case find_service_for_key c (field i 4 c) of None \<Rightarrow> end_reply E NAK k | Some x \<Rightarrow> f c x k))"

definition service_status_with :: "(nat \<times> int \<Rightarrow> sset \<Rightarrow> sid \<Rightarrow> string) \<Rightarrow> ctl_env \<Rightarrow> ctl \<Rightarrow> (reply \<times> ctl) option" where
  "service_status_with fill E =
     query_handle 1 5 E (\<lambda>c x k.
       if length (service_name (svcs (k_set k) x)) > 65535 then end_reply E NAK k
       else end_packet E ([rply R_SERVICESTATUS, byte 0] @ fill (ce_exec_err E x) (k_set k) x) k)"

definition process_service_status :: "ctl_env \<Rightarrow> ctl \<Rightarrow> (reply \<times> ctl) option" where
  "process_service_status = service_status_with fill_status_buffer"

definition process_service_status5 :: "ctl_env \<Rightarrow> ctl \<Rightarrow> (reply \<times> ctl) option" where
  "process_service_status5 = service_status_with fill_status_buffer5"

definition process_query_name :: "ctl_env \<Rightarrow> ctl \<Rightarrow> (reply \<times> ctl) option" where
  "process_query_name E =
     query_handle 2 6 E (\<lambda>c x k.
       (let name = service_name (svcs (k_set k) x)
        in if length name > 65535 then end_reply E NAK k
           else end_packet E ([rply SERVICENAME, byte 0] @ le_bytes 2 (length name) @ name) k))"

definition process_query_dsc_dir :: "ctl_env \<Rightarrow> ctl \<Rightarrow> (reply \<times> ctl) option" where
  "process_query_dsc_dir E =
     query_handle 2 6 E (\<lambda>c x k.
       if rbyte 1 c \<noteq> 0 then end_reply E NAK k
       else end_packet E ([rply SVCDSCDIR] @ le_bytes 4 (length (ce_dsc_dir E x)) @ ce_dsc_dir E x) k)"

definition process_catlog :: "ctl_env \<Rightarrow> ctl \<Rightarrow> (reply \<times> ctl) option" where
  "process_catlog E =
     query_handle 2 6 E (\<lambda>c x k.
       (let st = k_set k; p = procs st x
        in if \<not> is_process_based (record_type (svcs st x)) \<or> log_type p \<noteq> LOG_BUFFER then end_reply E NAK k
           else
             end_packet E ([rply SERVICE_LOG, byte 0] @ le_bytes 4 (log_buf_size p) @ take (log_buf_size p) (log_buffer p))
               (if bit (rbyte 1 c) 0 then k\<lparr>k_set := clear_log_buffer x st\<rparr> else k)))"

definition process_set_trigger :: "ctl_env \<Rightarrow> ctl \<Rightarrow> (reply \<times> ctl) option" where
  "process_set_trigger E =
     query_handle 1 6 E (\<lambda>c x k.
       if record_type (svcs (k_set k) x) \<noteq> TRIGGERED then end_reply E NAK k
       else do {
         st \<leftarrow> set_trigger (services_ctx E) x (rbyte 5 c \<noteq> 0) (k_set k);
         st \<leftarrow> run_queues E st;
         end_reply E ACK (set_services E st k)
       })"

definition process_signal :: "ctl_env \<Rightarrow> ctl \<Rightarrow> (reply \<times> ctl) option" where
  "process_signal E =
     query_handle 5 9 E (\<lambda>c x k.
       (let spid = get_pid (k_set k) x; n = field 1 4 c;
            sig_num = (if n < 2 ^ 31 then int n else int n - 2 ^ 32)
        in if spid = -1 \<or> spid = 0 then end_reply E SIGNAL_NOPID k
           else
             (case ce_kill E (conn_calls (k_conn k)) of
                K_ok \<Rightarrow> end_reply E ACK (k\<lparr>k_set := emit (Kill spid sig_num) (k_set k)\<rparr>)
              | K_einval \<Rightarrow> end_reply E SIGNAL_BADSIG k
              | K_error \<Rightarrow> end_reply E SIGNAL_KILLERR k)))"

text \<open>The sizes tried for the working directory: from 4096 on, doubled until 32 bits overflow.\<close>

definition working_dir :: "ctl_env \<Rightarrow> string option" where
  "working_dir E = (case List.map_filter (ce_cwd E) (map (\<lambda>i. 4096 * 2 ^ i) [0..<20]) of [] \<Rightarrow> None | wd # _ \<Rightarrow> Some wd)"

definition load_mech_packet :: "string \<Rightarrow> string list \<Rightarrow> string" where
  "load_mech_packet wd dirs =
     (let body = le_bytes 4 (length dirs) @ concat (map (\<lambda>d. le_bytes 4 (length d) @ d) (wd # dirs))
      in [rply LOADER_MECH, byte 1] @ le_bytes 4 (6 + length body) @ body)"

definition query_load_mech :: "ctl_env \<Rightarrow> ctl \<Rightarrow> (reply \<times> ctl) option" where
  "query_load_mech E k =
     (let k = consume_packet 1 k
      in case ce_load_dirs E of
           None \<Rightarrow> end_reply E NAK k
         | Some dirs \<Rightarrow>
             (case working_dir E of
                None \<Rightarrow> end_reply E NAK k
              | Some wd \<Rightarrow> end_packet E (load_mech_packet wd dirs) k))"

definition query_version :: "ctl_env \<Rightarrow> ctl \<Rightarrow> (reply \<times> ctl) option" where
  "query_version E k =
     (let (ok, k) = put_chars E ([rply CPVERSION] @ le_bytes 2 1 @ le_bytes 2 5) k
      in Some (if ok then (Returns True, upd_conn (\<lambda>c. c\<lparr>rbuf := drop 1 (rbuf c)\<rparr>) k) else (Returns False, k)))"

section \<open>The environment\<close>

definition notify_env :: "ctl_env \<Rightarrow> (string \<times> bool) option \<times> environment \<Rightarrow> ctl \<Rightarrow> ctl" where
  "notify_env E r k =
     (let k = k\<lparr>k_env := snd r\<rparr>
      in case fst r of
           Some (v, overridden) \<Rightarrow> if k_env_listening k then upd_conn (environ_event (ce_conn E) v overridden) k else k
         | None \<Rightarrow> k)"

definition process_setenv :: "ctl_env \<Rightarrow> ctl \<Rightarrow> (reply \<times> ctl) option" where
  "process_setenv E k =
     (if length (rbuf (k_conn k)) < 4 then await_length 4 k
      else
        (let len = field 1 2 (k_conn k)
         in if len = 0 \<or> len > 1024 - 3 then bad_request E k
            else if length (rbuf (k_conn k)) < len + 3 then await_length (len + 3) k
            else
              (let k = upd_conn (\<lambda>c. c\<lparr>chklen := len + 3\<rparr>) k;
                   v = take len (drop 3 (rbuf (k_conn k)))
               in if CHR ''='' \<notin> set v then
                    reply_consume E ACK (len + 3) (notify_env E (undefine_var (ce_environ E) v True (k_env k)) k)
                  else if hd v \<noteq> CHR ''='' then
                    reply_consume E ACK (len + 3) (notify_env E (set_var (ce_environ E) v True (k_env k)) k)
                  else bad_request E k)))"

definition env_block :: "string list \<Rightarrow> environment \<Rightarrow> string" where
  "env_block environ env =
     concat (map (\<lambda>e. case e of None \<Rightarrow> [] | Some s \<Rightarrow> c_str s @ [CHR 0x00]) (env_list (build environ env)))"

definition process_getallenv :: "ctl_env \<Rightarrow> ctl \<Rightarrow> (reply \<times> ctl) option" where
  "process_getallenv E k =
     (if length (rbuf (k_conn k)) < 2 then await_length 2 k
      else if rbyte 1 (k_conn k) \<noteq> 0 then bad_request E k
      else
        (let k = upd_conn (\<lambda>c. c\<lparr>rbuf := drop 2 (rbuf c)\<rparr>) k; block = env_block (ce_environ E) (k_env k)
         in end_packet E ([rply ALLENV] @ le_bytes 8 (length block) @ block) k))"

definition process_listenenv :: "ctl_env \<Rightarrow> ctl \<Rightarrow> (reply \<times> ctl) option" where
  "process_listenenv E k =
     end_reply E ACK (upd_conn (\<lambda>c. c\<lparr>rbuf := drop 1 (rbuf c)\<rparr>) (k\<lparr>k_env_listening := True\<rparr>))"

section \<open>Dependencies\<close>

text \<open>The search for a circular chain: marks and a stack, whose end is the top.\<close>

fun mark_targets :: "sid \<Rightarrow> sid list \<Rightarrow> sid list \<Rightarrow> sid list \<Rightarrow> (sid list \<times> sid list) option" where
  "mark_targets from [] marks queue = Some (marks, queue)"
| "mark_targets from (y # ys) marks queue =
     (if y = from then None
      else if y \<in> set marks then mark_targets from ys marks queue
      else mark_targets from ys (y # marks) (queue @ [y]))"

primrec chain_search :: "nat \<Rightarrow> (sid \<Rightarrow> sid list) \<Rightarrow> sid \<Rightarrow> sid list \<Rightarrow> sid list \<Rightarrow> bool option" where
  "chain_search 0 targets from marks queue = None"
| "chain_search (Suc n) targets from marks queue =
     (if queue = [] then Some False
      else
        (case mark_targets from (targets (last queue)) marks (butlast queue) of
           None \<Rightarrow> Some True
         | Some (marks, queue) \<Rightarrow> chain_search n targets from marks queue))"

definition with_two_handles :: "ctl_env \<Rightarrow> (sid \<Rightarrow> sid \<Rightarrow> ctl \<Rightarrow> (reply \<times> ctl) option) \<Rightarrow> ctl \<Rightarrow> (reply \<times> ctl) option" where
  "with_two_handles E f k =
     (if length (rbuf (k_conn k)) < 10 then await_length 10 k
      else
        (case (find_service_for_key (k_conn k) (field 2 4 (k_conn k)), find_service_for_key (k_conn k) (field 6 4 (k_conn k))) of
           (Some from, Some to) \<Rightarrow> if from = to then bad_request E k else f from to k
         | _ \<Rightarrow> bad_request E k))"

text \<open>
  A dependency type that is not allowed is answered as a bad request, but the command goes on. A number
  that is no dependency type at all has no result here.
\<close>

definition check_dep_type :: "ctl_env \<Rightarrow> (dependency_type \<Rightarrow> ctl \<Rightarrow> (reply \<times> ctl) option) \<Rightarrow> ctl \<Rightarrow> (reply \<times> ctl) option" where
  "check_dep_type E f k =
     (let v = rbyte 1 (k_conn k);
          (ok, k) = (if v \<in> {0, 2, 3} then (True, k)
                     else (let (ok, k) = put_chars E [rply BADREQ] k
                           in (ok, if ok then upd_conn (\<lambda>c. c\<lparr>bad_conn_close := True\<rparr>) k else k)))
      in if \<not> ok then Some (Returns False, k) else do { ty \<leftarrow> dep_type_of v; f ty k })"

definition create_dep :: "ctl_env \<Rightarrow> dependency_type \<Rightarrow> sid \<Rightarrow> sid \<Rightarrow> ctl \<Rightarrow> (did option \<times> ctl) option" where
  "create_dep E ty from to k =
     (let st = k_set k
      in case find (\<lambda>d. dep_to (deps st d) = to \<and> dep_type (deps st d) = ty) (depends_on (svcs st from)) of
           Some d \<Rightarrow> Some (Some d, k)
         | None \<Rightarrow>
             (let d = ce_addr E (conn_calls (k_conn k));
                  (ok, st) = add_dep (ce_os E) d from to ty (length (depends_on (svcs st from))) st
              in if \<not> ok then Some (None, set_services E st k)
                 else do { st \<leftarrow> run_queues E st; Some (Some d, set_services E st k) }))"

definition enable_dep :: "ctl_env \<Rightarrow> bool \<Rightarrow> did \<Rightarrow> sid \<Rightarrow> ctl \<Rightarrow> ctl option" where
  "enable_dep E do_enable d from k =
     (if do_enable \<and> is_up (svcs (k_set k) from) \<and> \<not> is_shutting_down (k_set k)
      then do { st \<leftarrow> run_queues E (start_dep d (k_set k)); Some (set_services E st k) }
      else Some k)"

definition add_service_dep :: "bool \<Rightarrow> ctl_env \<Rightarrow> ctl \<Rightarrow> (reply \<times> ctl) option" where
  "add_service_dep do_enable E =
     with_two_handles E (\<lambda>from to. check_dep_type E (\<lambda>ty k.
       (let st = k_set k
        in if ty = REGULAR \<and> service_state (svcs st from) \<noteq> STOPPED \<and> service_state (svcs st to) \<noteq> STARTED
           then reply_consume E NAK 10 k
           else
             (case chain_search (ce_fuel E) (dep_targets st) from [] [to] of
                None \<Rightarrow> None
              | Some True \<Rightarrow> reply_consume E NAK 10 k
              | Some False \<Rightarrow>
                  do {
                    (d, k) \<leftarrow> create_dep E ty from to k;
                    case d of
                      None \<Rightarrow> Some (Out_of_memory, k)
                    | Some d \<Rightarrow> do { k \<leftarrow> enable_dep E do_enable d from k; reply_consume E ACK 10 k }
                  }))))"

definition rm_service_dep :: "ctl_env \<Rightarrow> ctl \<Rightarrow> (reply \<times> ctl) option" where
  "rm_service_dep E =
     with_two_handles E (\<lambda>from to. check_dep_type E (\<lambda>ty k.
       do {
         (did_remove, st) \<leftarrow> rm_dep (ce_fuel E) (ce_os E) from to ty (k_set k);
         st \<leftarrow> run_queues E st;
         reply_consume E (if did_remove then ACK else NAK) 10 (set_services E st k)
       }))"

section \<open>Packets and connections\<close>

definition process_packet :: "ctl_env \<Rightarrow> ctl \<Rightarrow> (reply \<times> ctl) option" where
  "process_packet E k =
     (let cmd = rbyte 0 (k_conn k)
      in if cmd = 0 then query_version E k
         else if cmd = 1 then process_find_load False E k
         else if cmd = 2 then process_find_load True E k
         else if cmd = 23 then process_close_handle E k
         else if cmd = 3 then process_start_stop STARTSERVICE E k
         else if cmd = 4 then process_start_stop STOPSERVICE E k
         else if cmd = 5 then process_start_stop WAKESERVICE E k
         else if cmd = 6 then process_start_stop RELEASESERVICE E k
         else if cmd = 7 then process_unpin_service E k
         else if cmd = 9 then process_unload_service E k
         else if cmd = 16 then process_reload_service E k
         else if cmd = 10 then process_shutdown E k
         else if cmd = 8 then list_services E k
         else if cmd = 25 then list_services5 E k
         else if cmd = 18 then process_service_status E k
         else if cmd = 26 then process_service_status5 E k
         else if cmd = 11 then add_service_dep False E k
         else if cmd = 12 then rm_service_dep E k
         else if cmd = 13 then query_load_mech E k
         else if cmd = 14 then add_service_dep True E k
         else if cmd = 15 then process_query_name E k
         else if cmd = 17 then process_setenv E k
         else if cmd = 24 then process_getallenv E k
         else if cmd = 27 then process_listenenv E k
         else if cmd = 19 then process_set_trigger E k
         else if cmd = 20 then process_catlog E k
         else if cmd = 21 then process_signal E k
         else if cmd = 22 then process_query_dsc_dir E k
         else bad_request E k)"

text \<open>The loop over complete packets.\<close>

primrec packet_loop :: "nat \<Rightarrow> ctl_env \<Rightarrow> ctl \<Rightarrow> (bool \<times> ctl) option" where
  "packet_loop 0 E k = None"
| "packet_loop (Suc n) E k =
     (if length (rbuf (k_conn k)) < chklen (k_conn k) then Some (True, k)
      else
        (case process_packet E k of
           None \<Rightarrow> None
         | Some (Out_of_memory, k) \<Rightarrow> Some (False, upd_conn do_oom_close k)
         | Some (Returns ok, k) \<Rightarrow>
             if \<not> ok \<or> bad_conn_close (k_conn k) then Some (False, k)
             else packet_loop n E (upd_conn (\<lambda>c. c\<lparr>chklen := max (chklen c) 1\<rparr>) k)))"

definition rbuf_size :: nat where "rbuf_size = 1024"

datatype sock_read = S_data string | S_again | S_error

text \<open>\<^verbatim>\<open>data_ready\<close>: whether the connection is to be deleted. As much is read as there is room for.\<close>

definition data_ready :: "nat \<Rightarrow> ctl_env \<Rightarrow> sock_read \<Rightarrow> ctl \<Rightarrow> (bool \<times> ctl) option" where
  "data_ready n E r k =
     (case r of
        S_again \<Rightarrow> Some (False, k)
      | S_error \<Rightarrow> Some (True, k)
      | S_data s \<Rightarrow>
          (let s = take (rbuf_size - length (rbuf (k_conn k))) s
           in if s = [] then Some (True, k)
              else
                (case packet_loop n E (upd_conn (\<lambda>c. c\<lparr>rbuf := rbuf c @ s\<rparr>) k) of
                   None \<Rightarrow> None
                 | Some (False, k) \<Rightarrow> Some (False, k)
                 | Some (True, k) \<Rightarrow>
                     Some (False, if length (rbuf (k_conn k)) = rbuf_size
                                  then upd_conn (\<lambda>c. c\<lparr>bad_conn_close := True\<rparr>) k else k))))"

text \<open>The destructor: the connection no longer listens to anything.\<close>

definition close_conn :: "ctl \<Rightarrow> ctl" where
  "close_conn k =
     k\<lparr>k_listening := fold (\<lambda>p l. l(fst p := False)) (service_key_map (k_conn k)) (k_listening k), k_env_listening := False\<rparr>"

text \<open>\<^verbatim>\<open>control_conn_cb\<close>: input, if there is some to read, then output, if the socket can take some. The result
  is false if the connection has been deleted.\<close>

definition conn_event :: "nat \<Rightarrow> ctl_env \<Rightarrow> sock_read option \<Rightarrow> bool \<Rightarrow> ctl \<Rightarrow> (bool \<times> ctl) option" where
  "conn_event n E inp out k =
     do {
       (del, k) \<leftarrow> (case inp of None \<Rightarrow> Some (False, k) | Some r \<Rightarrow> data_ready n E r k);
       if del then Some (False, close_conn k)
       else if out then
         do {
           (del, c) \<leftarrow> send_data (ce_conn E) (k_conn k);
           let k = k\<lparr>k_conn := c\<rparr>;
           Some (if del then (False, close_conn k) else (True, k))
         }
       else Some (True, k)
     }"

end
