(* ===== verification/Control_Props.thy ===== *)
theory Control_Props
  imports Control_Commands Sample_Set
begin

text \<open>
  Properties of control connections: requests are worked off in finitely many steps, handles stay
  consistent, and what single commands do to the services.
\<close>

section \<open>What sending leaves alone\<close>

text \<open>The parts of a connection that only requests change.\<close>

definition conn_view :: "conn \<Rightarrow> string \<times> nat \<times> (sid \<times> nat) list \<times> (nat \<times> sid) list" where
  "conn_view c = (rbuf c, chklen c, service_key_map c, key_service_map c)"

definition view :: "ctl \<Rightarrow> (string \<times> nat \<times> (sid \<times> nat) list \<times> (nat \<times> sid) list) \<times> (sid \<Rightarrow> bool) \<times> (sid \<Rightarrow> nat)" where
  "view k = (conn_view (k_conn k), k_listening k, k_others k)"

lemma viewD:
  assumes "view k' = view k"
  shows "rbuf (k_conn k') = rbuf (k_conn k)" "chklen (k_conn k') = chklen (k_conn k)"
    "service_key_map (k_conn k') = service_key_map (k_conn k)" "key_service_map (k_conn k') = key_service_map (k_conn k)"
    "k_listening k' = k_listening k" "k_others k' = k_others k"
  using assms by (simp_all add: view_def conn_view_def)

lemma queue_chars_view: "queue_chars W pkt c = (ok, c') \<Longrightarrow> conn_view c' = conn_view c"
  by (auto simp: queue_chars_def conn_view_def conn_ask_def do_oom_close_def Let_def split: write_reply.splits if_splits)

lemma queue_vec_view: "conn_view (snd (queue_vec W pkt c)) = conn_view c"
  by (auto simp: queue_vec_def conn_view_def conn_ask_def do_oom_close_def Let_def split: write_reply.splits if_splits)

lemma service_event_view: "conn_view (service_event W err st x ev c) = conn_view c"
proof -
  have "conn_view (fold (\<lambda>(_, key) c. let (pkt5, pkt) = event_packets err st x ev key in snd (queue_vec W pkt (snd (queue_vec W pkt5 c)))) l c) = conn_view c" for l :: "(sid \<times> nat) list" and c
    by (induction l arbitrary: c) (auto simp: queue_vec_view split: prod.splits)
  then show ?thesis by (simp add: service_event_def)
qed

lemma put_chars_view: "put_chars E pkt k = (ok, k') \<Longrightarrow> view k' = view k \<and> k_set k' = k_set k"
  by (auto simp: put_chars_def view_def dest: queue_chars_view split: prod.splits)

lemma put_vec_view: "put_vec E pkt k = (ok, k') \<Longrightarrow> view k' = view k \<and> k_set k' = k_set k"
  using queue_vec_view [of "ce_conn E" pkt "k_conn k"] by (auto simp: put_vec_def view_def split: prod.splits)

lemma set_services_view [simp]: "view (set_services E st k) = view k" "k_set (set_services E st k) = st"
proof -
  have "view (fold (\<lambda>(x, ev) k. if k_listening k x
        then upd_conn (\<lambda>c. service_event (ce_conn E) (ce_exec_err E x) (ce_snap E (conn_calls c)) x ev c) k else k) l k) = view k \<and>
     k_set (fold (\<lambda>(x, ev) k. if k_listening k x
        then upd_conn (\<lambda>c. service_event (ce_conn E) (ce_exec_err E x) (ce_snap E (conn_calls c)) x ev c) k else k) l k) = k_set k" for l k
    by (induction l arbitrary: k) (auto simp: view_def upd_conn_def service_event_view)
  then show "view (set_services E st k) = view k" "k_set (set_services E st k) = st" by (auto simp: set_services_def view_def)
qed

lemma notify_env_view [simp]: "view (notify_env E r k) = view k" "k_set (notify_env E r k) = k_set k"
  by (auto simp: notify_env_def view_def upd_conn_def environ_event_def queue_vec_view Let_def split: option.splits)

lemmas frames = viewD [OF set_services_view(1)] viewD [OF notify_env_view(1)]

section \<open>How handlers end\<close>

text \<open>Whenever a handler has a result, the result and the state satisfy \<open>Q\<close>.\<close>

definition ends :: "(reply \<Rightarrow> ctl \<Rightarrow> bool) \<Rightarrow> (reply \<times> ctl) option \<Rightarrow> bool" where
  "ends Q res \<longleftrightarrow> (\<forall>r k. res = Some (r, k) \<longrightarrow> Q r k)"

lemma ends_None [simp]: "ends Q None"
  and ends_Some [simp]: "ends Q (Some (r, k)) = Q r k"
  by (simp_all add: ends_def)

lemma ends_bind: "(\<And>x. m = Some x \<Longrightarrow> ends Q (f x)) \<Longrightarrow> ends Q (Option.bind m f)"
  by (cases m) simp_all

lemma ends_await: "Q (Returns True) (upd_conn (\<lambda>c. c\<lparr>chklen := n\<rparr>) k) \<Longrightarrow> ends Q (await_length n k)"
  by (simp add: await_length_def)

lemma ends_reply: "(\<And>r k'. view k' = view k \<Longrightarrow> k_set k' = k_set k \<Longrightarrow> Q r k') \<Longrightarrow> ends Q (end_reply E a k)"
  by (auto simp: end_reply_def ends_def dest: put_chars_view split: prod.splits)

lemma ends_packet: "(\<And>r k'. view k' = view k \<Longrightarrow> k_set k' = k_set k \<Longrightarrow> Q r k') \<Longrightarrow> ends Q (end_packet E pkt k)"
  by (auto simp: end_packet_def ends_def dest: put_vec_view split: prod.splits)

lemma ends_consume:
  assumes "\<And>k'. view k' = view k \<Longrightarrow> k_set k' = k_set k \<Longrightarrow> Q (Returns False) k'"
    and "\<And>k'. view k' = view k \<Longrightarrow> k_set k' = k_set k \<Longrightarrow> Q (Returns True) (consume_packet n k')"
  shows "ends Q (reply_consume E a n k)"
  using assms by (auto simp: reply_consume_def ends_def dest: put_chars_view split: prod.splits if_splits)

lemma ends_bad:
  assumes "\<And>k'. view k' = view k \<Longrightarrow> k_set k' = k_set k \<Longrightarrow> Q (Returns False) k'"
    and "\<And>k'. view k' = view k \<Longrightarrow> k_set k' = k_set k \<Longrightarrow> bad_conn_close (k_conn k') \<Longrightarrow> Q (Returns True) k'"
  shows "ends Q (bad_request E k)"
proof -
  have "view (upd_conn (\<lambda>c. c\<lparr>bad_conn_close := True\<rparr>) k') = view k'" "k_set (upd_conn (\<lambda>c. c\<lparr>bad_conn_close := True\<rparr>) k') = k_set k'"
    "bad_conn_close (k_conn (upd_conn (\<lambda>c. c\<lparr>bad_conn_close := True\<rparr>) k'))" for k'
    by (simp_all add: view_def conn_view_def upd_conn_def)
  then show ?thesis using assms by (auto simp: bad_request_def ends_def dest!: put_chars_view split: prod.splits if_splits)
qed

section \<open>Requests are worked off\<close>

text \<open>
  A handler that goes on has marked the connection as bad, has taken something from the buffer, or waits
  for more than the buffer holds.
\<close>

definition advancing :: "nat \<Rightarrow> reply \<Rightarrow> ctl \<Rightarrow> bool" where
  "advancing L r k \<longleftrightarrow> r = Returns True \<longrightarrow>
     bad_conn_close (k_conn k) \<or> length (rbuf (k_conn k)) < L \<or> (length (rbuf (k_conn k)) = L \<and> L < chklen (k_conn k))"

lemma advancing_other [simp]: "advancing L (Returns False) k" "advancing L Out_of_memory k"
  by (simp_all add: advancing_def)

lemma consume_packet_rbuf [simp]:
  "rbuf (k_conn (consume_packet n k)) = drop n (rbuf (k_conn k))" "k_set (consume_packet n k) = k_set k"
  "key_service_map (k_conn (consume_packet n k)) = key_service_map (k_conn k)"
  "service_key_map (k_conn (consume_packet n k)) = service_key_map (k_conn k)" "k_listening (consume_packet n k) = k_listening k"
  "k_others (consume_packet n k) = k_others k"
  by (simp_all add: consume_packet_def upd_conn_def)

lemma adv_await: "length (rbuf (k_conn k)) = L \<Longrightarrow> L < n \<Longrightarrow> ends (advancing L) (await_length n k)"
  by (rule ends_await) (simp add: advancing_def upd_conn_def)

lemma adv_bad: "ends (advancing L) (bad_request E k)"
  by (rule ends_bad) (simp_all add: advancing_def)

lemma adv_end:
  "length (rbuf (k_conn k)) < L \<Longrightarrow> ends (advancing L) (end_reply E a k)"
  "length (rbuf (k_conn k)) < L \<Longrightarrow> ends (advancing L) (end_packet E pkt k)"
  by (rule ends_reply ends_packet; auto simp: advancing_def dest!: viewD(1))+

lemma adv_consume:
  "length (rbuf (k_conn k)) = L \<Longrightarrow> 0 < L \<Longrightarrow> 0 < n \<Longrightarrow> ends (advancing L) (reply_consume E a n k)"
  by (rule ends_consume) (auto simp: advancing_def dest!: viewD(1))

lemmas adv = adv_await adv_bad adv_end adv_consume

lemma allocate_frame:
  "allocate_service_handle W x k = (h, k') \<Longrightarrow>
     rbuf (k_conn k') = rbuf (k_conn k) \<and> k_set k' = k_set k \<and> k_others k' = k_others k \<and> bad_conn_close (k_conn k') = bad_conn_close (k_conn k)"
  by (auto simp: allocate_service_handle_def conn_ask_def Let_def split: if_splits)

lemma allocate_all_frame: "allocate_all W xs k = (hs, k') \<Longrightarrow> rbuf (k_conn k') = rbuf (k_conn k) \<and> k_set k' = k_set k"
proof (induction xs arbitrary: k hs k')
  case (Cons x xs)
  then show ?case by (auto split: prod.splits option.splits dest!: allocate_frame)
qed simp

lemma check_dependents_frame: "check_dependents E x k = (v, k') \<Longrightarrow> rbuf (k_conn k') = rbuf (k_conn k) \<and> k_set k' = k_set k"
  by (auto simp: check_dependents_def Let_def split: prod.splits option.splits if_splits dest!: allocate_all_frame put_vec_view viewD(1))

lemma start_stop_command_frame:
  assumes "start_stop_command cmd E flags x k = Some (v, k')"
  shows "rbuf (k_conn k') = rbuf (k_conn k)"
proof (cases cmd)
  case STOPSERVICE
  obtain o1 k1 where "(if bit flags 1 then check_dependents E x k else (None, k)) = (o1, k1)" by fastforce
  moreover have "rbuf (k_conn k1) = rbuf (k_conn k)" using calculation check_dependents_frame by (auto split: if_splits)
  ultimately show ?thesis using assms STOPSERVICE
    by (auto simp: start_stop_command_def stop_command_of_def Let_def frames bind_eq_Some_conv split: if_splits option.splits)
qed (use assms in \<open>auto simp: start_stop_command_def start_command_def wake_command_def release_command_def Let_def frames bind_eq_Some_conv
      split: if_splits prod.splits\<close>)

lemma adv_bind: "(\<And>x. m = Some x \<Longrightarrow> ends (advancing L) (f x)) \<Longrightarrow> ends (advancing L) (Option.bind m f)"
  by (rule ends_bind)

lemma hand_out_handle_adv: "length (rbuf (k_conn k)) < L \<Longrightarrow> ends (advancing L) (hand_out_handle E x k)"
  by (auto simp: hand_out_handle_def split: prod.splits option.splits dest!: allocate_frame intro!: adv)

lemma find_load_adv:
  assumes "length (rbuf (k_conn k)) = L" "0 < L"
  shows "ends (advancing L) (process_find_load load E k)"
  unfolding process_find_load_def Let_def using assms
  by (auto simp: frames intro!: adv hand_out_handle_adv split: option.splits sum.splits prod.splits load_exc.splits)

lemma close_handle_adv:
  assumes "length (rbuf (k_conn k)) = L" "0 < L"
  shows "ends (advancing L) (process_close_handle E k)"
  unfolding process_close_handle_def Let_def using assms by (auto intro!: adv split: option.splits)

lemma process_start_stop_ends:
  assumes "length (rbuf (k_conn k)) < 6 \<Longrightarrow> ends Q (await_length 6 k)" "ends Q (bad_request E k)"
    and "\<And>k1 ok. view k1 = view k \<Longrightarrow> k_set k1 = k_set k \<Longrightarrow> \<not> ok \<Longrightarrow> Q (Returns False) k1"
    and "\<And>k1 x. view k1 = view k \<Longrightarrow> k_set k1 = k_set k \<Longrightarrow> find_service_for_key (k_conn k) (field 2 4 (k_conn k)) = Some x \<Longrightarrow>
      ends Q (finish_command E (start_stop_command cmd E (rbyte 1 (k_conn k)) x k1))"
  shows "ends Q (process_start_stop cmd E k)"
proof -
  obtain ok k1 where p: "(if bit (rbyte 1 (k_conn k) :: nat) 7 then put_chars E [rply PREACK] k else (True, k)) = (ok, k1)" by fastforce
  then have k1: "view k1 = view k" "k_set k1 = k_set k" using put_chars_view by (auto split: if_splits)
  show ?thesis
  proof (cases "find_service_for_key (k_conn k) (field 2 4 (k_conn k))")
    case None
    then show ?thesis using assms(1,2) unfolding process_start_stop_def by simp
  next
    case (Some x)
    then show ?thesis using assms(1) assms(3) [OF k1, of ok] assms(4) [OF k1 Some] unfolding process_start_stop_def Let_def p by simp
  qed
qed

lemma finish_command_adv:
  assumes "length (rbuf (k_conn k)) = L" "0 < L"
  shows "ends (advancing L) (finish_command E (start_stop_command cmd E flags x k))"
  using assms start_stop_command_frame [of cmd E flags x k]
  by (auto simp: finish_command_def advancing_def intro!: adv split: option.splits verdict.splits)

lemma start_stop_adv:
  assumes "length (rbuf (k_conn k)) = L" "0 < L"
  shows "ends (advancing L) (process_start_stop cmd E k)"
  using assms by (intro process_start_stop_ends) (auto intro!: adv finish_command_adv dest: viewD(1))

lemma with_handle_adv:
  assumes "length (rbuf (k_conn k)) = L" "0 < L" "\<And>h x. ends (advancing L) (f h x k)"
  shows "ends (advancing L) (with_handle i n E f k)"
  unfolding with_handle_def Let_def using assms by (auto intro!: adv split: option.splits)

lemma drop_handle_rbuf [simp]: "rbuf (k_conn (drop_handle h x k)) = rbuf (k_conn k)"
  by (simp add: drop_handle_def)

lemma unpin_adv: "length (rbuf (k_conn k)) = L \<Longrightarrow> 0 < L \<Longrightarrow> ends (advancing L) (process_unpin_service E k)"
  unfolding process_unpin_service_def by (rule with_handle_adv) (auto simp: frames intro!: adv adv_bind)

lemma unload_adv: "length (rbuf (k_conn k)) = L \<Longrightarrow> 0 < L \<Longrightarrow> ends (advancing L) (process_unload_service E k)"
  unfolding process_unload_service_def by (rule with_handle_adv) (auto simp: frames intro!: adv adv_bind)

lemma reload_adv: "length (rbuf (k_conn k)) = L \<Longrightarrow> 0 < L \<Longrightarrow> ends (advancing L) (process_reload_service E k)"
  unfolding process_reload_service_def
  by (rule with_handle_adv) (auto simp: frames Let_def intro!: adv adv_bind split: prod.splits sum.splits load_exc.splits)

lemma shutdown_adv: "length (rbuf (k_conn k)) = L \<Longrightarrow> 0 < L \<Longrightarrow> ends (advancing L) (process_shutdown E k)"
  unfolding process_shutdown_def by (auto simp: frames intro!: adv adv_bind split: option.splits shutdown_type_t.splits)

lemma put_all_view: "put_all E pkts k = (ok, k') \<Longrightarrow> view k' = view k \<and> k_set k' = k_set k"
proof (induction pkts arbitrary: k)
  case (Cons pkt pkts)
  obtain ok1 k1 where p: "put_vec E pkt k = (ok1, k1)" by fastforce
  then show ?case using Cons put_vec_view [OF p] by (auto split: if_splits)
qed simp

lemma list_services_adv:
  assumes "length (rbuf (k_conn k)) = L" "0 < L"
  shows "ends (advancing L) (list_services_with fill E k)"
  unfolding list_services_with_def Let_def using assms
  by (auto split: prod.splits dest!: put_all_view viewD(1) intro!: adv)

lemma query_handle_adv:
  assumes "length (rbuf (k_conn k)) = L" "0 < L" "0 < n" "\<And>c x k'. length (rbuf (k_conn k')) < L \<Longrightarrow> ends (advancing L) (f c x k')"
  shows "ends (advancing L) (query_handle i n E f k)"
  unfolding query_handle_def Let_def using assms by (auto intro!: adv split: option.splits)

lemma queries_adv:
  assumes "length (rbuf (k_conn k)) = L" "0 < L"
  shows "ends (advancing L) (service_status_with fill E k)" "ends (advancing L) (process_query_name E k)"
    "ends (advancing L) (process_query_dsc_dir E k)" "ends (advancing L) (process_catlog E k)"
    "ends (advancing L) (process_set_trigger E k)" "ends (advancing L) (process_signal E k)"
  unfolding service_status_with_def process_query_name_def process_query_dsc_dir_def process_catlog_def process_set_trigger_def process_signal_def Let_def
  by (rule query_handle_adv [OF assms]; auto simp: frames intro!: adv adv_bind split: kill_reply.splits)+

lemma setenv_adv:
  assumes "length (rbuf (k_conn k)) = L" "0 < L"
  shows "ends (advancing L) (process_setenv E k)"
  unfolding process_setenv_def Let_def using assms by (auto simp: frames upd_conn_def intro!: adv)

lemma getallenv_adv:
  assumes "length (rbuf (k_conn k)) = L" "0 < L"
  shows "ends (advancing L) (process_getallenv E k)" "ends (advancing L) (process_listenenv E k)"
  unfolding process_getallenv_def process_listenenv_def Let_def using assms by (auto simp: upd_conn_def intro!: adv)

lemma load_mech_adv:
  assumes "length (rbuf (k_conn k)) = L" "0 < L"
  shows "ends (advancing L) (query_load_mech E k)" "ends (advancing L) (query_version E k)"
  unfolding query_load_mech_def query_version_def Let_def using assms
  by (auto simp: advancing_def upd_conn_def intro!: adv split: option.splits prod.splits dest!: put_chars_view viewD(1))

lemma with_two_handles_adv:
  assumes "length (rbuf (k_conn k)) = L" "\<And>from to. ends (advancing L) (f from to k)"
  shows "ends (advancing L) (with_two_handles E f k)"
  unfolding with_two_handles_def using assms by (auto intro!: adv split: option.splits)

lemma check_dep_type_adv:
  assumes "length (rbuf (k_conn k)) = L" "\<And>ty k'. length (rbuf (k_conn k')) = L \<Longrightarrow> ends (advancing L) (f ty k')"
  shows "ends (advancing L) (check_dep_type E f k)"
proof -
  obtain ok k1 where p: "put_chars E [rply BADREQ] k = (ok, k1)" by fastforce
  then have "rbuf (k_conn k1) = rbuf (k_conn k)" by (auto dest!: put_chars_view viewD(1))
  then show ?thesis unfolding check_dep_type_def Let_def using p assms by (auto simp: upd_conn_def intro!: adv_bind)
qed

lemma create_dep_frame: "create_dep E ty from to k = Some (d, k') \<Longrightarrow> view k' = view k"
  by (auto simp: create_dep_def Let_def bind_eq_Some_conv split: option.splits prod.splits if_splits)

lemma enable_dep_frame: "enable_dep E b d from k = Some k' \<Longrightarrow> view k' = view k"
  by (auto simp: enable_dep_def bind_eq_Some_conv split: if_splits)

lemma add_dep_adv:
  assumes "length (rbuf (k_conn k)) = L" "0 < L"
  shows "ends (advancing L) (add_service_dep b E k)"
proof -
  have "ends (advancing L)
      (Option.bind (create_dep E ty x y k) (\<lambda>(d, k). case d of None \<Rightarrow> Some (Out_of_memory, k)
        | Some d \<Rightarrow> Option.bind (enable_dep E b d x k) (reply_consume E ACK 10)))"
    if "length (rbuf (k_conn k)) = L" for x y ty k
    using that assms(2)
    by (auto intro!: adv_bind adv split: option.splits dest!: create_dep_frame enable_dep_frame viewD(1))
  then show ?thesis unfolding add_service_dep_def Let_def
    by (intro with_two_handles_adv check_dep_type_adv assms) (use assms(2) in \<open>auto intro!: adv split: option.splits bool.splits\<close>)
qed

lemma rm_dep_adv:
  assumes "length (rbuf (k_conn k)) = L" "0 < L"
  shows "ends (advancing L) (rm_service_dep E k)"
  unfolding rm_service_dep_def
  by (intro with_two_handles_adv check_dep_type_adv assms) (use assms(2) in \<open>auto simp: frames intro!: adv_bind adv\<close>)

lemmas handlers_adv = adv_bad load_mech_adv getallenv_adv setenv_adv queries_adv list_services_adv shutdown_adv reload_adv unload_adv unpin_adv
  start_stop_adv close_handle_adv find_load_adv add_dep_adv rm_dep_adv

lemma process_packet_advances:
  assumes "rbuf (k_conn k) \<noteq> []"
  shows "ends (advancing (length (rbuf (k_conn k)))) (process_packet E k)"
  using assms unfolding process_packet_def Let_def list_services_def list_services5_def process_service_status_def process_service_status5_def
  by (simp add: handlers_adv)

text \<open>One round of the loop that is followed by another look at the buffer.\<close>

inductive goes_on :: "ctl_env \<Rightarrow> ctl \<Rightarrow> ctl \<Rightarrow> bool" for E where
  goes_on: "chklen (k_conn k) \<le> length (rbuf (k_conn k)) \<Longrightarrow> process_packet E k = Some (Returns True, k') \<Longrightarrow> \<not> bad_conn_close (k_conn k') \<Longrightarrow>
     goes_on E k (upd_conn (\<lambda>c. c\<lparr>chklen := max (chklen c) 1\<rparr>) k')"

inductive_cases goes_onE: "goes_on E k k'"

lemma goes_on_advances:
  assumes "goes_on E k k'" "rbuf (k_conn k) \<noteq> []"
  shows "0 < chklen (k_conn k')" "length (rbuf (k_conn k')) < length (rbuf (k_conn k)) \<or> length (rbuf (k_conn k')) < chklen (k_conn k')"
  using assms process_packet_advances [OF assms(2), of E] by (auto elim!: goes_onE simp: upd_conn_def advancing_def)

lemma packet_loop_returns:
  assumes "\<And>k'. (goes_on E)\<^sup>*\<^sup>* k k' \<Longrightarrow> chklen (k_conn k') \<le> length (rbuf (k_conn k')) \<Longrightarrow> process_packet E k' \<noteq> None"
    and "length (rbuf (k_conn k)) + 1 < n" "rbuf (k_conn k) \<noteq> [] \<or> 0 < chklen (k_conn k)"
  shows "packet_loop n E k \<noteq> None"
  using assms
proof (induction n arbitrary: k)
  case (Suc n)
  show ?case
  proof (cases "length (rbuf (k_conn k)) < chklen (k_conn k)")
    case False
    then obtain r k1 where p: "process_packet E k = Some (r, k1)" using Suc.prems(1) [of k] by (cases "process_packet E k") auto
    show ?thesis
    proof (cases "r = Returns True \<and> \<not> bad_conn_close (k_conn k1)")
      case True
      let ?k2 = "upd_conn (\<lambda>c. c\<lparr>chklen := max (chklen c) 1\<rparr>) k1"
      have step: "goes_on E k ?k2" using p True False goes_on by auto
      have ne: "rbuf (k_conn k) \<noteq> []" using False Suc.prems(3) by auto
      note a = goes_on_advances [OF step ne]
      have "packet_loop n E ?k2 \<noteq> None"
      proof (cases "length (rbuf (k_conn ?k2)) < chklen (k_conn ?k2)")
        case True
        then show ?thesis using Suc.prems(2) ne by (cases n) auto
      next
        case no: False
        show ?thesis
        proof (rule Suc.IH)
          show "process_packet E k' \<noteq> None" if "(goes_on E)\<^sup>*\<^sup>* ?k2 k'" "chklen (k_conn k') \<le> length (rbuf (k_conn k'))" for k'
            using Suc.prems(1) converse_rtranclp_into_rtranclp [OF step that(1)] that(2) by blast
          show "length (rbuf (k_conn ?k2)) + 1 < n" using a(2) no Suc.prems(2) by linarith
          show "rbuf (k_conn ?k2) \<noteq> [] \<or> 0 < chklen (k_conn ?k2)" using a(1) by blast
        qed
      qed
      then show ?thesis using p True False by simp
    next
      case stop: False
      then show ?thesis using p False by (cases r) auto
    qed
  qed simp
qed simp

text \<open>
  C19. The loop that works off requests ends: with nothing but the guarantee that the single commands
  return, one more round than the buffer has bytes is enough, and one to notice that the buffer holds no
  complete packet. No request, however malformed, makes the daemon spin.
\<close>

theorem request_loop_ends:
  assumes "\<And>k'. (goes_on E)\<^sup>*\<^sup>* k k' \<Longrightarrow> chklen (k_conn k') \<le> length (rbuf (k_conn k')) \<Longrightarrow> process_packet E k' \<noteq> None"
    and "length (rbuf (k_conn k)) + 1 < n" "rbuf (k_conn k) \<noteq> [] \<or> 0 < chklen (k_conn k)"
  shows "\<exists>r. packet_loop n E k = Some r"
  using packet_loop_returns [OF assms] by auto

definition sample_world :: ctl_env where
  "sample_world =
     \<lparr>ce_conn = \<lparr>co_write = (\<lambda>_. W_again), co_alloc = (\<lambda>_. True)\<rparr>, ce_os = sample_os, ce_fuel = 10, ce_environ = [],
      ce_load = (\<lambda>name st. (Inl (Service_not_found name), st)), ce_reload = (\<lambda>x st. (Inr x, st)), ce_kill = (\<lambda>_. K_ok),
      ce_exec_err = (\<lambda>_. (0, 0)), ce_dsc_dir = (\<lambda>_. ''/etc/dinit.d''), ce_load_dirs = Some [''/etc/dinit.d''], ce_cwd = (\<lambda>_. Some ''/''),
      ce_snap = (\<lambda>_. sample_set), ce_addr = (\<lambda>k. 100 + k)\<rparr>"

definition sample_ctl :: "sset \<Rightarrow> string \<Rightarrow> (nat \<times> sid) list \<Rightarrow> ctl" where
  "sample_ctl st s m =
     \<lparr>k_set = st, k_conn = new_conn\<lparr>rbuf := s, key_service_map := m, service_key_map := map prod.swap m\<rparr>, k_env = new_environment,
      k_listening = (\<lambda>x. x \<in> snd ` set m), k_others = (\<lambda>_. 0), k_env_listening = False\<rparr>"

lemma version_queries_only:
  assumes "goes_on E k k'" "set (rbuf (k_conn k)) \<subseteq> {CHR 0x00}" "rbuf (k_conn k) \<noteq> [] \<or> 0 < chklen (k_conn k)"
  shows "set (rbuf (k_conn k')) \<subseteq> {CHR 0x00} \<and> 0 < chklen (k_conn k')"
  using assms(1)
proof cases
  case (goes_on k1)
  then have "rbuf (k_conn k) ! 0 = CHR 0x00" using assms(2,3) by (cases "rbuf (k_conn k)") auto
  then have "query_version E k = Some (Returns True, k1)" using goes_on by (simp add: process_packet_def)
  then have "rbuf (k_conn k1) = drop 1 (rbuf (k_conn k))"
    by (auto simp: query_version_def upd_conn_def dest!: put_chars_view viewD(1) split: prod.splits if_splits)
  then show ?thesis using goes_on(1) assms(2) by (auto simp: upd_conn_def dest!: in_set_dropD)
qed

theorem request_loop_ends_witness:
  "\<exists>r. packet_loop 5 sample_world (sample_ctl sample_set (replicate 3 (CHR 0x00)) []) = Some r"
proof (rule request_loop_ends)
  let ?k = "sample_ctl sample_set (replicate 3 (CHR 0x00)) []"
  fix k'
  assume r: "(goes_on sample_world)\<^sup>*\<^sup>* ?k k'" and l: "chklen (k_conn k') \<le> length (rbuf (k_conn k'))"
  from r have "set (rbuf (k_conn k')) \<subseteq> {CHR 0x00} \<and> (rbuf (k_conn k') \<noteq> [] \<or> 0 < chklen (k_conn k'))"
    by (induction rule: rtranclp_induct) (simp add: sample_ctl_def, metis version_queries_only)
  then have "rbuf (k_conn k') ! 0 = CHR 0x00" using l by (cases "rbuf (k_conn k')") auto
  then show "process_packet sample_world k' \<noteq> None" by (simp add: process_packet_def query_version_def split: prod.splits)
qed (simp_all add: sample_ctl_def)

section \<open>Handles\<close>

definition hview :: "ctl \<Rightarrow> (sid \<times> nat) list \<times> (nat \<times> sid) list \<times> (sid \<Rightarrow> bool)" where
  "hview k = (service_key_map (k_conn k), key_service_map (k_conn k), k_listening k)"

lemma view_hview: "view k' = view k \<Longrightarrow> hview k' = hview k"
  by (simp add: view_def conn_view_def hview_def)

lemma hview_simps [simp]:
  "hview (consume_packet n k) = hview k" "hview (upd_conn (\<lambda>c. c\<lparr>chklen := m\<rparr>) k) = hview k" "hview (upd_conn (\<lambda>c. c\<lparr>bad_conn_close := b\<rparr>) k) = hview k"
  "hview (upd_conn (\<lambda>c. c\<lparr>rbuf := drop n (rbuf c)\<rparr>) k) = hview k" "hview (set_services E st k) = hview k" "hview (notify_env E r k) = hview k"
  "hview (k\<lparr>k_set := st\<rparr>) = hview k" "hview (k\<lparr>k_env_listening := b\<rparr>) = hview k"
  using view_hview [OF set_services_view(1)] view_hview [OF notify_env_view(1)] by (simp_all add: hview_def upd_conn_def)

text \<open>
  A property of the handles of a connection that survives the making and the closing of handles. Every
  request but those to unload and to reload a service then keeps it.
\<close>

locale handle_invariant =
  fixes P :: "ctl \<Rightarrow> bool"
  assumes same_handles: "\<And>k k'. hview k' = hview k \<Longrightarrow> P k \<Longrightarrow> P k'"
    and handle_made: "\<And>W x k h k'. P k \<Longrightarrow> allocate_service_handle W x k = (h, k') \<Longrightarrow> P k'"
    and handle_closed: "\<And>k h x. P k \<Longrightarrow> find_service_for_key (k_conn k) h = Some x \<Longrightarrow>
      P (k\<lparr>k_conn := (k_conn k)\<lparr>key_service_map := erase_handle h (key_service_map (k_conn k)),
                                service_key_map := remove1 (x, h) (service_key_map (k_conn k))\<rparr>,
           k_listening := (if map snd (filter (\<lambda>p. fst p = x) (service_key_map (k_conn k))) = [h] then (k_listening k)(x := False) else k_listening k)\<rparr>)"
begin

abbreviation kept :: "(reply \<times> ctl) option \<Rightarrow> bool" where
  "kept \<equiv> ends (\<lambda>_. P)"

lemma P_frame:
  "P k \<Longrightarrow> P (consume_packet n k)" "P k \<Longrightarrow> P (upd_conn (\<lambda>c. c\<lparr>chklen := m\<rparr>) k)" "P k \<Longrightarrow> P (upd_conn (\<lambda>c. c\<lparr>bad_conn_close := b\<rparr>) k)"
  "P k \<Longrightarrow> P (upd_conn (\<lambda>c. c\<lparr>rbuf := drop n (rbuf c)\<rparr>) k)" "P k \<Longrightarrow> P (set_services E st k)" "P k \<Longrightarrow> P (notify_env E r k)"
  "P k \<Longrightarrow> P (k\<lparr>k_set := st\<rparr>)" "P k \<Longrightarrow> P (k\<lparr>k_env_listening := b\<rparr>)"
  by (rule same_handles [rotated], assumption, simp)+

lemma P_view: "view k' = view k \<Longrightarrow> P k \<Longrightarrow> P k'"
  by (rule same_handles) (rule view_hview)

lemma kept_steps:
  "P k \<Longrightarrow> kept (await_length n k)" "P k \<Longrightarrow> kept (bad_request E k)" "P k \<Longrightarrow> kept (end_reply E a k)"
  "P k \<Longrightarrow> kept (end_packet E pkt k)" "P k \<Longrightarrow> kept (reply_consume E a n k)"
  by (rule ends_await ends_bad ends_reply ends_packet ends_consume; auto intro: P_frame P_view)+

lemma kept_bind: "(\<And>x. m = Some x \<Longrightarrow> kept (f x)) \<Longrightarrow> kept (Option.bind m f)"
  by (rule ends_bind)

lemmas keep = kept_steps kept_bind P_frame

lemma P_put: "P k \<Longrightarrow> put_chars E pkt k = (ok, k') \<Longrightarrow> P k'" "P k \<Longrightarrow> put_vec E pkt k = (ok, k') \<Longrightarrow> P k'" "P k \<Longrightarrow> put_all E pkts k = (ok, k') \<Longrightarrow> P k'"
  using P_view put_chars_view put_vec_view put_all_view by blast+

lemma P_allocate_all: "P k \<Longrightarrow> allocate_all W xs k = (hs, k') \<Longrightarrow> P k'"
  by (induction xs arbitrary: k hs k') (auto split: prod.splits option.splits dest: handle_made)

lemma P_check_dependents: "P k \<Longrightarrow> check_dependents E x k = (v, k') \<Longrightarrow> P k'"
  by (auto simp: check_dependents_def Let_def split: prod.splits option.splits if_splits dest: P_allocate_all P_put)

lemma P_start_stop_command:
  assumes "P k" "start_stop_command cmd E flags x k = Some (v, k')"
  shows "P k'"
proof (cases cmd)
  case STOPSERVICE
  obtain o1 k1 where c: "(if bit flags 1 then check_dependents E x k else (None, k)) = (o1, k1)" by fastforce
  then have "P k1" using assms(1) P_check_dependents by (auto split: if_splits)
  then show ?thesis using assms c STOPSERVICE
    by (auto simp: start_stop_command_def stop_command_of_def Let_def bind_eq_Some_conv intro: P_frame split: if_splits option.splits)
qed (use assms in \<open>auto simp: start_stop_command_def start_command_def wake_command_def release_command_def Let_def bind_eq_Some_conv
      intro: P_frame split: if_splits prod.splits\<close>)

lemma kept_finish_command: "P k \<Longrightarrow> kept (finish_command E (start_stop_command cmd E flags x k))"
  by (auto simp: finish_command_def intro!: keep dest: P_start_stop_command split: option.splits verdict.splits)

lemma kept_start_stop: "P k \<Longrightarrow> kept (process_start_stop cmd E k)"
  by (intro process_start_stop_ends) (auto intro: kept_steps kept_finish_command P_view)

lemma kept_hand_out: "P k \<Longrightarrow> kept (hand_out_handle E x k)"
  by (auto simp: hand_out_handle_def split: prod.splits option.splits dest: handle_made intro: kept_steps)

lemma kept_find_load: "P k \<Longrightarrow> kept (process_find_load load E k)"
  unfolding process_find_load_def Let_def
  by (auto intro!: keep kept_hand_out split: option.splits sum.splits prod.splits load_exc.splits)

lemma kept_close:
  assumes "P k"
  shows "kept (process_close_handle E k)"
proof (cases "find_service_for_key (k_conn (consume_packet 5 k)) (field 1 4 (k_conn k))")
  case None
  then show ?thesis using assms by (simp add: process_close_handle_def Let_def keep)
next
  case (Some x)
  show ?thesis
    using kept_steps(3) [OF handle_closed [OF P_frame(1) [OF assms] Some], of E ACK] kept_steps(1) [OF assms, of 5] Some
    unfolding process_close_handle_def Let_def by auto
qed

lemma kept_with_handle: "P k \<Longrightarrow> (\<And>h x. find_service_for_key (k_conn k) h = Some x \<Longrightarrow> kept (f h x k)) \<Longrightarrow> kept (with_handle i n E f k)"
  unfolding with_handle_def Let_def by (auto intro!: keep split: option.splits)

lemma kept_query_handle: "P k \<Longrightarrow> (\<And>c x k'. P k' \<Longrightarrow> kept (f c x k')) \<Longrightarrow> kept (query_handle i n E f k)"
  unfolding query_handle_def Let_def by (simp add: kept_steps P_frame split: option.splits)

lemma kept_queries:
  assumes "P k"
  shows "kept (service_status_with fill E k)" "kept (process_query_name E k)" "kept (process_query_dsc_dir E k)" "kept (process_catlog E k)"
    "kept (process_set_trigger E k)" "kept (process_signal E k)"
  unfolding service_status_with_def process_query_name_def process_query_dsc_dir_def process_catlog_def process_set_trigger_def process_signal_def Let_def
  by (rule kept_query_handle [OF assms]; auto intro!: keep split: kill_reply.splits)+

lemma kept_others:
  assumes "P k"
  shows "kept (process_unpin_service E k)" "kept (process_shutdown E k)" "kept (list_services_with fill E k)"
    "kept (process_setenv E k)" "kept (process_getallenv E k)" "kept (process_listenenv E k)" "kept (query_load_mech E k)" "kept (query_version E k)"
proof -
  show "kept (process_unpin_service E k)" unfolding process_unpin_service_def by (rule kept_with_handle [OF assms]) (auto intro!: keep assms)
  show "kept (process_shutdown E k)" unfolding process_shutdown_def by (auto intro!: keep assms split: option.splits shutdown_type_t.splits)
  show "kept (list_services_with fill E k)" unfolding list_services_with_def Let_def
    using P_put(3) [OF P_frame(1) [OF assms]] by (auto intro!: keep split: prod.splits)
  show "kept (process_setenv E k)" unfolding process_setenv_def Let_def by (auto intro!: keep assms)
  show "kept (process_getallenv E k)" "kept (process_listenenv E k)" unfolding process_getallenv_def process_listenenv_def Let_def by (auto intro!: keep assms)
  show "kept (query_load_mech E k)" unfolding query_load_mech_def Let_def by (auto intro!: keep assms split: option.splits)
  show "kept (query_version E k)" unfolding query_version_def using P_put(1) [OF assms] by (auto intro!: keep split: prod.splits)
qed

lemma kept_two_handles: "P k \<Longrightarrow> (\<And>x y. kept (f x y k)) \<Longrightarrow> kept (with_two_handles E f k)"
  unfolding with_two_handles_def by (auto intro!: keep split: option.splits)

lemma kept_dep_type:
  assumes "P k" "\<And>ty k'. P k' \<Longrightarrow> kept (f ty k')"
  shows "kept (check_dep_type E f k)"
proof -
  obtain ok k1 where p: "put_chars E [rply BADREQ] k = (ok, k1)" by fastforce
  then have "P k1" using assms(1) P_put(1) by blast
  then show ?thesis unfolding check_dep_type_def Let_def using p assms by (auto intro!: keep)
qed

lemma kept_rm_dep: "P k \<Longrightarrow> kept (rm_service_dep E k)"
  unfolding rm_service_dep_def by (intro kept_two_handles kept_dep_type) (auto intro!: keep)

lemma kept_add_dep: "P k \<Longrightarrow> kept (add_service_dep b E k)"
  unfolding add_service_dep_def Let_def
  by (intro kept_two_handles kept_dep_type)
    (auto intro!: kept_steps kept_bind split: option.splits bool.splits dest!: create_dep_frame enable_dep_frame P_view)

lemmas kept_all = kept_steps(2) kept_find_load kept_close kept_start_stop kept_queries kept_others kept_rm_dep kept_add_dep

lemma kept_process_packet:
  assumes "P k" "rbyte 0 (k_conn k) \<noteq> (9 :: nat)" "rbyte 0 (k_conn k) \<noteq> (16 :: nat)"
  shows "kept (process_packet E k)"
  using assms unfolding process_packet_def Let_def list_services_def list_services5_def process_service_status_def process_service_status5_def
  by (simp add: kept_all)

end

text \<open>
  The two tables are each other's inverse, no handle stands for two services, and the connection listens
  to exactly the services it has handles of.
\<close>

definition handles_ok :: "ctl \<Rightarrow> bool" where
  "handles_ok k \<longleftrightarrow>
     sorted_wrt (<) (map fst (key_service_map (k_conn k))) \<and> distinct (service_key_map (k_conn k)) \<and>
     set (service_key_map (k_conn k)) = prod.swap ` set (key_service_map (k_conn k)) \<and>
     (\<forall>x. k_listening k x = (x \<in> fst ` set (service_key_map (k_conn k))))"

lemma free_handle_fresh:
  "sorted_wrt (<) (map fst m) \<Longrightarrow> (\<And>p. p \<in> set m \<Longrightarrow> a \<le> fst p) \<Longrightarrow> free_handle a m \<notin> fst ` set m \<and> a \<le> free_handle a m"
proof (induction m arbitrary: a)
  case (Cons p m)
  obtain h y where p: "p = (h, y)" by fastforce
  show ?case
  proof (cases "h = a")
    case True
    have "\<And>q. q \<in> set m \<Longrightarrow> Suc a \<le> fst q" using Cons.prems p True by auto
    then have "free_handle (Suc a) m \<notin> fst ` set m \<and> Suc a \<le> free_handle (Suc a) m" using Cons by simp
    then show ?thesis using p True by auto
  next
    case False
    then have "a < h" using Cons.prems(2) [of p] p by simp
    then show ?thesis using Cons.prems(1) p by auto
  qed
qed simp

lemma set_enter_handle: "h \<notin> fst ` set m \<Longrightarrow> set (enter_handle h x m) = insert (h, x) (set m)"
  by (auto simp: enter_handle_def) (metis fst_conv image_eqI linorder_neq_iff)+

lemma sorted_enter_handle: "sorted_wrt (<) (map fst m) \<Longrightarrow> sorted_wrt (<) (map fst (enter_handle h x m))"
  by (force simp: enter_handle_def sorted_wrt_append sorted_wrt_map intro!: sorted_wrt_filter)

lemma erase_handle_fresh: "h \<notin> fst ` set m \<Longrightarrow> erase_handle h m = m"
  by (force simp: erase_handle_def filter_id_conv)

lemma sorted_erase_handle: "sorted_wrt (<) (map fst m) \<Longrightarrow> sorted_wrt (<) (map fst (erase_handle h m))"
  by (simp add: erase_handle_def sorted_wrt_map sorted_wrt_filter)

lemma sorted_keys_unique: "sorted_wrt (<) (map fst (m :: (nat \<times> 'a) list)) \<Longrightarrow> (h, x) \<in> set m \<Longrightarrow> (h, y) \<in> set m \<Longrightarrow> x = y"
  using eq_key_imp_eq_value by (auto simp: strict_sorted_iff)

lemma handle_made_ok:
  assumes "handles_ok k" "allocate_service_handle W x k = (h, k')"
  shows "handles_ok k'"
proof -
  let ?m = "key_service_map (k_conn k)" and ?s = "service_key_map (k_conn k)"
  have fresh: "free_handle 0 ?m \<notin> fst ` set ?m" using assms(1) free_handle_fresh [of ?m 0] by (simp add: handles_ok_def)
  then have f2: "(x, free_handle 0 ?m) \<notin> set ?s" using assms(1) by (force simp: handles_ok_def)
  have "x \<notin> fst ` set ?s \<Longrightarrow> \<not> k_listening k x" using assms(1) by (simp add: handles_ok_def)
  then have l: "x \<notin> fst ` set ?s \<Longrightarrow> (k_listening k)(x := False) = k_listening k" by (simp add: fun_eq_iff)
  have "hview k' = hview k \<or> hview k' = (?s @ [(x, free_handle 0 ?m)], enter_handle (free_handle 0 ?m) x ?m, (k_listening k)(x := True))"
    using assms(2) erase_handle_fresh [OF fresh] l
    by (auto simp: allocate_service_handle_def hview_def conn_ask_def Let_def split: if_splits)
  then show ?thesis
  proof
    assume "hview k' = hview k"
    then show ?thesis using assms(1) by (simp add: handles_ok_def hview_def)
  next
    assume h: "hview k' = (?s @ [(x, free_handle 0 ?m)], enter_handle (free_handle 0 ?m) x ?m, (k_listening k)(x := True))"
    then show ?thesis using assms(1) f2 by (simp add: handles_ok_def hview_def sorted_enter_handle set_enter_handle [OF fresh])
  qed
qed

lemma handle_closed_ok:
  assumes "handles_ok k" "find_service_for_key (k_conn k) h = Some x"
  shows "handles_ok (k\<lparr>k_conn := (k_conn k)\<lparr>key_service_map := erase_handle h (key_service_map (k_conn k)),
                                service_key_map := remove1 (x, h) (service_key_map (k_conn k))\<rparr>,
           k_listening := (if map snd (filter (\<lambda>p. fst p = x) (service_key_map (k_conn k))) = [h] then (k_listening k)(x := False) else k_listening k)\<rparr>)"
proof -
  let ?m = "key_service_map (k_conn k)" and ?s = "service_key_map (k_conn k)"
  let ?hs = "map snd (filter (\<lambda>p. fst p = x) ?s)"
  have ok: "sorted_wrt (<) (map fst ?m)" "distinct ?s" "set ?s = prod.swap ` set ?m" "\<And>y. k_listening k y = (y \<in> fst ` set ?s)"
    using assms(1) by (simp_all add: handles_ok_def)
  have hx: "(h, x) \<in> set ?m" using assms(2) by (simp add: find_service_for_key_def map_of_SomeD)
  have e: "set (erase_handle h ?m) = set ?m - {(h, x)}"
    unfolding erase_handle_def using hx by (auto dest: sorted_keys_unique [OF ok(1) hx])
  have swap: "prod.swap ` (set ?m - {(h, x)}) = prod.swap ` set ?m - {(x, h)}" by auto
  have dh: "distinct ?hs" using ok(2) by (auto simp: distinct_map inj_on_def)
  have xh: "(x, h) \<in> set ?s" using hx unfolding ok(3) by (metis image_eqI prod.swap_def fst_conv snd_conv swap_simp)
  then have hh: "h \<in> set ?hs" by force
  have one: "?hs = [h] \<longleftrightarrow> set ?hs = {h}" using dh by (cases ?hs; cases "tl ?hs") auto
  have l: "y \<in> fst ` (set ?s - {(x, h)}) \<longleftrightarrow> (if ?hs = [h] then y \<noteq> x \<and> k_listening k y else k_listening k y)" for y
  proof (cases "y = x")
    case True
    have "y \<in> fst ` (set ?s - {(x, h)}) \<longleftrightarrow> set ?hs \<noteq> {h}" using xh True by (auto simp: image_iff)
    moreover have "k_listening k y" using xh True unfolding ok(4) by force
    ultimately show ?thesis using one True by simp
  next
    case False
    then have "y \<in> fst ` (set ?s - {(x, h)}) \<longleftrightarrow> y \<in> fst ` set ?s" by force
    then show ?thesis using False ok(4) by simp
  qed
  show ?thesis unfolding handles_ok_def using ok(2) l by (simp add: sorted_erase_handle ok e swap set_remove1_eq)
qed

interpretation handles: handle_invariant handles_ok
proof
  show "handles_ok k'" if "hview k' = hview k" "handles_ok k" for k k' using that by (simp add: handles_ok_def hview_def)
qed (rule handle_made_ok handle_closed_ok; assumption)+

lemma drop_handle_ok:
  assumes "handles_ok k" "find_service_for_key (k_conn k) h = Some x" "distinct (map snd (key_service_map (k_conn k)))"
  shows "handles_ok (drop_handle h x k)"
proof -
  let ?m = "key_service_map (k_conn k)" and ?s = "service_key_map (k_conn k)"
  have ok: "sorted_wrt (<) (map fst ?m)" "distinct ?s" "set ?s = prod.swap ` set ?m" "\<And>y. k_listening k y = (y \<in> fst ` set ?s)"
    using assms(1) by (simp_all add: handles_ok_def)
  have hx: "(h, x) \<in> set ?m" using assms(2) by (simp add: find_service_for_key_def map_of_SomeD)
  have "fst p \<noteq> h \<longleftrightarrow> snd p \<noteq> x" if "p \<in> set ?m" for p
    using that hx sorted_keys_unique [OF ok(1) hx] assms(3) by (metis distinct_map inj_onD prod.collapse snd_conv fst_conv)
  then have e: "{p \<in> set ?m. fst p \<noteq> h} = {p \<in> set ?m. snd p \<noteq> x}" by blast
  have "{p \<in> prod.swap ` set ?m. fst p \<noteq> x} = prod.swap ` {p \<in> set ?m. snd p \<noteq> x}" by auto
  moreover have "y \<in> fst ` {p \<in> set ?s. fst p \<noteq> x} \<longleftrightarrow> y \<noteq> x \<and> k_listening k y" for y unfolding ok(4) by auto
  ultimately show ?thesis using ok(2,3) e sorted_erase_handle [OF ok(1), of h]
    by (simp add: handles_ok_def drop_handle_def erase_handle_def fun_upd_apply)
qed

lemma kept_drop_unload:
  assumes "handles_ok k" "distinct (map snd (key_service_map (k_conn k)))"
  shows "handles.kept (process_unload_service E k)"
  unfolding process_unload_service_def
proof (rule handles.kept_with_handle [OF assms(1)])
  fix h x assume f: "find_service_for_key (k_conn k) h = Some x"
  have "handles_ok (drop_handle h x (set_services E st k))" for st
    using handles.P_frame(5) [OF assms(1)] f assms(2) by (intro drop_handle_ok) (simp_all add: find_service_for_key_def frames)
  then show "handles.kept (do { lone \<leftarrow> has_lone_ref True x k;
      if \<not> lone \<or> service_state (svcs (k_set k) x) \<noteq> STOPPED then reply_consume E NAK 5 k
      else do { st \<leftarrow> unload_service (ce_fuel E) (ce_os E) (ce_addr E (conn_calls (k_conn k))) x (k_set k);
                reply_consume E ACK 5 (drop_handle h x (set_services E st k)) } })"
    using assms(1) by (auto intro!: handles.kept_steps handles.kept_bind)
qed

lemma kept_drop_reload:
  assumes "handles_ok k" "distinct (map snd (key_service_map (k_conn k)))"
  shows "handles.kept (process_reload_service E k)"
  unfolding process_reload_service_def Let_def
  by (rule handles.kept_with_handle [OF assms(1)])
    (use assms in \<open>auto intro!: handles.keep drop_handle_ok split: prod.splits sum.splits load_exc.splits\<close>)

text \<open>
  C20. Whatever a client sends, and wherever memory runs out in between: the two tables of a connection stay
  each other's inverse, a handle stands for one service, and the connection listens to exactly those
  services it holds handles of. For the requests to unload and to reload a service this takes that no
  service has two handles.
\<close>

theorem handles_consistent:
  assumes "handles_ok k" "process_packet E k = Some (r, k')"
    and "rbyte 0 (k_conn k) \<in> {9, 16 :: nat} \<Longrightarrow> distinct (map snd (key_service_map (k_conn k)))"
  shows "handles_ok k'"
proof -
  have "handles.kept (process_packet E k)"
  proof (cases "rbyte 0 (k_conn k) \<in> {9, 16 :: nat}")
    case True
    then show ?thesis using assms(3) kept_drop_unload [OF assms(1)] kept_drop_reload [OF assms(1)] by (auto simp: process_packet_def)
  next
    case False
    then show ?thesis using handles.kept_process_packet [OF assms(1)] by simp
  qed
  then show ?thesis using assms(2) by (simp add: ends_def)
qed

text \<open>Finding a service by its name, and the handle that comes of it.\<close>

definition find_net :: string where
  "find_net = [byte 1, byte 3, byte 0] @ ''net''"

theorem handles_consistent_witness:
  "\<exists>r k'. process_packet sample_world (sample_ctl sample_set find_net [(0, 2)]) = Some (r, k') \<and> handles_ok k'"
proof -
  let ?k = "sample_ctl sample_set find_net [(0, 2)]"
  have cmd: "rbyte 0 (k_conn ?k) = (1 :: nat)" by (simp add: sample_ctl_def find_net_def byte_def)
  have "process_packet sample_world ?k \<noteq> None"
    by (simp add: process_packet_def cmd process_find_load_def Let_def await_length_def bad_request_def hand_out_handle_def end_packet_def
        split: option.splits prod.splits)
  then obtain r k' where r: "process_packet sample_world ?k = Some (r, k')" by auto
  have "handles_ok ?k" by (auto simp: handles_ok_def sample_ctl_def new_conn_def)
  then have "handles_ok k'" using handles_consistent [OF _ r] cmd by simp
  then show ?thesis using r by blast
qed

section \<open>Gentle stops\<close>

lemma find_service_iff: "handles_ok k \<Longrightarrow> find_service_for_key (k_conn k) h = Some x \<longleftrightarrow> (h, x) \<in> set (key_service_map (k_conn k))"
  by (simp add: find_service_for_key_def handles_ok_def strict_sorted_iff)

lemma allocate_lookup:
  assumes "handles_ok k" "\<And>n. co_alloc W n" "allocate_service_handle W x k = (h, k')"
  shows "\<exists>i. h = Some i \<and> set (key_service_map (k_conn k')) = insert (i, x) (set (key_service_map (k_conn k)))"
proof -
  have "free_handle 0 (key_service_map (k_conn k)) \<notin> fst ` set (key_service_map (k_conn k))"
    using assms(1) free_handle_fresh [of "key_service_map (k_conn k)" 0] by (simp add: handles_ok_def)
  then show ?thesis using assms(2,3) by (auto simp: allocate_service_handle_def conn_ask_def Let_def set_enter_handle split: if_splits)
qed

lemma allocate_streams: "allocate_service_handle W x k = (h, k') \<Longrightarrow> streams (k_conn k') q = streams (k_conn k) q"
  by (auto simp: allocate_service_handle_def conn_ask_def Let_def streams_def out_ok_def pending_def split: if_splits)

lemma allocate_all_lookup:
  assumes "handles_ok k" "\<And>n. co_alloc W n" "allocate_all W xs k = (r, k')"
  shows "\<exists>hs. r = Some hs \<and> length hs = length xs \<and> set (zip hs xs) \<union> set (key_service_map (k_conn k)) \<subseteq> set (key_service_map (k_conn k'))
    \<and> streams (k_conn k') q = streams (k_conn k) q"
  using assms
proof (induction xs arbitrary: k r k')
  case (Cons x xs)
  obtain h k1 where a: "allocate_service_handle W x k = (h, k1)" by fastforce
  obtain i where i: "h = Some i" "set (key_service_map (k_conn k1)) = insert (i, x) (set (key_service_map (k_conn k)))"
    using allocate_lookup [OF Cons.prems(1,2) a] by blast
  obtain r1 k2 where b: "allocate_all W xs k1 = (r1, k2)" by fastforce
  obtain hs where hs: "r1 = Some hs" "length hs = length xs" "set (zip hs xs) \<union> set (key_service_map (k_conn k1)) \<subseteq> set (key_service_map (k_conn k2))"
    "streams (k_conn k2) q = streams (k_conn k1) q"
    using Cons.IH [OF handle_made_ok [OF Cons.prems(1) a] Cons.prems(2) b] by blast
  then have "r = Some (i # hs)" "k' = k2" using Cons.prems(3) a b i by simp_all
  then show ?case using hs i allocate_streams [OF a] by auto
qed simp

lemma check_dependents_reports:
  assumes "handles_ok k" "\<And>n. co_alloc (ce_conn E) n" "affected_dependents (k_set k) x \<noteq> []" "streams (k_conn k) q"
    and "check_dependents E x k = (v, k')"
  shows "v = Some Closing \<or> (v = Some Replied \<and> (\<exists>hs. streams (k_conn k') (q @ dependents_packet hs) \<and>
      map (find_service_for_key (k_conn k')) hs = map Some (affected_dependents (k_set k) x)))"
proof -
  let ?xs = "affected_dependents (k_set k) x"
  obtain r k1 where a: "allocate_all (ce_conn E) ?xs k = (r, k1)" by fastforce
  obtain hs where hs: "r = Some hs" "length hs = length ?xs" "set (zip hs ?xs) \<subseteq> set (key_service_map (k_conn k1))" "streams (k_conn k1) q"
    using allocate_all_lookup [OF assms(1,2) a] assms(4) by blast
  have hs_ne: "hs \<noteq> []" using hs(2) assms(3) by auto
  obtain ok k2 where p: "put_vec E (dependents_packet hs) k1 = (ok, k2)" by fastforce
  have r: "v = Some (if ok then Replied else Closing)" "k' = k2"
    using assms(5) a hs(1) hs_ne p by (auto simp: check_dependents_def)
  have "handles_ok k1" using handles.P_allocate_all [OF assms(1) a] .
  then have ok2: "handles_ok k2" using handles.P_put(2) p by blast
  have "set (zip hs ?xs) \<subseteq> set (key_service_map (k_conn k2))" using hs(3) viewD(4) [OF conjunct1 [OF put_vec_view [OF p]]] by simp
  then have l: "map (find_service_for_key (k_conn k2)) hs = map Some ?xs"
    using hs(2) find_service_iff [OF ok2] by (auto simp: list_eq_iff_nth_eq set_zip)
  have "streams (k_conn k2) (if ok then q @ dependents_packet hs else q)"
    using queue_vec_streams [OF hs(4), of "ce_conn E" "dependents_packet hs" ok "k_conn k2"] p by (auto simp: put_vec_def split: prod.splits)
  then show ?thesis using r l by (cases ok) auto
qed

lemma gentle_stop_command:
  assumes "bit flags 1" "affected_dependents (k_set k) x \<noteq> []" "\<not> (bit flags 2 \<and> is_shutting_down (k_set k))"
    and "\<not> (is_up (svcs (k_set k) x) \<and> is_start_pinned (svcs (k_set k) x))" "check_dependents E x k = (Some v, k')"
  shows "start_stop_command STOPSERVICE E flags x k = Some (v, k')"
  using assms by (auto simp: start_stop_command_def stop_command_of_def Let_def)


definition gentle_stop_base :: string where
  "gentle_stop_base = [byte 4, byte 2] @ le_bytes 4 0"

lemma sample_affected: "affected_dependents (k_set (sample_ctl sample_up gentle_stop_base [(0, 2)])) 2 = [1]"
  by (simp add: affected_dependents_def sample_ctl_def sample_up_def sample_set_def new_service_set_def new_dep_def)


end
