(* ===== verification/Control_Deps.thy ===== *)
theory Control_Deps
  imports Control_Props Service_Reload
begin

text \<open>
  Dependencies that are added over a control connection: the search for a circular chain is exact, and
  the dependencies stay free of cycles.
\<close>

section \<open>The search for a circular chain\<close>

lemma mark_targets_None: "mark_targets x ys marks queue = None \<longleftrightarrow> x \<in> set ys"
  by (induction ys arbitrary: marks queue) auto

lemma mark_targets_Some:
  assumes "mark_targets x ys marks queue = Some (marks', queue')" "distinct marks"
  shows "set marks' = set marks \<union> set ys" "set queue' = set queue \<union> (set ys - set marks)" "distinct marks'"
    "length queue' + length marks = length queue + length marks'"
proof -
  have "set marks' = set marks \<union> set ys \<and> set queue' = set queue \<union> (set ys - set marks) \<and> distinct marks' \<and>
      length queue' + length marks = length queue + length marks'"
    using assms
  proof (induction ys arbitrary: marks queue)
    case (Cons y ys)
    then show ?case using Cons.IH [of marks queue] Cons.IH [of "y # marks" "queue @ [y]"] by (auto split: if_splits)
  qed simp
  then show "set marks' = set marks \<union> set ys" "set queue' = set queue \<union> (set ys - set marks)" "distinct marks'"
    "length queue' + length marks = length queue + length marks'" by simp_all
qed

text \<open>What the search has seen so far is closed, but for what is still in the queue.\<close>

definition searching :: "(sid \<Rightarrow> sid list) \<Rightarrow> sid \<Rightarrow> sid \<Rightarrow> sid list \<Rightarrow> sid list \<Rightarrow> bool" where
  "searching targets x y marks queue \<longleftrightarrow>
     distinct marks \<and> set queue \<subseteq> insert y (set marks) \<and> set marks \<subseteq> {(u, v). v \<in> set (targets u)}\<^sup>* `` {y} \<and>
     (\<forall>u \<in> insert y (set marks) - set queue. set (targets u) \<subseteq> set marks \<and> x \<notin> set (targets u))"

lemma searching_done:
  assumes "searching targets x y marks []"
  shows "(y, x) \<notin> {(u, v). v \<in> set (targets u)}\<^sup>+"
proof
  let ?R = "{(u, v). v \<in> set (targets u)}"
  assume "(y, x) \<in> ?R\<^sup>+"
  then obtain z where z: "(y, z) \<in> ?R\<^sup>*" "(z, x) \<in> ?R" by (meson tranclD2)
  have "z \<in> insert y (set marks)" using z(1)
    by (induction rule: rtrancl_induct) (use assms in \<open>auto simp: searching_def\<close>)
  then show False using z(2) assms by (auto simp: searching_def)
qed

lemma searching_step:
  assumes "searching targets x y marks queue" "queue \<noteq> []"
    and "mark_targets x (targets (last queue)) marks (butlast queue) = Some (marks', queue')"
  shows "searching targets x y marks' queue'" "length queue' + length marks < length queue + length marks'" "set marks' = set marks \<union> set (targets (last queue))"
    "Suc (length queue' + length marks) = length queue + length marks'"
proof -
  let ?R = "{(u, v). v \<in> set (targets u)}"
  have d: "distinct marks" "last queue \<in> insert y (set marks)" "set (butlast queue) \<subseteq> insert y (set marks)"
    using assms(1) last_in_set [OF assms(2)] by (auto simp: searching_def dest: in_set_butlastD)
  note m = mark_targets_Some [OF assms(3) d(1)]
  have q: "set queue = insert (last queue) (set (butlast queue))"
    using assms(2) by (cases queue rule: rev_cases) auto
  have "(y, last queue) \<in> ?R\<^sup>*" using d(2) assms(1) by (auto simp: searching_def)
  then have r: "set (targets (last queue)) \<subseteq> ?R\<^sup>* `` {y}" by (auto intro: rtrancl_into_rtrancl)
  have no: "x \<notin> set (targets (last queue))" using assms(3) mark_targets_None by (metis option.distinct(1))
  have "set (targets u) \<subseteq> set marks' \<and> x \<notin> set (targets u)" if "u \<in> insert y (set marks') - set queue'" for u
    using that assms(1) no m(1,2) q by (cases "u = last queue") (auto simp: searching_def)
  then show "searching targets x y marks' queue'" using m d(3) assms(1) r by (auto simp: searching_def)
  show "length queue' + length marks < length queue + length marks'" "set marks' = set marks \<union> set (targets (last queue))" 
    "Suc (length queue' + length marks) = length queue + length marks'"
    using m(1,4) assms(2) by (cases queue rule: rev_cases; simp)+
qed

lemma chain_search_reach:
  assumes "searching targets x y marks queue" "finite U" "\<forall>u \<in> U. set (targets u) \<subseteq> U" "set marks \<subseteq> U" "y \<in> U"
    and "length queue + card U < n + length marks"
  shows "chain_search n targets x marks queue = Some ((y, x) \<in> {(u, v). v \<in> set (targets u)}\<^sup>+)"
  using assms(1,4,6)
proof (induction n arbitrary: marks queue)
  case 0
  have "length marks \<le> card U" using "0"(1,2) assms(2) by (metis card_mono distinct_card searching_def)
  then show ?case using "0" by simp
next
  case (Suc n)
  show ?case
  proof (cases "queue = []")
    case True
    then show ?thesis using searching_done Suc.prems(1) by auto
  next
    case False
    have l: "last queue \<in> insert y (set marks)" using Suc.prems(1) last_in_set [OF False] by (auto simp: searching_def)
    show ?thesis
    proof (cases "mark_targets x (targets (last queue)) marks (butlast queue)")
      case None
      then have "(last queue, x) \<in> {(u, v). v \<in> set (targets u)}" by (simp add: mark_targets_None)
      moreover have "(y, last queue) \<in> {(u, v). v \<in> set (targets u)}\<^sup>*" using l Suc.prems(1) by (auto simp: searching_def)
      ultimately show ?thesis using None False by (auto intro: rtrancl_into_trancl1)
    next
      case (Some mq)
      obtain m q where mq: "mq = (m, q)" by fastforce
      note st = searching_step [OF Suc.prems(1) False Some [unfolded mq]]
      have "set (targets (last queue)) \<subseteq> U" using l Suc.prems(2) assms(3,5) by blast
      then have "chain_search n targets x m q = Some ((y, x) \<in> {(u, v). v \<in> set (targets u)}\<^sup>+)"
        using st Suc.prems(2,3) by (intro Suc.IH) auto
      then show ?thesis using Some mq False by simp
    qed
  qed
qed

text \<open>Without the assumption on the fuel, an answer is still right.\<close>

lemma chain_search_sound:
  "searching targets x y marks queue \<Longrightarrow> chain_search n targets x marks queue = Some False \<Longrightarrow> (y, x) \<notin> {(u, v). v \<in> set (targets u)}\<^sup>+"
proof (induction n arbitrary: marks queue)
  case (Suc n)
  show ?case
  proof (cases "queue = []")
    case True
    then show ?thesis using Suc.prems(1) searching_done by blast
  next
    case False
    then obtain m q where mq: "mark_targets x (targets (last queue)) marks (butlast queue) = Some (m, q)" "chain_search n targets x m q = Some False"
      using Suc.prems(2) by (auto split: option.splits)
    show ?thesis by (rule Suc.IH [OF searching_step(1) [OF Suc.prems(1) False mq(1)] mq(2)])
  qed
qed simp

lemma searching_init: "searching targets x y [] [y]"
  by (simp add: searching_def)

section \<open>Adding a dependency\<close>

lemma same_links_targets: "same_links a b \<Longrightarrow> dep_targets b = dep_targets a"
  by (simp add: dep_targets_def same_linksD fun_eq_iff)

lemma run_queues_links: "run_queues E st = Some st' \<Longrightarrow> same_links st st'"
  using acq.process_queues [OF acq.refl, of st "ce_os E" "ce_fuel E"] by (auto simp: run_queues_def yields_def acq_step_def)

lemma start_dep_links: "same_links st (start_dep d st)"
proof -
  have "same_links st (require (dep_to (deps st d)) st)" by (rule require_links)
  then show ?thesis by (auto simp: start_dep_def same_links_def)
qed

lemma add_dep_depends:
  assumes "add_dep E d x y ty i st = (ok, st')" "fresh_link d st" "distinct (depends_on (svcs st x))"
  shows "depends st' = (if ok then insert (x, y) (depends st) else depends st)"
proof -
  note l = add_dep_lists [OF assms]
  have t: "dep_to (deps st' e) = dep_to (deps st e)" if "e \<in> set (depends_on (svcs st z))" for e z
    using l(3) [of e] that assms(2) by (auto simp: same_link_def fresh_link_def)
  have i: "set (insert_at i d (depends_on (svcs st x))) = insert d (set (depends_on (svcs st x)))"
    using insert_at(2) [OF assms(3)] assms(2) by (simp add: fresh_link_def)
  have "set (dep_targets st' z) = (if ok \<and> z = x then insert y (set (dep_targets st z)) else set (dep_targets st z))" for z
    using l(4) t by (simp add: dep_targets_def l(1) i cong: image_cong)
  then show ?thesis by (auto split: if_splits)
qed

lemma create_dep_depends:
  assumes "create_dep E ty x y k = Some (d, k')" "\<And>n. fresh_link (ce_addr E n) (k_set k)" "distinct (depends_on (svcs (k_set k) x))"
  shows "depends (k_set k') \<subseteq> insert (x, y) (depends (k_set k))"
proof (cases "find (\<lambda>d. dep_to (deps (k_set k) d) = y \<and> dep_type (deps (k_set k) d) = ty) (depends_on (svcs (k_set k) x))")
  case None
  obtain ok st where a: "add_dep (ce_os E) (ce_addr E (conn_calls (k_conn k))) x y ty (length (depends_on (svcs (k_set k) x))) (k_set k) = (ok, st)"
    by fastforce
  have "depends st \<subseteq> insert (x, y) (depends (k_set k))" using add_dep_depends [OF a assms(2,3)] by auto
  moreover have "dep_targets (k_set k') = dep_targets st"
    using assms(1) None a by (auto simp: create_dep_def Let_def bind_eq_Some_conv same_links_targets [OF run_queues_links] split: if_splits)
  ultimately show ?thesis by simp
qed (use assms(1) in \<open>auto simp: create_dep_def\<close>)

lemma enable_dep_depends: "enable_dep E b d x k = Some k' \<Longrightarrow> dep_targets (k_set k') = dep_targets (k_set k)"
  by (auto simp: enable_dep_def bind_eq_Some_conv same_links_targets [OF run_queues_links] same_links_targets [OF start_dep_links] split: if_splits)

lemma two_handles_ends:
  assumes "\<And>k'. k_set k' = k_set k \<Longrightarrow> Q k'" "\<And>x y. x \<noteq> y \<Longrightarrow> ends (\<lambda>_. Q) (f x y k)"
  shows "ends (\<lambda>_. Q) (with_two_handles E f k)"
  unfolding with_two_handles_def using assms by (auto intro!: ends_await ends_bad simp: upd_conn_def split: option.splits)

lemma dep_type_ends:
  assumes "\<And>k'. k_set k' = k_set k \<Longrightarrow> Q k'" "\<And>ty k'. k_set k' = k_set k \<Longrightarrow> ends (\<lambda>_. Q) (f ty k')"
  shows "ends (\<lambda>_. Q) (check_dep_type E f k)"
proof -
  obtain ok k1 where p: "put_chars E [rply BADREQ] k = (ok, k1)" by fastforce
  then have "k_set k1 = k_set k" using put_chars_view by blast
  then show ?thesis unfolding check_dep_type_def Let_def using p assms by (auto simp: upd_conn_def intro!: ends_bind)
qed

lemma add_service_dep_acyclic:
  assumes "acyclic (depends (k_set k))" "\<And>n. fresh_link (ce_addr E n) (k_set k)" "\<And>x. distinct (depends_on (svcs (k_set k) x))"
  shows "ends (\<lambda>_ k'. acyclic (depends (k_set k'))) (add_service_dep b E k)"
  unfolding add_service_dep_def Let_def
proof (intro two_handles_ends dep_type_ends)
  fix x y :: sid and ty and k1 :: ctl
  assume xy: "x \<noteq> y" and k1: "k_set k1 = k_set k"
  have fin: "ends (\<lambda>_ k'. acyclic (depends (k_set k'))) (reply_consume E r n k')" if "acyclic (depends (k_set k'))" for r n k'
    using that by (intro ends_consume) simp_all
  have "ends (\<lambda>_ k'. acyclic (depends (k_set k')))
      (Option.bind (create_dep E ty x y k1) (\<lambda>(d, k). case d of None \<Rightarrow> Some (Out_of_memory, k)
         | Some d \<Rightarrow> Option.bind (enable_dep E b d x k) (reply_consume E ACK 10)))"
    if "chain_search (ce_fuel E) (dep_targets (k_set k1)) x [] [y] = Some False"
  proof (rule ends_bind, clarify)
    fix d k2
    assume c: "create_dep E ty x y k1 = Some (d, k2)"
    have "(y, x) \<notin> (depends (k_set k))\<^sup>+" using chain_search_sound [OF searching_init that] k1 by simp
    then have "(y, x) \<notin> (depends (k_set k))\<^sup>*" using xy by (auto simp: rtrancl_eq_or_trancl)
    then have "acyclic (insert (x, y) (depends (k_set k)))" using assms(1) acyclic_insert by blast
    then have a: "acyclic (depends (k_set k2))" using create_dep_depends [OF c] assms(2,3) k1 acyclic_subset by metis
    show "ends (\<lambda>_ k'. acyclic (depends (k_set k'))) (case d of None \<Rightarrow> Some (Out_of_memory, k2)
         | Some d \<Rightarrow> Option.bind (enable_dep E b d x k2) (reply_consume E ACK 10))"
      using a by (cases d) (auto intro!: ends_bind fin simp: enable_dep_depends)
  qed
  then show "ends (\<lambda>_ k'. acyclic (depends (k_set k')))
     (if ty = REGULAR \<and> service_state (svcs (k_set k1) x) \<noteq> STOPPED \<and> service_state (svcs (k_set k1) y) \<noteq> STARTED
      then reply_consume E NAK 10 k1
      else case chain_search (ce_fuel E) (dep_targets (k_set k1)) x [] [y] of None \<Rightarrow> None
           | Some True \<Rightarrow> reply_consume E NAK 10 k1
           | Some False \<Rightarrow> Option.bind (create_dep E ty x y k1) (\<lambda>(d, k). case d of None \<Rightarrow> Some (Out_of_memory, k)
               | Some d \<Rightarrow> Option.bind (enable_dep E b d x k) (reply_consume E ACK 10)))"
    using assms(1) k1 by (auto intro!: fin split: option.splits bool.splits)
qed (use assms(1) in auto)

text \<open>
  C21. Dependencies stay free of cycles: if there is none before a request to add a dependency, whether or
  not it is to be enabled as well, there is none after it, whatever the reply, and even where memory runs
  out half-way.
\<close>

theorem added_dependency_makes_no_cycle:
  assumes "acyclic {(x, y). y \<in> set (dep_targets (k_set k) x)}" "\<And>n. fresh_link (ce_addr E n) (k_set k)"
    and "\<And>x. distinct (depends_on (svcs (k_set k) x))"
    and "rbyte 0 (k_conn k) \<in> {11, 14 :: nat}" "process_packet E k = Some (r, k')"
  shows "acyclic {(x, y). y \<in> set (dep_targets (k_set k') x)}"
  using add_service_dep_acyclic [OF assms(1-3)] assms(4,5) by (auto simp: process_packet_def ends_def)

definition wait_for_base :: string where
  "wait_for_base = [byte 11, byte 2] @ le_bytes 4 0 @ le_bytes 4 1"

definition linking :: ctl where
  "linking = sample_ctl sample_set wait_for_base [(0, 0), (1, 2)]"

lemma sample_targets: "dep_targets sample_set x = (if x = 0 then [1] else if x = 1 then [2] else [])"
  by (simp add: dep_targets_def sample_set_def new_service_set_def new_service_record_def new_dep_def)

lemma process_queues_idle: "prop_queue st = [] \<Longrightarrow> stop_queue st = [] \<Longrightarrow> process_queues E (Suc n) st = Some st"
  by simp

lemma sample_facts:
  "service_state (svcs sample_set x) = STOPPED" "prop_queue sample_set = []" "stop_queue sample_set = []" "depends_on (svcs sample_set 0) = [0]"
  by (simp_all add: sample_set_def new_service_set_def new_service_record_def)

lemma sample_dep_created:
  "\<exists>st. add_dep sample_os d 0 2 WAITS_FOR 1 sample_set = (True, st) \<and> prop_queue st = [] \<and> stop_queue st = [] \<and> depends_on (svcs st 0) = [0, d]"
  by (simp add: add_dep_def ask_def sample_os_alloc Let_def push_dependent_def emplace_dep_def insert_at_def sample_facts upd_svc_def upd_dep_def)

lemma wait_for_base_done:
  "\<exists>r k'. process_packet sample_world linking = Some (r, k') \<and> length (depends_on (svcs (k_set k') 0)) = 2"
proof -
  let ?k = linking
  have cmd: "rbyte 0 (k_conn ?k) = (11 :: nat)" "rbyte 1 (k_conn ?k) = (2 :: nat)" "field 2 4 (k_conn ?k) = 0" "field 6 4 (k_conn ?k) = 1"
    "length (rbuf (k_conn ?k)) = 10"
    by (simp_all add: linking_def sample_ctl_def wait_for_base_def of_byte field_def le_nat_le_bytes)
  have f: "find_service_for_key (k_conn ?k) 0 = Some 0" "find_service_for_key (k_conn ?k) 1 = Some 2"
    by (simp_all add: find_service_for_key_def linking_def sample_ctl_def)
  have ty: "dep_type_of 2 = Some WAITS_FOR" by (simp add: dep_type_of_def upt_rec)
  obtain st where st: "add_dep sample_os 100 0 2 WAITS_FOR 1 sample_set = (True, st)" "prop_queue st = []" "stop_queue st = []" "depends_on (svcs st 0) = [0, 100]"
    using sample_dep_created by blast
  have E: "ce_os sample_world = sample_os" "ce_fuel sample_world = Suc 9" "ce_addr sample_world 0 = 100" by (simp_all add: sample_world_def)
  have rq: "run_queues sample_world st = Some st" unfolding run_queues_def E by (rule process_queues_idle [OF st(2,3)])
  have k: "k_set ?k = sample_set" "conn_calls (k_conn ?k) = 0" by (simp_all add: linking_def sample_ctl_def new_conn_def)
  have "find (\<lambda>d. dep_to (deps sample_set d) = 2 \<and> dep_type (deps sample_set d) = WAITS_FOR) (depends_on (svcs sample_set 0)) = None"
    "length (depends_on (svcs sample_set 0)) = 1"
    by (simp_all add: sample_set_def new_dep_def)
  then have c: "create_dep sample_world WAITS_FOR 0 2 ?k = Some (Some 100, set_services sample_world st ?k)"
    by (simp add: create_dep_def Let_def k E st(1) [simplified] rq)
  have s: "chain_search (ce_fuel sample_world) (dep_targets sample_set) 0 [] [2] = Some False" by (simp add: E(2) sample_targets numeral_eq_Suc)
  have "process_packet sample_world ?k = reply_consume sample_world ACK 10 (set_services sample_world st ?k)"
    unfolding process_packet_def add_service_dep_def with_two_handles_def check_dep_type_def Let_def cmd f
    by (simp add: ty k s c enable_dep_def)
  then show ?thesis using st(4) by (auto simp: reply_consume_def split: prod.splits dest!: put_chars_view)
qed

theorem added_dependency_makes_no_cycle_witness:
  "\<exists>r k'. process_packet sample_world linking = Some (r, k') \<and>
     length (depends_on (svcs (k_set k') 0)) = 2 \<and> acyclic {(x, y). y \<in> set (dep_targets (k_set k') x)}"
proof -
  let ?k = linking
  obtain r k' where r: "process_packet sample_world ?k = Some (r, k')" "length (depends_on (svcs (k_set k') 0)) = 2"
    using wait_for_base_done by blast
  have k: "k_set ?k = sample_set" by (simp add: linking_def sample_ctl_def)
  have "acyclic {(x, y). y \<in> set (dep_targets sample_set x)}"
    by (rule wf_acyclic, rule wf_subset [OF wf_less_than]) (auto simp: sample_targets split: if_splits)
  moreover have "fresh_link (ce_addr sample_world n) sample_set" "distinct (depends_on (svcs sample_set x))" for n x
    by (simp_all add: fresh_link_def sample_world_def sample_set_def new_service_record_def)
  moreover have "rbyte 0 (k_conn ?k) = (11 :: nat)" by (simp add: linking_def sample_ctl_def wait_for_base_def of_byte)
  ultimately have "acyclic {(x, y). y \<in> set (dep_targets (k_set k') x)}"
    using added_dependency_makes_no_cycle [OF _ _ _ _ r(1)] unfolding k by simp
  then show ?thesis using r by blast
qed

end
