(* ===== verification/Control_Services.thy ===== *)
theory Control_Services
  imports Control_Deps
begin

text \<open>
  What requests over a control connection do to the services: however a client uses the commands, the
  acquisition counts stay covered.
\<close>

context step_relation
begin

lemma forced_stop: "R a st \<Longrightarrow> R a (forced_stop x st)"
  unfolding forced_stop_def by (assumption | rule decide_rules | simp add: quiet_def)+

end

section \<open>Acquisitions\<close>

abbreviation sound_ends :: "(reply \<times> ctl) option \<Rightarrow> bool" where
  "sound_ends \<equiv> ends (\<lambda>_ k. sound (k_set k))"

lemma sound_steps:
  assumes "sound (k_set k)"
  shows "sound_ends (await_length n k)" "sound_ends (bad_request E k)" "sound_ends (end_reply E a k)" "sound_ends (end_packet E pkt k)"
    "sound_ends (reply_consume E a n k)"
  by (rule ends_await ends_bad ends_reply ends_packet ends_consume; use assms in \<open>simp add: upd_conn_def\<close>)+

lemma sound_frame [simp]:
  "k_set (upd_conn f k) = k_set k" "k_set (set_services E st k) = st" "k_set (notify_env E r k) = k_set k"
  by (simp_all add: upd_conn_def)

lemma sound_yields:
  assumes "sound st" "yields (acq_step st) m" "m = Some st'"
  shows "sound st'"
  using assms sound_step by (auto simp: yields_def)

lemma sound_run_queues: "sound st \<Longrightarrow> run_queues E st = Some st' \<Longrightarrow> sound st'"
  unfolding run_queues_def by (rule sound_yields [OF _ acq.process_queues [OF acq.refl]])

lemma sound_start_dep: "sound st \<Longrightarrow> sound (start_dep d st)"
  by (simp add: start_dep_def sound_require_hold)

lemma sound_rm_dep:
  assumes "rm_dep n E x y ty st = Some (ok, st')" "sound st"
  shows "sound st'"
proof (cases "find (\<lambda>d. dep_to (deps st d) = y \<and> dep_type (deps st d) = ty) (depends_on (svcs st x))")
  case (Some d)
  then have "d \<in> set (depends_on (svcs st x))" by (auto simp: find_Some_iff)
  with Some assms show ?thesis by (auto simp: rm_dep_def dest: sound_rm_dep_at)
qed (use assms in \<open>simp add: rm_dep_def\<close>)

lemmas acq_pin = acq.pins [OF acq.refl]

lemma sound_pins: "sound st \<Longrightarrow> sound (if b then pin_start x st else st)" "sound st \<Longrightarrow> sound (if b then pin_stop x st else st)"
  using sound_step [OF acq_pin(1)] sound_step [OF acq_pin(2)] by simp_all

lemma sound_simple:
  assumes "sound st"
  shows "sound (start x st)" "sound (forced_stop x st)" "sound (clear_log_buffer x st)" "sound (emit e st)"
    "stop n W x b st = Some st' \<Longrightarrow> sound st'" "restart n W x st = Some (ok, st') \<Longrightarrow> sound st'"
    "unpin (run_ctx W n) x st = Some st' \<Longrightarrow> sound st'" "set_trigger (run_ctx W n) x b st = Some st' \<Longrightarrow> sound st'"
    "stop_all_services (run_ctx W n) sd st = Some st' \<Longrightarrow> sound st'"
proof -
  note s = sound_step [OF _ assms] and r = acq.refl [of st]
  show "sound (start x st)" "sound (forced_stop x st)" "sound (clear_log_buffer x st)" "sound (emit e st)"
    by (rule s, rule acq.start acq.forced_stop acq.log_settings acq.step_emit, rule r)+
  show "stop n W x b st = Some st' \<Longrightarrow> sound st'" by (rule sound_yields [OF assms acq.stop [OF r]])
  show "restart n W x st = Some (ok, st') \<Longrightarrow> sound st'" using acq.restart [OF r, of n W x] s by (auto simp: yields_def)
  show "unpin (run_ctx W n) x st = Some st' \<Longrightarrow> sound st'" by (rule sound_yields [OF assms acq.unpin [OF acq.follows_run r]])
  show "set_trigger (run_ctx W n) x b st = Some st' \<Longrightarrow> sound st'" by (rule sound_yields [OF assms acq.commands(4) [OF acq.follows_run r]])
  show "stop_all_services (run_ctx W n) sd st = Some st' \<Longrightarrow> sound st'" by (rule sound_yields [OF assms acq.commands(3) [OF acq.follows_run r]])
qed

lemma sound_wake: "sound (snd r) \<Longrightarrow> sound (snd (fold wake_dependent ds r))"
  by (induction ds arbitrary: r) (auto simp: wake_dependent_def sound_start_dep split: prod.splits)

lemma sound_start_stop_command:
  assumes "sound (k_set k)" "start_stop_command cmd E flags x k = Some (v, k')"
  shows "sound (k_set k')"
proof (cases cmd)
  case STARTSERVICE
  have run: "sound st'" if "run_queues E (start x (if b then pin_start x (k_set k) else k_set k)) = Some st'" for b st'
    by (rule sound_run_queues [OF sound_simple(1) [OF sound_pins(1) [OF assms(1)]] that])
  show ?thesis using assms STARTSERVICE run [of True] run [of False]
    by (auto simp: start_stop_command_def start_command_def Let_def bind_eq_Some_conv split: if_splits)
next
  case STOPSERVICE
  obtain o1 k1 where c: "(if bit flags 1 then check_dependents E x k else (None, k)) = (o1, k1)" by fastforce
  then have k1: "sound (k_set k1)" using assms(1) check_dependents_frame by (auto split: if_splits)
  have stops: "sound st2" if "stop (ce_fuel E) (ce_os E) x True (if b then pin_stop x (k_set k) else k_set k) = Some st1"
      "run_queues E (forced_stop x st1) = Some st2" for b st1 st2
    by (rule sound_run_queues [OF sound_simple(2) [OF sound_simple(5) [OF sound_pins(2) [OF assms(1)] that(1)]] that(2)])
  note restarts = sound_simple(6) [OF assms(1)] sound_run_queues [OF sound_simple(6) [OF assms(1)]]
  show ?thesis using assms c STOPSERVICE k1 stops [of True] stops [of False] restarts
    by (auto simp: start_stop_command_def stop_command_of_def Let_def bind_eq_Some_conv split: if_splits option.splits)
next
  case WAKESERVICE
  obtain fd st1 where w: "fold wake_dependent (dependents (svcs (k_set k) x)) (False, k_set k) = (fd, st1)" by fastforce
  then have "sound st1" using sound_wake [of "(False, k_set k)"] assms(1) by (metis snd_conv)
  then have run: "sound st'" if "run_queues E (if b then pin_start x st1 else st1) = Some st'" for b st'
    by (rule sound_run_queues [OF sound_pins(1) that])
  show ?thesis using assms WAKESERVICE w run [of True] run [of False]
    by (auto simp: start_stop_command_def wake_command_def Let_def bind_eq_Some_conv split: if_splits)
next
  case RELEASESERVICE
  note run = sound_run_queues [OF sound_simple(5) [OF sound_pins(2) [OF assms(1)]]]
  show ?thesis using assms RELEASESERVICE
    by (auto simp: start_stop_command_def release_command_def Let_def bind_eq_Some_conv dest!: run)
qed

lemma sound_bind: "(\<And>x. m = Some x \<Longrightarrow> sound_ends (f x)) \<Longrightarrow> sound_ends (Option.bind m f)"
  by (rule ends_bind)

lemma sound_finish: "sound (k_set k) \<Longrightarrow> sound_ends (finish_command E (start_stop_command cmd E flags x k))"
  by (auto simp: finish_command_def intro!: sound_steps dest: sound_start_stop_command split: option.splits verdict.splits)

lemma sound_start_stop:
  assumes "sound (k_set k)"
  shows "sound_ends (process_start_stop cmd E k)"
  by (rule process_start_stop_ends; use assms in \<open>simp add: sound_steps sound_finish\<close>)

lemma sound_hand_out: "sound (k_set k) \<Longrightarrow> sound_ends (hand_out_handle E x k)"
  by (auto simp: hand_out_handle_def split: prod.splits option.splits dest!: allocate_frame intro!: sound_steps)

lemma sound_find: "sound (k_set k) \<Longrightarrow> sound_ends (process_find_load False E k)"
  unfolding process_find_load_def Let_def by (auto intro!: sound_steps sound_hand_out split: option.splits)

lemma sound_close: "sound (k_set k) \<Longrightarrow> sound_ends (process_close_handle E k)"
  unfolding process_close_handle_def Let_def by (auto intro!: sound_steps split: option.splits)

lemma sound_query_handle:
  "sound (k_set k) \<Longrightarrow> (\<And>c x k'. sound (k_set k') \<Longrightarrow> sound_ends (f c x k')) \<Longrightarrow> sound_ends (query_handle i n E f k)"
  unfolding query_handle_def Let_def by (simp add: sound_steps split: option.splits)

lemma sound_queries:
  assumes "sound (k_set k)"
  shows "sound_ends (service_status_with fill E k)" "sound_ends (process_query_name E k)" "sound_ends (process_query_dsc_dir E k)"
    "sound_ends (process_catlog E k)" "sound_ends (process_signal E k)"
  unfolding service_status_with_def process_query_name_def process_query_dsc_dir_def process_catlog_def process_signal_def Let_def
  by (rule sound_query_handle [OF assms]; auto intro!: sound_steps sound_simple(3,4) split: kill_reply.splits)+

lemma sound_set_trigger:
  assumes "sound (k_set k)"
  shows "sound_ends (process_set_trigger E k)"
  unfolding process_set_trigger_def
proof (rule sound_query_handle [OF assms])
  fix c x and k' :: ctl
  assume "sound (k_set k')"
  note run = sound_run_queues [OF sound_simple(8) [OF this]]
  show "sound_ends (if record_type (svcs (k_set k') x) \<noteq> TRIGGERED then end_reply E NAK k'
      else do { st \<leftarrow> set_trigger (services_ctx E) x (rbyte 5 c \<noteq> 0) (k_set k'); st \<leftarrow> run_queues E st; end_reply E ACK (set_services E st k') })"
    using \<open>sound (k_set k')\<close> by (auto intro!: sound_steps sound_bind dest: run)
qed

lemma sound_unpin:
  assumes "sound (k_set k)"
  shows "sound_ends (process_unpin_service E k)"
proof -
  note run = sound_run_queues [OF sound_simple(7) [OF assms]]
  show ?thesis unfolding process_unpin_service_def with_handle_def Let_def using assms
    by (auto intro!: sound_steps sound_bind dest: run split: option.splits)
qed

lemma sound_shutdown:
  assumes "sound (k_set k)"
  shows "sound_ends (process_shutdown E k)"
  unfolding process_shutdown_def using assms
  by (auto intro!: sound_steps sound_bind dest: sound_simple(9) [OF assms] split: option.splits shutdown_type_t.splits)

lemma sound_list: "sound (k_set k) \<Longrightarrow> sound_ends (list_services_with fill E k)"
  unfolding list_services_with_def Let_def by (auto split: prod.splits dest!: put_all_view intro!: sound_steps)

lemma sound_env:
  assumes "sound (k_set k)"
  shows "sound_ends (process_setenv E k)" "sound_ends (process_getallenv E k)" "sound_ends (process_listenenv E k)"
    "sound_ends (query_load_mech E k)" "sound_ends (query_version E k)"
  unfolding process_setenv_def process_getallenv_def process_listenenv_def query_load_mech_def query_version_def Let_def using assms
  by (auto intro!: sound_steps split: option.splits prod.splits dest!: put_chars_view)

lemma sound_add_service_dep:
  assumes "sound (k_set k)" "\<And>n. fresh_link (ce_addr E n) (k_set k)"
  shows "sound_ends (add_service_dep b E k)"
  unfolding add_service_dep_def Let_def
proof (intro two_handles_ends dep_type_ends)
  fix x y :: sid and ty and k1 :: ctl
  assume k1: "k_set k1 = k_set k"
  have made: "sound (k_set k2)" if "create_dep E ty x y k1 = Some (d, k2)" for d k2
  proof -
    have "sound (snd (add_dep (ce_os E) (ce_addr E (conn_calls (k_conn k1))) x y ty (length (depends_on (svcs (k_set k1) x))) (k_set k1)))"
      using assms k1 by (intro sound_add_dep) simp_all
    then show ?thesis using that assms(1) k1
      by (auto simp: create_dep_def Let_def bind_eq_Some_conv split: option.splits prod.splits if_splits dest: sound_run_queues)
  qed
  have enabled: "sound (k_set k3)" if "enable_dep E b d x k2 = Some k3" "sound (k_set k2)" for d k2 k3
    using that by (auto simp: enable_dep_def bind_eq_Some_conv split: if_splits dest: sound_run_queues [OF sound_start_dep])
  show "sound_ends
     (if ty = REGULAR \<and> service_state (svcs (k_set k1) x) \<noteq> STOPPED \<and> service_state (svcs (k_set k1) y) \<noteq> STARTED
      then reply_consume E NAK 10 k1
      else case chain_search (ce_fuel E) (dep_targets (k_set k1)) x [] [y] of None \<Rightarrow> None
           | Some True \<Rightarrow> reply_consume E NAK 10 k1
           | Some False \<Rightarrow> Option.bind (create_dep E ty x y k1) (\<lambda>(d, k). case d of None \<Rightarrow> Some (Out_of_memory, k)
               | Some d \<Rightarrow> Option.bind (enable_dep E b d x k) (reply_consume E ACK 10)))"
    using assms(1) k1 by (auto intro!: sound_steps sound_bind dest!: made enabled split: option.splits bool.splits)
qed (use assms(1) in auto)

lemma sound_rm_service_dep:
  assumes "sound (k_set k)"
  shows "sound_ends (rm_service_dep E k)"
  unfolding rm_service_dep_def using assms
  by (intro two_handles_ends dep_type_ends) (auto intro!: sound_steps sound_bind dest!: sound_rm_dep dest: sound_run_queues)

lemmas sound_all = sound_steps(2) sound_start_stop sound_find sound_close sound_queries sound_set_trigger sound_unpin sound_shutdown sound_list
  sound_env sound_add_service_dep sound_rm_service_dep

lemma sound_process_packet:
  assumes "sound (k_set k)" "\<And>n. fresh_link (ce_addr E n) (k_set k)" "rbyte 0 (k_conn k) \<notin> {2, 9, 16 :: nat}"
  shows "sound_ends (process_packet E k)"
  using assms unfolding process_packet_def Let_def list_services_def list_services5_def process_service_status_def process_service_status5_def
  by (simp add: sound_all)

text \<open>
  C3. However a client uses the commands of the protocol, and in whatever state its services are: if the
  links are consistent and every acquisition count covers the explicit activation of its service and
  the dependents that hold it, then so it is after the request. This covers all requests but those
  that load, unload or reload a service, and says that no client can make the manager stop a service
  that is still held.
\<close>

theorem requests_keep_acquisitions:
  assumes "wf_links (k_set k)" "\<And>y. required_by (svcs (k_set k) y) \<ge> of_bool (start_explicit (svcs (k_set k) y)) + int (held (k_set k) y)"
    and "\<And>n. fresh_link (ce_addr E n) (k_set k)" "rbyte 0 (k_conn k) \<notin> {2, 9, 16 :: nat}" "process_packet E k = Some (r, k')"
  shows "wf_links (k_set k') \<and> required_by (svcs (k_set k') x) \<ge> of_bool (start_explicit (svcs (k_set k') x)) + int (held (k_set k') x)"
proof -
  have "sound (k_set k)" using assms(1,2) by (simp add: sound_def slack_def algebra_simps)
  then have "sound (k_set k')" using sound_process_packet [OF _ assms(3,4)] assms(5) by (auto simp: ends_def)
  then show ?thesis by (simp add: sound_def slack_def algebra_simps)
qed

theorem requests_keep_acquisitions_witness:
  "\<exists>r k'. process_packet sample_world linking = Some (r, k') \<and> length (depends_on (svcs (k_set k') 0)) = 2 \<and> wf_links (k_set k')"
proof -
  obtain r k' where r: "process_packet sample_world linking = Some (r, k')" "length (depends_on (svcs (k_set k') 0)) = 2"
    using wait_for_base_done by blast
  have k: "k_set linking = sample_set" by (simp add: linking_def sample_ctl_def)
  have cmd: "rbyte 0 (k_conn linking) \<notin> {2, 9, 16 :: nat}" by (simp add: linking_def sample_ctl_def wait_for_base_def of_byte)
  have fr: "fresh_link (ce_addr sample_world n) (k_set linking)" for n
    unfolding k by (simp add: fresh_link_def sample_world_def sample_set_def new_service_record_def)
  have "wf_links (k_set k')" using requests_keep_acquisitions [OF _ _ fr cmd r(1)] sample_wf_links sample_acquired unfolding k by blast
  then show ?thesis using r by blast
qed

section \<open>Unloading with two handles\<close>

text \<open>
  C25. A client that holds two handles of a service can unload it over one of them: the check counts the
  connection once. Only the handle in the request is forgotten; the other one still stands for the
  record, which has been deleted.
\<close>

theorem unloading_leaves_a_dangling_handle:
  assumes "find_service_for_key (k_conn k) h = Some x" "find_service_for_key (k_conn k) h' = Some x" "h' \<noteq> h"
    and "5 \<le> length (rbuf (k_conn k))" "rbyte 0 (k_conn k) = (9 :: nat)" "field 1 4 (k_conn k) = h"
    and "k_listening k x" "k_others k x = 0" "dependents (svcs (k_set k) x) = []" "service_state (svcs (k_set k) x) = STOPPED"
    and "process_packet E k = Some (r, k')"
  shows "find_service_for_key (k_conn k') h' = Some x \<and> (\<exists>st. k_set k' = delete_record x st)"
proof -
  have "has_lone_ref True x k = Some True" using assms(7-9) by (simp add: has_lone_ref_def)
  then obtain st where st: "unload_service (ce_fuel E) (ce_os E) (ce_addr E (conn_calls (k_conn k))) x (k_set k) = Some st"
    "reply_consume E ACK 5 (drop_handle h x (set_services E st k)) = Some (r, k')"
    using assms(1,4,5,6,10,11) by (auto simp: process_packet_def process_unload_service_def with_handle_def bind_eq_Some_conv)
  obtain ok k2 where p: "put_chars E [rply ACK] (drop_handle h x (set_services E st k)) = (ok, k2)" by fastforce
  have v: "view k2 = view (drop_handle h x (set_services E st k))" "k_set k2 = st" using put_chars_view [OF p] by (simp_all add: drop_handle_def)
  have "k' = (if ok then consume_packet 5 k2 else k2)" using st(2) p by (auto simp: reply_consume_def split: if_splits)
  then have k': "key_service_map (k_conn k') = erase_handle h (key_service_map (k_conn k))" "k_set k' = st"
    using viewD(4) [OF v(1)] v(2) by (auto simp: drop_handle_def frames)
  have "map_of (erase_handle h m) h' = map_of m h'" for m :: "(nat \<times> sid) list" using assms(3) by (induction m) (auto simp: erase_handle_def)
  moreover have "\<exists>st0. st = delete_record x st0" using st(1) by (auto simp: unload_service_def Let_def bind_eq_Some_conv)
  ultimately show ?thesis using assms(2) k' by (auto simp: find_service_for_key_def)
qed

definition lone_set :: sset where
  "lone_set = new_service_set\<lparr>svcs := (\<lambda>_. new_service_record [])(3 := (new_service_record ''net'')\<lparr>record_type := INTERNAL\<rparr>), records := [3]\<rparr>"

definition unloading :: ctl where
  "unloading = sample_ctl lone_set ([byte 9] @ le_bytes 4 0) [(0, 3), (1, 3)]"

theorem unloading_leaves_a_dangling_handle_witness:
  "\<exists>r k'. process_packet sample_world unloading = Some (r, k') \<and> find_service_for_key (k_conn k') 1 = Some 3 \<and> (\<exists>st. k_set k' = delete_record 3 st)"
proof -
  have c: "find_service_for_key (k_conn unloading) 0 = Some 3" "find_service_for_key (k_conn unloading) 1 = Some 3" "length (rbuf (k_conn unloading)) = 5"
    "rbyte 0 (k_conn unloading) = (9 :: nat)" "field 1 4 (k_conn unloading) = 0" "k_listening unloading 3" "k_others unloading 3 = 0"
    by (simp_all add: unloading_def sample_ctl_def find_service_for_key_def of_byte field_def le_nat_le_bytes)
  have s: "dependents (svcs (k_set unloading) 3) = []" "service_state (svcs (k_set unloading) 3) = STOPPED"
    by (simp_all add: unloading_def sample_ctl_def lone_set_def new_service_record_def)
  have "has_lone_ref True 3 unloading = Some True" using c s by (simp add: has_lone_ref_def)
  moreover have "unload_service n W ph 3 (k_set unloading) \<noteq> None" for n W ph
    by (simp add: unload_service_def prepare_for_unload_def unloading_def sample_ctl_def lone_set_def new_service_record_def new_service_set_def)
  ultimately have "process_packet sample_world unloading \<noteq> None" using c s
    by (auto simp: process_packet_def process_unload_service_def with_handle_def reply_consume_def bind_eq_None_conv split: prod.splits)
  then obtain r k' where r: "process_packet sample_world unloading = Some (r, k')" by auto
  show ?thesis using unloading_leaves_a_dangling_handle [OF c(1,2) _ _ c(4,5,6,7) s r] c(3) r by auto
qed

end
